(* ===== verification/Prelude.thy ===== *)
theory Prelude
  imports Main "HOL-Library.Word" "HOL-Library.Char_ord" "HOL-Library.List_Lexorder"
    "HOL-Library.AList" "HOL-Library.Multiset"
begin

text \<open>
  What every component of the gateway shares, and what the sources use of Go itself:
  \<^item> errors, as the list of sentinel errors an error value wraps (the chain that
    \<open>errors.Is\<close> walks), and results \<open>error + 'a\<close>;
  \<^item> byte slices (\<open>8 word list\<close>), Go strings (byte strings, Isabelle's \<open>string\<close>) and
    the conversions between them;
  \<^item> the functions of the package \<open>strings\<close> the code calls, on the bytes of the string;
  \<^item> Go maps, as association lists with distinct keys;
  \<^item> readers (a byte stream and the error at its end), \<open>io.ReadFull\<close>;
  \<^item> \<open>sort.SliceStable\<close> for a comparison function, with its contract as a locale.
\<close>

unbundle bit_operations_syntax

named_theorems go_simps \<open>rewrite rules for the model of Go's library\<close>
named_theorems inv_intros \<open>preservation of component invariants by their operations\<close>

section \<open>Errors and results\<close>

text \<open>
  The sentinel errors of the sources and of the library packages they test for. An anonymous
  \<open>errors.New\<close> or \<open>fmt.Errorf\<close> without a wrapped error is \<open>Msg\<close> with its text (up to the
  values interpolated into it).
\<close>

datatype sentinel =
    EOF | ErrUnexpectedEOF | TimeoutErr | ErrClosed | IOErr string | ErrShortWrite
  | ContextCanceled | ContextDeadlineExceeded
  | ErrVarIntTooLong
  | ErrPacketTooLarge | ErrMalformedHandshake | ErrUnsupportedNextState
  | ErrMalformedLoginStart | ErrUnsupportedLoginProtocol
  | ErrInvalid
  | ErrNoRoute | ErrInvalidServerAddress
  | ErrPacketTooShort | ErrInvalidMagic | ErrInvalidLength | ErrTruncatedPacket | ErrTrailingBytes
  | ErrServiceListFailed | ErrServiceWatchClosed | ErrServiceWatchError | ErrServiceWatchSetupFailed
  | ErrSessionLimit | ErrUnknownRegistration | ErrExpiredRegistration | ErrBackendMissing
  | Msg string

type_synonym error = "sentinel list"
type_synonym 'a result = "error + 'a"

definition errors_Is :: "error \<Rightarrow> sentinel \<Rightarrow> bool" where
  "errors_Is e t \<longleftrightarrow> t \<in> set e"

definition is_ok :: "'a result \<Rightarrow> bool" where
  "is_ok r = (case r of Inl _ \<Rightarrow> False | Inr _ \<Rightarrow> True)"

lemma is_ok_simps [simp]: "is_ok (Inr x)" "\<not> is_ok (Inl e)"
  by (simp_all add: is_ok_def)

lemma is_ok_iff: "is_ok r \<longleftrightarrow> (\<exists>x. r = Inr x)"
  by (auto simp: is_ok_def split: sum.splits)

section \<open>Bytes and strings\<close>

type_synonym byte = "8 word"
type_synonym bytes = "byte list"

definition byte_of_char :: "char \<Rightarrow> byte" where
  "byte_of_char c = of_nat (of_char c)"

definition char_of_byte :: "byte \<Rightarrow> char" where
  "char_of_byte b = char_of (unat b)"

lemma unat_byte_less [simp]: "unat (b :: byte) < 256"
  using unsigned_less [of b] by simp

lemma char_of_byte_of_char [simp]: "char_of_byte (byte_of_char c) = c"
proof -
  have "of_char c mod (256::nat) = of_char c"
    using of_char_mod_256 [of c, where 'a = nat] by simp
  then show ?thesis
    by (simp add: byte_of_char_def char_of_byte_def unat_of_nat)
qed

lemma byte_of_char_of_byte [simp]: "byte_of_char (char_of_byte b) = b"
  by (simp add: byte_of_char_def char_of_byte_def)

text \<open>The conversions \<open>[]byte(s)\<close> and \<open>string(b)\<close>.\<close>

definition bytes_of :: "string \<Rightarrow> bytes" where
  "bytes_of s = map byte_of_char s"

definition string_of :: "bytes \<Rightarrow> string" where
  "string_of b = map char_of_byte b"

lemma string_of_bytes_of [simp]: "string_of (bytes_of s) = s"
  by (simp add: string_of_def bytes_of_def o_def)

lemma bytes_of_string_of [simp]: "bytes_of (string_of b) = b"
  by (simp add: string_of_def bytes_of_def o_def)

lemma length_bytes_of [simp]: "length (bytes_of s) = length s"
  by (simp add: bytes_of_def)

lemma length_string_of [simp]: "length (string_of b) = length b"
  by (simp add: string_of_def)

lemma CR_notin_bytes_of: "0x0D \<in> set (bytes_of s) \<longleftrightarrow> CHR 0x0D \<in> set s"
proof -
  have "byte_of_char (CHR 0x0D) = 0x0D" by (simp add: byte_of_char_def)
  then have "0x0D \<in> set (bytes_of s) \<longleftrightarrow> byte_of_char (CHR 0x0D) \<in> byte_of_char ` set s"
    by (simp add: bytes_of_def)
  also have "\<dots> \<longleftrightarrow> CHR 0x0D \<in> set s"
    by (rule inj_image_mem_iff, rule inj_on_inverseI [where g = char_of_byte]) simp
  finally show ?thesis .
qed

lemma bytes_of_inject [simp]: "bytes_of s = bytes_of t \<longleftrightarrow> s = t"
  by (metis string_of_bytes_of)

section \<open>The package strings\<close>

text \<open>Positions of the first and of the last occurrence of a byte.\<close>

fun IndexByte :: "string \<Rightarrow> char \<Rightarrow> nat option" where
  "IndexByte [] c = None"
| "IndexByte (x # xs) c = (if x = c then Some 0 else map_option Suc (IndexByte xs c))"

fun LastIndexByte :: "string \<Rightarrow> char \<Rightarrow> nat option" where
  "LastIndexByte [] c = None"
| "LastIndexByte (x # xs) c =
     (case LastIndexByte xs c of Some i \<Rightarrow> Some (Suc i)
      | None \<Rightarrow> if x = c then Some 0 else None)"

lemma IndexByte_None [simp]: "IndexByte s c = None \<longleftrightarrow> c \<notin> set s"
  by (induction s) auto

lemma IndexByte_absent [simp]: "c \<notin> set s \<Longrightarrow> IndexByte s c = None"
  by simp

lemma IndexByte_Some: "IndexByte s c = Some i \<Longrightarrow> i < length s \<and> s ! i = c \<and> c \<notin> set (take i s)"
proof (induction s arbitrary: i)
  case (Cons x xs)
  then show ?case by (cases i) (auto split: if_splits)
qed simp

lemma LastIndexByte_None [simp]: "LastIndexByte s c = None \<longleftrightarrow> c \<notin> set s"
  by (induction s) (auto split: option.splits)

lemma LastIndexByte_append:
  "c \<notin> set q \<Longrightarrow> LastIndexByte (p @ c # q) c = Some (length p)"
  by (induction p) (simp_all split: option.splits)

lemma IndexByte_append: "c \<notin> set p \<Longrightarrow> IndexByte (p @ c # q) c = Some (length p)"
  by (induction p) auto

definition HasPrefix :: "string \<Rightarrow> string \<Rightarrow> bool" where
  "HasPrefix s p \<longleftrightarrow> take (length p) s = p"

definition TrimPrefix :: "string \<Rightarrow> string \<Rightarrow> string" where
  "TrimPrefix s p = (if HasPrefix s p then drop (length p) s else s)"

definition HasSuffix :: "string \<Rightarrow> string \<Rightarrow> bool" where
  "HasSuffix s p \<longleftrightarrow> length p \<le> length s \<and> drop (length s - length p) s = p"

definition TrimSuffix :: "string \<Rightarrow> string \<Rightarrow> string" where
  "TrimSuffix s p = (if HasSuffix s p then take (length s - length p) s else s)"

lemma HasPrefix_append: "HasPrefix s p \<longleftrightarrow> (\<exists>r. s = p @ r)"
  by (metis HasPrefix_def append_eq_conv_conj)

lemma HasSuffix_append: "HasSuffix s p \<longleftrightarrow> (\<exists>r. s = r @ p)"
proof
  assume "HasSuffix s p"
  then show "\<exists>r. s = r @ p"
    by (metis HasSuffix_def append_take_drop_id)
qed (auto simp: HasSuffix_def)

lemma HasSuffix_singleton: "HasSuffix s [c] \<longleftrightarrow> s \<noteq> [] \<and> last s = c"
  by (metis HasSuffix_append append_butlast_last_id append_is_Nil_conv last_snoc list.discI)

lemma TrimSuffix_singleton: "TrimSuffix s [c] = (if s \<noteq> [] \<and> last s = c then butlast s else s)"
  by (simp add: TrimSuffix_def HasSuffix_singleton butlast_conv_take)

lemma TrimPrefix_singleton: "TrimPrefix s [c] = (if s \<noteq> [] \<and> hd s = c then tl s else s)"
  by (cases s) (auto simp: TrimPrefix_def HasPrefix_def)

text \<open>\<open>strings.Split\<close> with a separator of one byte.\<close>

fun Split :: "string \<Rightarrow> char \<Rightarrow> string list" where
  "Split [] c = [[]]"
| "Split (x # xs) c =
     (if x = c then [] # Split xs c
      else (case Split xs c of [] \<Rightarrow> [[x]] | h # t \<Rightarrow> (x # h) # t))"

lemma Split_not_Nil [simp]: "Split s c \<noteq> []"
  by (induction s) (auto split: list.splits)

lemma Split_no_sep [simp]: "c \<notin> set s \<Longrightarrow> Split s c = [s]"
  by (induction s) auto

lemma Split_append_sep: "Split (p @ c # q) c = Split p c @ Split q c"
proof (induction p)
  case (Cons x p)
  then show ?case by (cases "Split p c") auto
qed simp

lemma Split_append: "c \<notin> set p \<Longrightarrow> Split (p @ c # q) c = p # Split q c"
  by (simp add: Split_append_sep)

lemma Split_concat_set: "set s \<subseteq> insert c (\<Union>l \<in> set (Split s c). set l)"
proof (induction s)
  case (Cons x xs)
  then show ?case
    by (cases "Split xs c") auto
qed simp

lemma Split_last_sep: "s \<noteq> [] \<Longrightarrow> last s = c \<Longrightarrow> [] \<in> set (Split s c)"
  using Split_append_sep [of "butlast s" c "[]"] by (metis Split.simps(1) append_butlast_last_id
      in_set_conv_decomp)

lemma Split_parts_no_sep: "l \<in> set (Split s c) \<Longrightarrow> c \<notin> set l"
  by (induction s arbitrary: l) (auto split: if_splits list.splits)

lemma Split_parts_subset: "l \<in> set (Split s c) \<Longrightarrow> set l \<subseteq> set s"
proof (induction s arbitrary: l)
  case (Cons x xs)
  obtain h t where ht: "Split xs c = h # t"
    using Split_not_Nil by (meson neq_Nil_conv)
  with Cons show ?case
    by (fastforce split: if_splits)
qed simp

text \<open>
  \<open>strings.TrimSpace\<close> removes leading and trailing white space as Unicode defines it
  (\<open>unicode.IsSpace\<close>). The UTF-8 encodings of those runes are listed; UTF-8 encodings are
  self-synchronising, so a rune of white space starts (ends) the string exactly if its encoding
  is a prefix (suffix) of the bytes.
\<close>

definition ascii_spaces :: "char list" where
  "ascii_spaces = [CHR 0x09, CHR 0x0A, CHR 0x0B, CHR 0x0C, CHR 0x0D, CHR 0x20]"

definition space_seqs :: "string list" where
  "space_seqs = map (\<lambda>c. [c]) ascii_spaces @
     [[CHR 0xC2, CHR 0x85], [CHR 0xC2, CHR 0xA0], [CHR 0xE1, CHR 0x9A, CHR 0x80]] @
     map (\<lambda>c. [CHR 0xE2, CHR 0x80, c])
       [CHR 0x80, CHR 0x81, CHR 0x82, CHR 0x83, CHR 0x84, CHR 0x85, CHR 0x86, CHR 0x87,
        CHR 0x88, CHR 0x89, CHR 0x8A, CHR 0xA8, CHR 0xA9, CHR 0xAF] @
     [[CHR 0xE2, CHR 0x81, CHR 0x9F], [CHR 0xE3, CHR 0x80, CHR 0x80]]"

function strip_seqs :: "string list \<Rightarrow> string \<Rightarrow> string" where
  "strip_seqs ps s =
     (case find (\<lambda>p. p \<noteq> [] \<and> HasPrefix s p) ps of
        None \<Rightarrow> s
      | Some p \<Rightarrow> strip_seqs ps (drop (length p) s))"
  by pat_completeness auto
termination
proof (relation "measure (\<lambda>(ps, s). length s)", simp)
  fix ps s p
  assume "find (\<lambda>p. p \<noteq> [] \<and> HasPrefix s p) ps = Some p"
  then have "p \<noteq> []" and "HasPrefix s p"
    by (auto simp: find_Some_iff)
  then have "length p \<le> length s" and "0 < length p"
    by (auto simp: HasPrefix_append)
  then have "length s - length p < length s"
    by linarith
  then show "((ps, drop (length p) s), ps, s) \<in> measure (\<lambda>(ps, s). length s)"
    by simp
qed

declare strip_seqs.simps [simp del]

definition TrimSpace :: "string \<Rightarrow> string" where
  "TrimSpace s = rev (strip_seqs (map rev space_seqs) (rev (strip_seqs space_seqs s)))"

lemma strip_seqs_fixed: "(\<And>p. p \<in> set ps \<Longrightarrow> p \<noteq> [] \<Longrightarrow> \<not> HasPrefix s p) \<Longrightarrow> strip_seqs ps s = s"
proof -
  assume "\<And>p. p \<in> set ps \<Longrightarrow> p \<noteq> [] \<Longrightarrow> \<not> HasPrefix s p"
  then have "find (\<lambda>p. p \<noteq> [] \<and> HasPrefix s p) ps = None"
    by (auto simp: find_None_iff)
  then show ?thesis by (simp add: strip_seqs.simps)
qed

lemma strip_seqs_no_prefix:
  "p \<in> set ps \<Longrightarrow> p \<noteq> [] \<Longrightarrow> \<not> HasPrefix (strip_seqs ps s) p"
proof (induction ps s rule: strip_seqs.induct)
  case (1 ps s)
  show ?case
  proof (cases "find (\<lambda>p. p \<noteq> [] \<and> HasPrefix s p) ps")
    case None
    then have "strip_seqs ps s = s" and "\<not> HasPrefix s p"
      using "1.prems" by (simp add: strip_seqs.simps [of ps s], auto simp: find_None_iff)
    then show ?thesis by simp
  next
    case (Some q)
    with "1.IH" [OF Some] "1.prems" show ?thesis
      by (simp add: strip_seqs.simps [of ps s])
  qed
qed

lemma strip_seqs_suffix: "\<exists>r. s = r @ strip_seqs ps s"
proof (induction ps s rule: strip_seqs.induct)
  case (1 ps s)
  show ?case
  proof (cases "find (\<lambda>p. p \<noteq> [] \<and> HasPrefix s p) ps")
    case None
    then show ?thesis by (simp add: strip_seqs.simps [of ps s])
  next
    case (Some q)
    from "1.IH" [OF Some] obtain r where "drop (length q) s = r @ strip_seqs ps (drop (length q) s)"
      by blast
    then have "s = (take (length q) s @ r) @ strip_seqs ps (drop (length q) s)"
      by (metis append_assoc append_take_drop_id)
    moreover have "strip_seqs ps s = strip_seqs ps (drop (length q) s)"
      using Some by (simp add: strip_seqs.simps [of ps s])
    ultimately show ?thesis by metis
  qed
qed

lemma TrimSpace_infix: "\<exists>a b. s = a @ TrimSpace s @ b"
proof -
  define l where "l = strip_seqs space_seqs s"
  obtain a where a: "s = a @ l" using strip_seqs_suffix l_def by blast
  obtain r where "rev l = r @ strip_seqs (map rev space_seqs) (rev l)"
    using strip_seqs_suffix by blast
  then have "l = rev (strip_seqs (map rev space_seqs) (rev l)) @ rev r"
    by (metis rev_append rev_rev_ident)
  then have "l = TrimSpace s @ rev r" by (simp add: TrimSpace_def l_def)
  with a have "s = a @ TrimSpace s @ rev r" by simp
  then show ?thesis by blast
qed

lemma TrimSpace_set: "set (TrimSpace s) \<subseteq> set s"
proof -
  obtain a b where "s = a @ TrimSpace s @ b" using TrimSpace_infix by blast
  then have "set s = set a \<union> set (TrimSpace s) \<union> set b"
    by (metis Un_assoc set_append)
  then show ?thesis by blast
qed

lemma TrimSpace_Nil [simp]: "TrimSpace [] = []"
  by (metis TrimSpace_infix append_is_Nil_conv)

lemma TrimSpace_idem [simp]: "TrimSpace (TrimSpace s) = TrimSpace s"
proof -
  define l where "l = strip_seqs space_seqs s"
  define t where "t = rev (strip_seqs (map rev space_seqs) (rev l))"
  have t: "TrimSpace s = t" by (simp add: TrimSpace_def l_def t_def)
  obtain r where "rev l = r @ rev t"
    unfolding t_def rev_rev_ident using strip_seqs_suffix by blast
  then have l: "l = t @ rev r" by (metis rev_append rev_rev_ident)
  have "strip_seqs space_seqs t = t"
  proof (rule strip_seqs_fixed)
    fix p assume p: "p \<in> set space_seqs" "p \<noteq> []"
    have "\<not> HasPrefix l p" unfolding l_def by (rule strip_seqs_no_prefix [OF p])
    with l show "\<not> HasPrefix t p" by (auto simp: HasPrefix_append)
  qed
  moreover have "strip_seqs (map rev space_seqs) (rev t) = rev t"
  proof (rule strip_seqs_fixed)
    fix p assume p: "p \<in> set (map rev space_seqs)" "p \<noteq> []"
    show "\<not> HasPrefix (rev t) p" unfolding t_def rev_rev_ident by (rule strip_seqs_no_prefix [OF p])
  qed
  ultimately have "TrimSpace t = t" by (simp add: TrimSpace_def)
  with t show ?thesis by simp
qed

text \<open>A string of printable ASCII characters is left alone.\<close>

definition plain_char :: "char \<Rightarrow> bool" where
  "plain_char c \<longleftrightarrow> of_char c > (32::nat) \<and> of_char c < (128::nat)"

lemma space_seqs_not_plain: "p \<in> set space_seqs \<Longrightarrow> p \<noteq> [] \<and> (\<forall>c \<in> set p. \<not> plain_char c)"
  by (auto simp: space_seqs_def ascii_spaces_def plain_char_def)

lemma HasPrefix_not_plain:
  "p \<noteq> [] \<Longrightarrow> (\<forall>c \<in> set p. \<not> plain_char c) \<Longrightarrow> (\<forall>c \<in> set s. plain_char c) \<Longrightarrow> \<not> HasPrefix s p"
  by (cases p) (auto simp: HasPrefix_append)

lemma TrimSpace_plain: "(\<forall>c \<in> set s. plain_char c) \<Longrightarrow> TrimSpace s = s"
proof -
  assume s: "\<forall>c \<in> set s. plain_char c"
  have "strip_seqs space_seqs s = s"
    using s space_seqs_not_plain by (intro strip_seqs_fixed HasPrefix_not_plain) auto
  moreover have "strip_seqs (map rev space_seqs) (rev s) = rev s"
    using s space_seqs_not_plain by (intro strip_seqs_fixed HasPrefix_not_plain) auto
  ultimately show ?thesis by (simp add: TrimSpace_def)
qed

text \<open>
  \<open>strings.ToLower\<close>. ASCII capitals map to small letters; two runes beyond ASCII map to an
  ASCII letter (U+0130 to \<open>i\<close>, U+212A, the Kelvin sign, to \<open>k\<close>); every other rune maps to a
  rune beyond ASCII and is left unchanged here: its callers reject, or take the default branch
  for, every string with a byte beyond ASCII.
\<close>

definition lower_char :: "char \<Rightarrow> char" where
  "lower_char c = (if of_char c \<ge> (65::nat) \<and> of_char c \<le> (90::nat)
     then char_of (of_char c + (32::nat)) else c)"

fun ToLower :: "string \<Rightarrow> string" where
  "ToLower [] = []"
| "ToLower (a # s) =
     (if a = CHR 0xC4 \<and> take 1 s = [CHR 0xB0] then CHR ''i'' # ToLower (drop 1 s)
      else if a = CHR 0xE2 \<and> take 2 s = [CHR 0x84, CHR 0xAA] then CHR ''k'' # ToLower (drop 2 s)
      else lower_char a # ToLower s)"

definition lower_plain :: "char \<Rightarrow> bool" where
  "lower_plain c \<longleftrightarrow> plain_char c \<and> lower_char c = c"

lemma ToLower_lower_plain: "(\<forall>c \<in> set s. lower_plain c) \<Longrightarrow> ToLower s = s"
proof (induction s)
  case (Cons a s)
  then have "a \<noteq> CHR 0xC4" and "a \<noteq> CHR 0xE2" and "lower_char a = a"
    by (auto simp: lower_plain_def plain_char_def)
  with Cons show ?case by simp
qed simp

definition ContainsAny :: "string \<Rightarrow> string \<Rightarrow> bool" where
  "ContainsAny s cs = list_ex (\<lambda>c. c \<in> set cs) s"

definition ReplaceAll1 :: "string \<Rightarrow> char \<Rightarrow> string" where
  \<comment> \<open>\<open>strings.ReplaceAll(s, c, "")\<close>\<close>
  "ReplaceAll1 s c = filter (\<lambda>x. x \<noteq> c) s"

function TrimRight1 :: "string \<Rightarrow> char \<Rightarrow> string" where
  \<comment> \<open>\<open>strings.TrimRight(s, c)\<close>\<close>
  "TrimRight1 s c = (if s \<noteq> [] \<and> last s = c then TrimRight1 (butlast s) c else s)"
  by pat_completeness auto
termination
  by (relation "measure (\<lambda>(s, c). length s)") auto

declare TrimRight1.simps [simp del]

section \<open>UTF-8\<close>

text \<open>\<open>utf8.Valid\<close>: no overlong encoding, no surrogate, nothing above U+10FFFF.\<close>

definition cont :: "byte \<Rightarrow> bool" where
  "cont b \<longleftrightarrow> 0x80 \<le> b \<and> b \<le> 0xBF"

fun utf8_Valid :: "bytes \<Rightarrow> bool" where
  "utf8_Valid [] = True"
| "utf8_Valid (a # s) =
     (if a < 0x80 then utf8_Valid s
      else if 0xC2 \<le> a \<and> a \<le> 0xDF then
        (case s of b # s' \<Rightarrow> cont b \<and> utf8_Valid s' | _ \<Rightarrow> False)
      else if 0xE0 \<le> a \<and> a \<le> 0xEF then
        (case s of b # c # s' \<Rightarrow>
           cont b \<and> (a = 0xE0 \<longrightarrow> 0xA0 \<le> b) \<and> (a = 0xED \<longrightarrow> b \<le> 0x9F) \<and> cont c \<and> utf8_Valid s'
         | _ \<Rightarrow> False)
      else if 0xF0 \<le> a \<and> a \<le> 0xF4 then
        (case s of b # c # d # s' \<Rightarrow>
           cont b \<and> (a = 0xF0 \<longrightarrow> 0x90 \<le> b) \<and> (a = 0xF4 \<longrightarrow> b \<le> 0x8F) \<and> cont c \<and> cont d \<and> utf8_Valid s'
         | _ \<Rightarrow> False)
      else False)"

lemma utf8_Valid_ascii: "(\<forall>b \<in> set s. b < 0x80) \<Longrightarrow> utf8_Valid s"
  by (induction s) auto

section \<open>Readers\<close>

text \<open>
  An \<open>io.Reader\<close> is the bytes still to come and the error it reports after them. A
  \<open>bytes.Reader\<close> ends with \<open>EOF\<close>; a connection may end with a time-out.
\<close>

record reader =
  rdata :: bytes
  rend :: error

definition bytes_NewReader :: "bytes \<Rightarrow> reader" where
  "bytes_NewReader b = \<lparr>rdata = b, rend = [EOF]\<rparr>"

lemma bytes_NewReader_simps [simp]:
  "rdata (bytes_NewReader b) = b" "rend (bytes_NewReader b) = [EOF]"
  by (simp_all add: bytes_NewReader_def)

text \<open>\<open>io.ReadFull\<close> into a buffer of \<open>n\<close> bytes.\<close>

definition ReadFull :: "reader \<Rightarrow> nat \<Rightarrow> bytes result \<times> reader" where
  "ReadFull r n =
     (if n \<le> length (rdata r) then (Inr (take n (rdata r)), r\<lparr>rdata := drop n (rdata r)\<rparr>)
      else (Inl (if rdata r \<noteq> [] \<and> rend r = [EOF] then [ErrUnexpectedEOF] else rend r),
            r\<lparr>rdata := []\<rparr>))"

lemma ReadFull_Inr:
  "ReadFull r n = (Inr b, r') \<longleftrightarrow>
     length b = n \<and> rdata r = b @ rdata r' \<and> r' = r\<lparr>rdata := rdata r'\<rparr>"
  by (cases r; cases r') (auto simp: ReadFull_def split: if_splits)

lemma ReadFull_append:
  "length b = n \<Longrightarrow> ReadFull (r\<lparr>rdata := b @ s\<rparr>) n = (Inr b, r\<lparr>rdata := s\<rparr>)"
  by (simp add: ReadFull_def)

section \<open>Maps\<close>

text \<open>
  A Go map is an association list with distinct keys. The order of the list is not observable:
  where the order of a \<^theory_text>\<open>range\<close> loop matters, the loop takes it as an argument.
\<close>

type_synonym ('k, 'v) gomap = "('k \<times> 'v) list"

definition gm_wf :: "('k, 'v) gomap \<Rightarrow> bool" where
  "gm_wf m \<longleftrightarrow> distinct (map fst m)"

abbreviation gm_get :: "('k, 'v) gomap \<Rightarrow> 'k \<Rightarrow> 'v option" where
  "gm_get m k \<equiv> map_of m k"

abbreviation gm_set :: "('k, 'v) gomap \<Rightarrow> 'k \<Rightarrow> 'v \<Rightarrow> ('k, 'v) gomap" where
  "gm_set m k v \<equiv> AList.update k v m"

abbreviation gm_del :: "('k, 'v) gomap \<Rightarrow> 'k \<Rightarrow> ('k, 'v) gomap" where
  "gm_del m k \<equiv> AList.delete k m"

abbreviation gm_len :: "('k, 'v) gomap \<Rightarrow> nat" where
  "gm_len m \<equiv> length m"

definition gm_keep :: "('k \<Rightarrow> 'v \<Rightarrow> bool) \<Rightarrow> ('k, 'v) gomap \<Rightarrow> ('k, 'v) gomap" where
  \<comment> \<open>the entries a loop that deletes the others leaves\<close>
  "gm_keep P m = filter (\<lambda>(k, v). P k v) m"

lemma gm_wf_Nil [simp]: "gm_wf []"
  by (simp add: gm_wf_def)

lemma gm_wf_set [simp]: "gm_wf m \<Longrightarrow> gm_wf (gm_set m k v)"
  by (simp add: gm_wf_def distinct_update)

lemma gm_wf_del [simp]: "gm_wf m \<Longrightarrow> gm_wf (gm_del m k)"
  by (simp add: gm_wf_def distinct_delete)

lemma gm_wf_keep [simp]: "gm_wf m \<Longrightarrow> gm_wf (gm_keep P m)"
  by (simp add: gm_wf_def gm_keep_def distinct_map_filter)

lemma gm_get_set [simp]: "gm_get (gm_set m k v) = (gm_get m)(k \<mapsto> v)"
  by (simp add: update_conv' fun_eq_iff)

lemma gm_get_del [simp]: "gm_get (gm_del m k) = (gm_get m)(k := None)"
  by (simp add: delete_conv' fun_eq_iff)

lemma gm_get_keep:
  "gm_wf m \<Longrightarrow> gm_get (gm_keep P m) k =
     (case gm_get m k of None \<Rightarrow> None | Some v \<Rightarrow> if P k v then Some v else None)"
proof (induction m)
  case (Cons x m)
  obtain a b where [simp]: "x = (a, b)" by (cases x)
  from Cons.prems have "a \<notin> fst ` set m" and wf: "gm_wf m" by (auto simp: gm_wf_def)
  then have "gm_get m a = None" and "gm_get (gm_keep P m) a = None"
    by (auto simp: map_of_eq_None_iff gm_keep_def)
  with Cons.IH [OF wf] show ?case by (auto simp: gm_keep_def split: option.splits)
qed (simp add: gm_keep_def)

lemma gm_len_card: "gm_wf m \<Longrightarrow> gm_len m = card (dom (gm_get m))"
  by (metis gm_wf_def distinct_card dom_map_of_conv_image_fst length_map list.set_map)

lemma gm_len_set: "gm_len (gm_set m k v) = (if gm_get m k = None then Suc (gm_len m) else gm_len m)"
  by (induction m) auto

lemma gm_len_del: "gm_len (gm_del m k) \<le> gm_len m"
  by (simp add: AList.delete_eq)

lemma gm_len_del_Some: "gm_get m k = Some v \<Longrightarrow> gm_len (gm_del m k) < gm_len m"
proof (induction m)
  case (Cons x m)
  then show ?case
    using gm_len_del [of k m] by (cases x) (auto split: if_splits)
qed simp

lemma gm_len_keep: "gm_len (gm_keep P m) \<le> gm_len m"
  by (simp add: gm_keep_def)

lemma gm_get_in: "gm_get m k = Some v \<Longrightarrow> (k, v) \<in> set m"
  by (rule map_of_SomeD)

lemma gm_in_get: "gm_wf m \<Longrightarrow> (k, v) \<in> set m \<longleftrightarrow> gm_get m k = Some v"
  by (simp add: gm_wf_def)

end
