(* ===== verification/GoNet.thy ===== *)
theory GoNet
  imports Prelude
begin

text \<open>
  The parts of the packages \<open>strconv\<close>, \<open>encoding/hex\<close>, \<open>net\<close> and \<open>net/netip\<close> the gateway uses:
  decimal numbers, IP addresses and prefixes, their textual forms, and the splitting of
  \<open>host:port\<close>.
\<close>

section \<open>Numbers\<close>

definition is_digit :: "char \<Rightarrow> bool" where
  "is_digit c \<longleftrightarrow> 48 \<le> (of_char c :: nat) \<and> (of_char c :: nat) \<le> 57"

definition digit_val :: "char \<Rightarrow> nat" where
  "digit_val c = of_char c - 48"

definition decimal :: "string \<Rightarrow> nat" where
  "decimal s = foldl (\<lambda>n c. 10 * n + digit_val c) 0 s"

definition all_digits :: "string \<Rightarrow> bool" where
  "all_digits s \<longleftrightarrow> s \<noteq> [] \<and> list_all is_digit s"

text \<open>\<open>strconv.Atoi\<close> on a 64-bit machine; \<open>None\<close> is a syntax or range error.\<close>

definition Atoi :: "string \<Rightarrow> int option" where
  "Atoi s =
     (let neg = (take 1 s = ''-''); d = (if neg \<or> take 1 s = ''+'' then drop 1 s else s)
      in if \<not> all_digits d then None
         else let n = (if neg then - int (decimal d) else int (decimal d))
              in if - (2 ^ 63) \<le> n \<and> n < 2 ^ 63 then Some n else None)"

text \<open>\<open>strconv.ParseUint(s, 10, 16)\<close>.\<close>

definition ParseUint16 :: "string \<Rightarrow> nat option" where
  "ParseUint16 s = (if all_digits s \<and> decimal s < 2 ^ 16 then Some (decimal s) else None)"

definition digit_char :: "nat \<Rightarrow> char" where
  "digit_char d = char_of (48 + d)"

fun Itoa :: "nat \<Rightarrow> string" where
  \<comment> \<open>\<open>strconv.Itoa\<close> of a number that is not negative\<close>
  "Itoa n = (if n < 10 then [digit_char n] else Itoa (n div 10) @ [digit_char (n mod 10)])"

declare Itoa.simps [simp del]

lemma digit_char_digit [simp]: "d < 10 \<Longrightarrow> is_digit (digit_char d)" "d < 10 \<Longrightarrow> digit_val (digit_char d) = d"
  by (simp_all add: is_digit_def digit_char_def digit_val_def)

lemma decimal_snoc [simp]: "decimal (s @ [c]) = 10 * decimal s + digit_val c"
  by (simp add: decimal_def)

lemma Itoa_digits: "all_digits (Itoa n)"
proof (induction n rule: Itoa.induct)
  case (1 n)
  then show ?case
    by (cases "n < 10") (auto simp: Itoa.simps [of n] all_digits_def)
qed

lemma decimal_Itoa [simp]: "decimal (Itoa n) = n"
proof (induction n rule: Itoa.induct)
  case (1 n)
  then show ?case
    by (cases "n < 10") (simp_all add: Itoa.simps [of n], simp add: decimal_def)
qed

lemma all_digits_hd: "all_digits s \<Longrightarrow> s \<noteq> [] \<and> is_digit (hd s)"
  by (cases s) (auto simp: all_digits_def)

lemma Atoi_digits:
  assumes "all_digits s" and "decimal s < 2 ^ 63" shows "Atoi s = Some (int (decimal s))"
proof -
  from assms(1) obtain c t where s: "s = c # t" and c: "is_digit c"
    by (cases s) (auto simp: all_digits_def)
  from c have "c \<noteq> CHR ''-''" and "c \<noteq> CHR ''+''" by (auto simp: is_digit_def)
  with assms s show ?thesis by (simp add: Atoi_def)
qed

lemma Atoi_Itoa: "n < 2 ^ 63 \<Longrightarrow> Atoi (Itoa n) = Some (int n)"
  by (simp add: Atoi_digits Itoa_digits)

section \<open>Hexadecimal\<close>

definition hex_digit :: "nat \<Rightarrow> char" where
  "hex_digit d = (if d < 10 then char_of (48 + d) else char_of (87 + d))"

definition hex_val :: "char \<Rightarrow> nat option" where
  "hex_val c = (let n = (of_char c :: nat) in
     if 48 \<le> n \<and> n \<le> 57 then Some (n - 48)
     else if 97 \<le> n \<and> n \<le> 102 then Some (n - 87)
     else if 65 \<le> n \<and> n \<le> 70 then Some (n - 55) else None)"

lemma hex_val_digit [simp]: "d < 16 \<Longrightarrow> hex_val (hex_digit d) = Some d"
  by (auto simp: hex_val_def hex_digit_def Let_def)

text \<open>\<open>hex.EncodeToString\<close> and \<open>hex.DecodeString\<close>.\<close>

fun hex_Encode :: "bytes \<Rightarrow> string" where
  "hex_Encode [] = []"
| "hex_Encode (b # bs) = hex_digit (unat b div 16) # hex_digit (unat b mod 16) # hex_Encode bs"

fun hex_DecodeString :: "string \<Rightarrow> bytes result" where
  "hex_DecodeString [] = Inr []"
| "hex_DecodeString [c] = Inl [Msg ''encoding/hex: odd length or invalid byte'']"
| "hex_DecodeString (c # d # s) =
     (case (hex_val c, hex_val d) of
        (Some h, Some l) \<Rightarrow>
          (case hex_DecodeString s of Inl e \<Rightarrow> Inl e | Inr bs \<Rightarrow> Inr (of_nat (16 * h + l) # bs))
      | _ \<Rightarrow> Inl [Msg ''encoding/hex: invalid byte''])"

lemma hex_Decode_Encode [simp]: "hex_DecodeString (hex_Encode bs) = Inr bs"
proof (induction bs)
  case (Cons b bs)
  have "unat b div 16 < 16" using unat_byte_less [of b] by linarith
  with Cons show ?case by simp
qed simp

lemma length_hex_Encode [simp]: "length (hex_Encode bs) = 2 * length bs"
  by (induction bs) auto

section \<open>IP addresses\<close>

text \<open>
  \<open>netip.Addr\<close>: the zero value (not a valid address), an IPv4 address, or an IPv6 address with
  its zone.
\<close>

datatype addr = AddrZero | Addr4 "32 word" | Addr6 "128 word" string

definition IsValid :: "addr \<Rightarrow> bool" where
  "IsValid a \<longleftrightarrow> a \<noteq> AddrZero"

fun Is4 :: "addr \<Rightarrow> bool" where
  "Is4 (Addr4 _) = True"
| "Is4 _ = False"

fun Is6 :: "addr \<Rightarrow> bool" where
  "Is6 (Addr6 _ _) = True"
| "Is6 _ = False"

fun BitLen :: "addr \<Rightarrow> nat" where
  "BitLen AddrZero = 0"
| "BitLen (Addr4 _) = 32"
| "BitLen (Addr6 _ _) = 128"

fun hasZone :: "addr \<Rightarrow> bool" where
  "hasZone (Addr6 _ z) = (z \<noteq> [])"
| "hasZone _ = False"

fun withoutZone :: "addr \<Rightarrow> addr" where
  "withoutZone (Addr6 a z) = Addr6 a []"
| "withoutZone a = a"

fun Is4In6 :: "addr \<Rightarrow> bool" where
  "Is4In6 (Addr6 a _) = (drop_bit 32 a = 0xffff)"
| "Is4In6 _ = False"

fun Unmap :: "addr \<Rightarrow> addr" where
  "Unmap (Addr6 a z) = (if drop_bit 32 a = 0xffff then Addr4 (ucast a) else Addr6 a z)"
| "Unmap a = a"

lemma Unmap_idem [simp]: "Unmap (Unmap a) = Unmap a"
  by (cases a) auto

lemma Unmap_valid [simp]: "IsValid (Unmap a) = IsValid a"
  by (cases a) (auto simp: IsValid_def)

lemma Unmap_not_4In6 [simp]: "\<not> Is4In6 (Unmap a)"
  by (cases a) auto

definition be_word :: "bytes \<Rightarrow> 'a::len word" where
  "be_word bs = foldl (\<lambda>w b. push_bit 8 w OR ucast b) 0 bs"

definition AddrFromSlice :: "bytes \<Rightarrow> addr option" where
  "AddrFromSlice bs =
     (if length bs = 4 then Some (Addr4 (be_word bs))
      else if length bs = 16 then Some (Addr6 (be_word bs) []) else None)"

section \<open>Prefixes\<close>

text \<open>\<open>netip.Prefix\<close>; \<open>pbits = None\<close> is the invalid prefix.\<close>

record ip_prefix =
  pip :: addr
  pbits :: "nat option"

definition PrefixFrom :: "addr \<Rightarrow> nat \<Rightarrow> ip_prefix" where
  "PrefixFrom a bits =
     \<lparr>pip = withoutZone a, pbits = (if a \<noteq> AddrZero \<and> bits \<le> BitLen a then Some bits else None)\<rparr>"

fun mask_addr :: "addr \<Rightarrow> nat \<Rightarrow> addr" where
  "mask_addr (Addr4 a) n = Addr4 (a AND NOT (mask (32 - n)))"
| "mask_addr (Addr6 a z) n = Addr6 (a AND NOT (mask (128 - n))) []"
| "mask_addr AddrZero n = AddrZero"

definition Masked :: "ip_prefix \<Rightarrow> ip_prefix" where
  "Masked p = (case pbits p of None \<Rightarrow> \<lparr>pip = AddrZero, pbits = None\<rparr>
     | Some n \<Rightarrow> PrefixFrom (mask_addr (pip p) n) n)"

definition Contains :: "ip_prefix \<Rightarrow> addr \<Rightarrow> bool" where
  "Contains p a =
     (case pbits p of None \<Rightarrow> False
      | Some n \<Rightarrow>
          (case (pip p, a) of
             (Addr4 x, Addr4 y) \<Rightarrow> drop_bit (32 - n) (y XOR x) = 0
           | (Addr6 x _, Addr6 y z) \<Rightarrow> z = [] \<and> (y XOR x) AND NOT (mask (128 - n)) = 0
           | _ \<Rightarrow> False))"

lemma Contains_family: "Contains p a \<Longrightarrow> BitLen (pip p) = BitLen a"
  by (auto simp: Contains_def split: option.splits addr.splits)

lemma xor_eq_0 [simp]: "x XOR y = 0 \<longleftrightarrow> x = (y :: 'a::len word)"
  by (metis bit.xor_left_self bit.xor_self xor.right_neutral)

lemma Contains_self:
  "IsValid a \<Longrightarrow> \<not> hasZone a \<Longrightarrow> Contains (PrefixFrom a (BitLen a)) b \<longleftrightarrow> b = a"
  by (cases a; cases b) (auto simp: Contains_def PrefixFrom_def IsValid_def)

section \<open>Textual addresses\<close>

text \<open>
  \<open>parseIPv4Fields\<close>: the loop over the characters, with the value and the number of digits of the
  current octet. A dot is refused at the start of the text, after another dot (no digit yet) and
  at the end.
\<close>

fun parseIPv4Fields :: "string \<Rightarrow> nat \<Rightarrow> nat \<Rightarrow> nat list \<Rightarrow> nat list option" where
  "parseIPv4Fields [] v dl fs = (if length fs < 3 then None else Some (fs @ [v]))"
| "parseIPv4Fields (c # s) v dl fs =
     (if is_digit c then
        (if dl = 1 \<and> v = 0 then None
         else if v * 10 + digit_val c > 255 then None
         else parseIPv4Fields s (v * 10 + digit_val c) (Suc dl) fs)
      else if c = CHR ''.'' then
        (if dl = 0 \<or> s = [] then None
         else if length fs = 3 then None
         else parseIPv4Fields s 0 0 (fs @ [v]))
      else None)"

definition nat_bytes :: "nat list \<Rightarrow> bytes" where
  "nat_bytes ns = map of_nat ns"

definition parseIPv4 :: "string \<Rightarrow> addr option" where
  "parseIPv4 s = map_option (\<lambda>f. Addr4 (be_word (nat_bytes f))) (parseIPv4Fields s 0 0 [])"

fun hex_run :: "string \<Rightarrow> nat \<Rightarrow> nat \<Rightarrow> (nat \<times> nat \<times> string) option" where
  "hex_run [] off acc = Some (off, acc, [])"
| "hex_run (c # s) off acc =
     (case hex_val c of None \<Rightarrow> Some (off, acc, c # s)
      | Some d \<Rightarrow> if off > 3 then None else hex_run s (Suc off) (acc * 16 + d))"

text \<open>
  The loop of \<open>parseIPv6\<close>: the text that is left, the bytes read so far and the position of the
  ellipsis, if one has been read.
\<close>

function parseIPv6_loop :: "string \<Rightarrow> nat list \<Rightarrow> nat option \<Rightarrow> (string \<times> nat list \<times> nat option) option" where
  "parseIPv6_loop s ip ell =
     (if length ip < 16 then
        (case hex_run s 0 0 of
           None \<Rightarrow> None
         | Some (off, acc, r) \<Rightarrow>
             if off = 0 then None
             else if take 1 r = ''.'' then
               (if ell = None \<and> length ip \<noteq> 12 then None
                else if length ip + 4 > 16 then None
                else (case parseIPv4Fields s 0 0 [] of None \<Rightarrow> None | Some f \<Rightarrow> Some ([], ip @ f, ell)))
             else
               (case r of
                  [] \<Rightarrow> Some ([], ip @ [acc div 256, acc mod 256], ell)
                | c # r1 \<Rightarrow>
                    if c \<noteq> CHR '':'' \<or> r1 = [] then None
                    else if take 1 r1 = '':'' then
                      (if ell \<noteq> None then None
                       else if drop 1 r1 = [] then
                         Some ([], ip @ [acc div 256, acc mod 256], Some (length ip + 2))
                       else parseIPv6_loop (drop 1 r1) (ip @ [acc div 256, acc mod 256]) (Some (length ip + 2)))
                    else parseIPv6_loop r1 (ip @ [acc div 256, acc mod 256]) ell))
      else Some (s, ip, ell))"
  by pat_completeness auto
termination
  by (relation "measure (\<lambda>(s, ip, ell). 16 - length ip)") auto

declare parseIPv6_loop.simps [simp del]

definition expand_ellipsis :: "nat list \<Rightarrow> nat \<Rightarrow> nat list" where
  "expand_ellipsis ip e = take e ip @ replicate (16 - length ip) 0 @ drop e ip"

definition parseIPv6_finish :: "string \<Rightarrow> (string \<times> nat list \<times> nat option) option \<Rightarrow> addr option" where
  \<comment> \<open>the checks and the expansion of the ellipsis after the loop\<close>
  "parseIPv6_finish z res =
     (case res of
        None \<Rightarrow> None
      | Some (r, ip, ell) \<Rightarrow>
          if r \<noteq> [] then None
          else if length ip < 16 then
            (case ell of None \<Rightarrow> None
             | Some e \<Rightarrow> Some (Addr6 (be_word (nat_bytes (expand_ellipsis ip e))) z))
          else if ell \<noteq> None then None
          else Some (Addr6 (be_word (nat_bytes ip)) z))"

definition parseIPv6_body :: "string \<Rightarrow> string \<Rightarrow> addr option" where
  "parseIPv6_body s z =
     (if take 2 s = ''::'' then
        (if drop 2 s = [] then Some (Addr6 0 z)
         else parseIPv6_finish z (parseIPv6_loop (drop 2 s) [] (Some 0)))
      else parseIPv6_finish z (parseIPv6_loop s [] None))"

definition parseIPv6 :: "string \<Rightarrow> addr option" where
  "parseIPv6 txt =
     (case IndexByte txt (CHR ''%'') of
        None \<Rightarrow> parseIPv6_body txt []
      | Some i \<Rightarrow> if drop (Suc i) txt = [] then None
                  else parseIPv6_body (take i txt) (drop (Suc i) txt))"

fun addr_family :: "string \<Rightarrow> char option" where
  \<comment> \<open>the first of the characters that decide how \<open>ParseAddr\<close> goes on\<close>
  "addr_family [] = None"
| "addr_family (c # s) =
     (if c = CHR ''.'' \<or> c = CHR '':'' \<or> c = CHR ''%'' then Some c else addr_family s)"

definition ParseAddr :: "string \<Rightarrow> addr result" where
  "ParseAddr s =
     (case (if addr_family s = Some (CHR ''.'') then parseIPv4 s
            else if addr_family s = Some (CHR '':'') then parseIPv6 s else None)
      of None \<Rightarrow> Inl [Msg ''ParseAddr: unable to parse IP''] | Some a \<Rightarrow> Inr a)"

text \<open>\<open>net.ParseIP\<close>: an address without a zone; \<open>None\<close> is a nil \<open>net.IP\<close>.\<close>

definition ParseIP :: "string \<Rightarrow> addr option" where
  "ParseIP s = (case ParseAddr s of Inl _ \<Rightarrow> None | Inr a \<Rightarrow> if hasZone a then None else Some a)"

definition ParsePrefix :: "string \<Rightarrow> ip_prefix result" where
  "ParsePrefix s =
     (case LastIndexByte s (CHR ''/'') of
        None \<Rightarrow> Inl [Msg ''netip.ParsePrefix: no /'']
      | Some i \<Rightarrow>
          (case ParseAddr (take i s) of
             Inl e \<Rightarrow> Inl [Msg ''netip.ParsePrefix: address'']
           | Inr a \<Rightarrow>
               if hasZone a then Inl [Msg ''netip.ParsePrefix: IPv6 zones cannot be present in a prefix'']
               else let bits = drop (Suc i) s in
                 if 1 < length bits \<and> \<not> (CHR ''1'' \<le> hd bits \<and> hd bits \<le> CHR ''9'')
                 then Inl [Msg ''netip.ParsePrefix: bad bits after slash'']
                 else (case Atoi bits of
                         None \<Rightarrow> Inl [Msg ''netip.ParsePrefix: bad bits after slash'']
                       | Some n \<Rightarrow>
                           if n < 0 \<or> n > int (BitLen a)
                           then Inl [Msg ''netip.ParsePrefix: prefix length out of range'']
                           else Inr (PrefixFrom a (nat n)))))"

section \<open>host:port\<close>

definition SplitHostPort :: "string \<Rightarrow> (string \<times> string) result" where
  "SplitHostPort hp =
     (case LastIndexByte hp (CHR '':'') of
        None \<Rightarrow> Inl [Msg ''missing port in address'']
      | Some i \<Rightarrow>
          if take 1 hp = ''['' then
            (case IndexByte hp (CHR '']'') of
               None \<Rightarrow> Inl [Msg ''missing ] in address'']
             | Some e \<Rightarrow>
                 if Suc e = length hp then Inl [Msg ''missing port in address'']
                 else if Suc e \<noteq> i then
                   (if take 1 (drop (Suc e) hp) = '':'' then Inl [Msg ''too many colons in address'']
                    else Inl [Msg ''missing port in address''])
                 else if CHR ''['' \<in> set (drop 1 hp) then Inl [Msg ''unexpected [ in address'']
                 else if CHR '']'' \<in> set (drop (Suc e) hp) then Inl [Msg ''unexpected ] in address'']
                 else Inr (take (e - 1) (drop 1 hp), drop (Suc i) hp))
          else if CHR '':'' \<in> set (take i hp) then Inl [Msg ''too many colons in address'']
          else if CHR ''['' \<in> set hp then Inl [Msg ''unexpected [ in address'']
          else if CHR '']'' \<in> set hp then Inl [Msg ''unexpected ] in address'']
          else Inr (take i hp, drop (Suc i) hp))"

definition JoinHostPort :: "string \<Rightarrow> string \<Rightarrow> string" where
  "JoinHostPort host port =
     (if CHR '':'' \<in> set host then ''['' @ host @ '']:'' @ port else host @ '':'' @ port)"

definition host_port_free :: "string \<Rightarrow> bool" where
  "host_port_free s \<longleftrightarrow> CHR '':'' \<notin> set s \<and> CHR ''['' \<notin> set s \<and> CHR '']'' \<notin> set s"

lemma SplitHostPort_Join:
  assumes "host_port_free host" and "host_port_free port"
  shows "SplitHostPort (JoinHostPort host port) = Inr (host, port)"
proof -
  have "LastIndexByte (host @ CHR '':'' # port) (CHR '':'') = Some (length host)"
    using assms by (intro LastIndexByte_append) (simp add: host_port_free_def)
  moreover have "take 1 (host @ CHR '':'' # port) \<noteq> ''[''"
    using assms by (cases host) (auto simp: host_port_free_def)
  ultimately show ?thesis
    using assms by (simp add: SplitHostPort_def JoinHostPort_def host_port_free_def)
qed

lemma all_digits_host_port_free: "all_digits s \<Longrightarrow> host_port_free s"
  by (auto simp: all_digits_def host_port_free_def list_all_iff is_digit_def)

end
