(* ===== verification/Clientpolicy.thy ===== *)
theory Clientpolicy
  imports GoNet
begin

text \<open>
  The source-address policy of \<open>internal/clientpolicy/policy.go\<close>: parsing of the configured
  addresses and prefixes, and the decision whether an address may connect. The lemmas on prefixes
  (masking does not change what a prefix contains) are shared with the PROXY protocol.
\<close>

section \<open>Policy\<close>

record Policy =
  allow :: "ip_prefix list"
  deny :: "ip_prefix list"

definition parsePrefix :: "string \<Rightarrow> ip_prefix result" where
  "parsePrefix value0 =
     (let value = TrimSpace value0 in
      if value = '''' then Inl [Msg ''must not be empty'']
      else (case ParsePrefix value of
              Inr prefix \<Rightarrow> Inr (Masked prefix)
            | Inl _ \<Rightarrow>
                (case ParseAddr value of
                   Inl e \<Rightarrow> Inl (Msg ''must be an IP address or CIDR prefix'' # e)
                 | Inr addr \<Rightarrow> Inr (PrefixFrom addr (BitLen addr)))))"

fun parsePrefixes_loop :: "string list \<Rightarrow> ip_prefix list \<Rightarrow> ip_prefix list result" where
  "parsePrefixes_loop [] prefixes = Inr prefixes"
| "parsePrefixes_loop (value # values) prefixes =
     (case parsePrefix value of
        Inl e \<Rightarrow> Inl e
      | Inr prefix \<Rightarrow> parsePrefixes_loop values (prefixes @ [prefix]))"

definition parsePrefixes :: "string \<Rightarrow> string list \<Rightarrow> ip_prefix list result" where
  \<comment> \<open>the kind is part of the error text only\<close>
  "parsePrefixes kind values =
     (case parsePrefixes_loop values [] of Inl e \<Rightarrow> Inl (Msg kind # e) | Inr ps \<Rightarrow> Inr ps)"

definition Policy_New :: "string list \<Rightarrow> string list \<Rightarrow> Policy result" where
  "Policy_New allowTexts denyTexts =
     (case parsePrefixes ''allow'' allowTexts of
        Inl e \<Rightarrow> Inl e
      | Inr parsedAllow \<Rightarrow>
          (case parsePrefixes ''deny'' denyTexts of
             Inl e \<Rightarrow> Inl e
           | Inr parsedDeny \<Rightarrow> Inr \<lparr>allow = parsedAllow, deny = parsedDeny\<rparr>))"

fun contains :: "ip_prefix list \<Rightarrow> addr \<Rightarrow> bool" where
  "contains [] addr = False"
| "contains (prefix # prefixes) addr = (if Contains prefix addr then True else contains prefixes addr)"

definition Allows :: "Policy \<Rightarrow> addr \<Rightarrow> bool" where
  "Allows p addr =
     (if \<not> IsValid addr then False
      else if 0 < length (allow p) then contains (allow p) addr
      else \<not> contains (deny p) addr)"

section \<open>Prefixes\<close>

lemma contains_iff: "contains ps a \<longleftrightarrow> (\<exists>p \<in> set ps. Contains p a)"
  by (induction ps) auto

lemma Contains_invalid [simp]: "pbits p = None \<Longrightarrow> \<not> Contains p a"
  by (simp add: Contains_def)

text \<open>The bits a prefix of \<open>n\<close> of \<open>w\<close> bits compares.\<close>

lemma drop_bit_0_iff:
  fixes w :: "'a::len word"
  shows "drop_bit k w = 0 \<longleftrightarrow> (\<forall>i \<ge> k. \<not> bit w i)"
proof
  assume z: "drop_bit k w = 0"
  show "\<forall>i \<ge> k. \<not> bit w i"
  proof (intro allI impI)
    fix i assume "k \<le> i"
    moreover have "\<not> bit (drop_bit k w) (i - k)" using z by simp
    ultimately show "\<not> bit w i" by (simp add: bit_drop_bit_eq)
  qed
next
  assume "\<forall>i \<ge> k. \<not> bit w i"
  then show "drop_bit k w = 0" by (intro bit_word_eqI) (simp add: bit_drop_bit_eq)
qed

lemma and_not_mask_0_iff:
  fixes w :: "'a::len word"
  shows "w AND NOT (mask k) = 0 \<longleftrightarrow> (\<forall>i \<ge> k. \<not> bit w i)"
proof
  assume z: "w AND NOT (mask k) = 0"
  show "\<forall>i \<ge> k. \<not> bit w i"
  proof (intro allI impI notI)
    fix i assume "k \<le> i" "bit w i"
    then have "bit (w AND NOT (mask k)) i"
      by (auto simp: bit_simps dest: bit_imp_le_length)
    with z show False by simp
  qed
next
  assume "\<forall>i \<ge> k. \<not> bit w i"
  then show "w AND NOT (mask k) = 0" by (intro bit_word_eqI) (auto simp: bit_simps not_less)
qed

lemma high_bits_iff:
  fixes x y :: "'a::len word"
  assumes "n \<le> LENGTH('a)"
  shows "(\<forall>i \<ge> LENGTH('a) - n. \<not> bit (y XOR x) i) \<longleftrightarrow>
     (\<forall>i < n. bit y (LENGTH('a) - 1 - i) = bit x (LENGTH('a) - 1 - i))"
proof
  assume high: "\<forall>i \<ge> LENGTH('a) - n. \<not> bit (y XOR x) i"
  show "\<forall>i < n. bit y (LENGTH('a) - 1 - i) = bit x (LENGTH('a) - 1 - i)"
  proof (intro allI impI)
    fix i assume "i < n"
    with assms have "LENGTH('a) - n \<le> LENGTH('a) - 1 - i" by linarith
    with high have "\<not> bit (y XOR x) (LENGTH('a) - 1 - i)" by blast
    then show "bit y (LENGTH('a) - 1 - i) = bit x (LENGTH('a) - 1 - i)" by (simp add: bit_xor_iff)
  qed
next
  assume msb: "\<forall>i < n. bit y (LENGTH('a) - 1 - i) = bit x (LENGTH('a) - 1 - i)"
  show "\<forall>i \<ge> LENGTH('a) - n. \<not> bit (y XOR x) i"
  proof (intro allI impI)
    fix i assume i: "LENGTH('a) - n \<le> i"
    show "\<not> bit (y XOR x) i"
    proof (cases "i < LENGTH('a)")
      case True
      with i assms have "LENGTH('a) - 1 - i < n" "LENGTH('a) - 1 - (LENGTH('a) - 1 - i) = i" by linarith+
      with msb show ?thesis by (metis bit_xor_iff)
    qed (auto dest: bit_imp_le_length)
  qed
qed

text \<open>What a prefix means: the addresses of its family that agree with it on its first bits.\<close>

fun addr_bit :: "addr \<Rightarrow> nat \<Rightarrow> bool" where
  \<comment> \<open>the bits of an address from the most significant one\<close>
  "addr_bit (Addr4 a) i = bit a (31 - i)"
| "addr_bit (Addr6 a z) i = bit a (127 - i)"
| "addr_bit AddrZero i = False"

definition prefix_wf :: "ip_prefix \<Rightarrow> bool" where
  "prefix_wf p \<longleftrightarrow> (case pbits p of None \<Rightarrow> True | Some n \<Rightarrow> IsValid (pip p) \<and> n \<le> BitLen (pip p))"

definition in_block :: "addr \<Rightarrow> nat \<Rightarrow> addr \<Rightarrow> bool" where
  "in_block p n a \<longleftrightarrow> BitLen p = BitLen a \<and> \<not> hasZone a \<and> (\<forall>i < n. addr_bit a i = addr_bit p i)"

lemma Contains_iff:
  assumes "prefix_wf p"
  shows "Contains p a \<longleftrightarrow> (\<exists>n. pbits p = Some n \<and> in_block (pip p) n a)"
proof (cases "pbits p")
  case (Some n)
  with assms have n: "n \<le> BitLen (pip p)" "IsValid (pip p)" by (auto simp: prefix_wf_def)
  show ?thesis
  proof (cases "pip p"; cases a)
    fix x y assume "pip p = Addr4 x" "a = Addr4 y"
    with Some n high_bits_iff [of n y x] drop_bit_0_iff [of "32 - n" "y XOR x"] show ?thesis
      by (simp add: Contains_def in_block_def)
  next
    fix x y z z' assume "pip p = Addr6 x z" "a = Addr6 y z'"
    with Some n high_bits_iff [of n y x] show ?thesis
      by (auto simp: Contains_def in_block_def and_not_mask_0_iff)
  qed (use Some n in \<open>auto simp: Contains_def in_block_def IsValid_def\<close>)
qed simp

lemma mask_addr_bit: "n \<le> BitLen a \<Longrightarrow> i < n \<Longrightarrow> addr_bit (mask_addr a n) i = addr_bit a i"
  by (cases a) (auto simp: bit_simps not_less)

lemma BitLen_mask_addr [simp]: "BitLen (mask_addr a n) = BitLen a"
  by (cases a) auto

lemma IsValid_mask_addr [simp]: "IsValid (mask_addr a n) = IsValid a"
  by (cases a) (auto simp: IsValid_def)

lemma hasZone_mask_addr [simp]: "\<not> hasZone (mask_addr a n)"
  by (cases a) auto

lemma withoutZone_id [simp]: "\<not> hasZone a \<Longrightarrow> withoutZone a = a"
  by (cases a) auto

lemma withoutZone_simps [simp]:
  "BitLen (withoutZone a) = BitLen a" "IsValid (withoutZone a) = IsValid a"
  "addr_bit (withoutZone a) i = addr_bit a i"
  by (cases a; simp add: IsValid_def)+

lemma prefix_wf_PrefixFrom [simp]: "prefix_wf (PrefixFrom a n)"
  by (simp add: prefix_wf_def PrefixFrom_def IsValid_def withoutZone_simps(2) [unfolded IsValid_def])

lemma prefix_wf_Masked [simp]: "prefix_wf (Masked p)"
  by (auto simp: Masked_def split: option.split) (simp add: prefix_wf_def)

text \<open>Masking the host bits does not change the addresses a prefix contains.\<close>

lemma Contains_Masked:
  assumes "prefix_wf p"
  shows "Contains (Masked p) a = Contains p a"
proof (cases "pbits p")
  case None
  then show ?thesis by (simp add: Masked_def)
next
  case (Some n)
  with assms have n: "n \<le> BitLen (pip p)" "IsValid (pip p)" by (auto simp: prefix_wf_def)
  then have "pbits (Masked p) = Some n" "pip (Masked p) = mask_addr (pip p) n"
    using Some by (auto simp: Masked_def PrefixFrom_def IsValid_def [symmetric] IsValid_mask_addr [unfolded IsValid_def])
  with n Some show ?thesis
    by (simp add: Contains_iff assms in_block_def mask_addr_bit)
qed

lemma Contains_PrefixFrom:
  "IsValid a \<Longrightarrow> n \<le> BitLen a \<Longrightarrow> Contains (PrefixFrom a n) b \<longleftrightarrow> in_block a n b"
  by (subst Contains_iff [OF prefix_wf_PrefixFrom]) (simp add: PrefixFrom_def in_block_def IsValid_def)

section \<open>Configured entries\<close>

text \<open>
  What a configured text stands for: an address stands for itself, \<open>address/n\<close> for the block of the
  addresses that share the first \<open>n\<close> bits.
\<close>

definition entry_matches :: "string \<Rightarrow> addr \<Rightarrow> bool" where
  "entry_matches t a =
     (case ParsePrefix (TrimSpace t) of
        Inr p \<Rightarrow> (\<exists>n. pbits p = Some n \<and> in_block (pip p) n a)
      | Inl _ \<Rightarrow> (case ParseAddr (TrimSpace t) of
                   Inr b \<Rightarrow> \<not> hasZone a \<and> withoutZone b = a
                 | Inl _ \<Rightarrow> False))"

lemma ParseAddr_valid: "ParseAddr s = Inr a \<Longrightarrow> IsValid a"
proof -
  assume "ParseAddr s = Inr a"
  then have "parseIPv4 s = Some a \<or> parseIPv6 s = Some a"
    by (auto simp: ParseAddr_def split: if_splits option.splits)
  then show ?thesis
    by (auto simp: parseIPv4_def parseIPv6_def parseIPv6_body_def parseIPv6_finish_def IsValid_def
        split: option.splits if_splits)
qed

lemma ParsePrefix_wf:
  assumes "ParsePrefix s = Inr p"
  shows "prefix_wf p" and "\<exists>n. pbits p = Some n"
proof -
  from assms obtain a n where "p = PrefixFrom a n" "n \<le> BitLen a" "IsValid a"
    by (auto simp: ParsePrefix_def Let_def nat_le_iff split: option.splits sum.splits if_splits
        dest: ParseAddr_valid)
  then show "prefix_wf p" "\<exists>n. pbits p = Some n"
    by (auto simp: IsValid_def PrefixFrom_def) (metis PrefixFrom_def prefix_wf_PrefixFrom)
qed

lemma in_block_full: "IsValid b \<Longrightarrow> in_block b (BitLen b) a \<longleftrightarrow> \<not> hasZone a \<and> withoutZone b = a"
proof -
  assume v: "IsValid b"
  have "in_block b (BitLen b) a \<longleftrightarrow> Contains (PrefixFrom b (BitLen b)) a"
    using v by (simp add: Contains_PrefixFrom)
  also have "\<dots> \<longleftrightarrow> \<not> hasZone a \<and> withoutZone b = a"
    using v by (cases b; cases a) (auto simp: Contains_def PrefixFrom_def IsValid_def)
  finally show ?thesis .
qed

lemma parsePrefix_matches:
  assumes "parsePrefix t = Inr p"
  shows "Contains p a \<longleftrightarrow> entry_matches t a"
proof (cases "ParsePrefix (TrimSpace t)")
  case (Inr q)
  with assms have "p = Masked q" by (simp add: parsePrefix_def Let_def split: if_splits)
  with Inr Contains_Masked [OF ParsePrefix_wf(1) [OF Inr]] Contains_iff [OF ParsePrefix_wf(1) [OF Inr]]
  show ?thesis by (simp add: entry_matches_def)
next
  case (Inl e)
  with assms obtain b where b: "ParseAddr (TrimSpace t) = Inr b" "p = PrefixFrom b (BitLen b)"
    by (auto simp: parsePrefix_def Let_def split: if_splits sum.splits)
  with Inl ParseAddr_valid [OF b(1)] show ?thesis
    by (simp add: entry_matches_def Contains_PrefixFrom in_block_full)
qed

definition entry_valid :: "string \<Rightarrow> bool" where
  "entry_valid t \<longleftrightarrow> TrimSpace t \<noteq> '''' \<and> (is_ok (ParsePrefix (TrimSpace t)) \<or> is_ok (ParseAddr (TrimSpace t)))"

lemma parsePrefix_valid: "is_ok (parsePrefix t) \<longleftrightarrow> entry_valid t"
  by (auto simp: parsePrefix_def entry_valid_def is_ok_def Let_def split: sum.split)

lemma parsePrefixes_loop_Inr:
  "parsePrefixes_loop ts ps = Inr qs \<longleftrightarrow> (\<exists>rs. qs = ps @ rs \<and> list_all2 (\<lambda>t p. parsePrefix t = Inr p) ts rs)"
  by (induction ts arbitrary: ps) (auto simp: list_all2_Cons1 split: sum.split)

lemma parsePrefixes_matches:
  assumes "parsePrefixes kind ts = Inr ps"
  shows "length ps = length ts" and "contains ps a \<longleftrightarrow> (\<exists>t \<in> set ts. entry_matches t a)"
proof -
  from assms have all2: "list_all2 (\<lambda>t p. parsePrefix t = Inr p) ts ps"
    by (auto simp: parsePrefixes_def parsePrefixes_loop_Inr split: sum.splits)
  then show "length ps = length ts" by (simp add: list_all2_lengthD)
  have "(\<exists>p \<in> set ps. Contains p a) \<longleftrightarrow> (\<exists>t \<in> set ts. entry_matches t a)"
    using all2 by (induction rule: list_all2_induct) (auto simp: parsePrefix_matches)
  then show "contains ps a \<longleftrightarrow> (\<exists>t \<in> set ts. entry_matches t a)" by (simp add: contains_iff)
qed

lemma Policy_New_Allows:
  assumes "Policy_New allows denies = Inr p"
  shows "Allows p a \<longleftrightarrow> IsValid a \<and>
    (if allows \<noteq> [] then \<exists>t \<in> set allows. entry_matches t a else \<not> (\<exists>t \<in> set denies. entry_matches t a))"
proof -
  from assms obtain pa pd where "parsePrefixes ''allow'' allows = Inr pa" "parsePrefixes ''deny'' denies = Inr pd"
    "p = \<lparr>allow = pa, deny = pd\<rparr>"
    by (auto simp: Policy_New_def split: sum.splits)
  with parsePrefixes_matches [of "''allow''" allows pa] parsePrefixes_matches [of "''deny''" denies pd]
  show ?thesis by (auto simp: Allows_def)
qed

lemma in_block_mapped:
  assumes "Is4In6 b" and "96 \<le> n" and "in_block b n a"
  shows "Is4In6 a"
proof -
  from assms obtain x z y where b: "b = Addr6 x z" and a: "a = Addr6 y []"
    by (cases b; cases a) (auto simp: in_block_def)
  from assms(3) b a have eq: "\<forall>i < n. bit y (127 - i) = bit x (127 - i)" by (simp add: in_block_def)
  have "drop_bit 32 y = drop_bit 32 x"
  proof (rule bit_word_eqI)
    fix j :: nat assume "j < LENGTH(128)"
    show "bit (drop_bit 32 y) j = bit (drop_bit 32 x) j"
    proof (cases "32 + j < 128")
      case True
      with assms(2) have "95 - j < n" "127 - (95 - j) = 32 + j" by linarith+
      with eq show ?thesis by (metis bit_drop_bit_eq comp_apply)
    qed (auto simp: bit_drop_bit_eq dest: bit_imp_le_length)
  qed
  with assms(1) a b show ?thesis by simp
qed

lemma parsePrefixes_loop_Inl:
  "parsePrefixes_loop ts ps = Inl e \<Longrightarrow> \<exists>t \<in> set ts. \<not> entry_valid t"
proof (induction ts arbitrary: ps)
  case (Cons t ts)
  then show ?case using parsePrefix_valid [of t] by (auto simp: is_ok_def split: sum.splits)
qed simp

lemma Policy_New_Inl:
  "Policy_New allows denies = Inl e \<Longrightarrow> \<exists>t \<in> set (allows @ denies). \<not> entry_valid t"
  by (auto simp: Policy_New_def parsePrefixes_def split: sum.splits dest!: parsePrefixes_loop_Inl)

section \<open>Properties\<close>

text \<open>C17: the decision of a configured policy. A policy is refused exactly for an entry that is
  neither an address nor a prefix; otherwise an address may connect when it is valid and, if there is
  an allow list, one of its entries stands for the address, whatever the deny list says, and if there
  is none, no deny entry stands for it. Masking and the linear search do not show.\<close>

theorem client_policy_decides:
  "case Policy_New allows denies of
     Inl e \<Rightarrow> \<exists>t \<in> set (allows @ denies). \<not> entry_valid t
   | Inr p \<Rightarrow> Allows p a = (IsValid a \<and>
       (if allows \<noteq> [] then \<exists>t \<in> set allows. entry_matches t a
        else \<not> (\<exists>t \<in> set denies. entry_matches t a)))"
proof (cases "Policy_New allows denies")
  case (Inl e)
  then show ?thesis using Policy_New_Inl [OF Inl] by simp
next
  case (Inr p)
  then show ?thesis using Policy_New_Allows [OF Inr, of a] by simp
qed

text \<open>An entry written as an IPv4-mapped IPv6 address or prefix never stands for the address of
  a client, since these are unmapped before the decision: in a deny list it denies nobody, and an
  allow list of such entries admits nobody.\<close>

theorem mapped_entry_dead:
  assumes "parsePrefix t = Inr p" and "Is4In6 (pip p)" and "pbits p = Some n" and "96 \<le> n"
  shows "\<not> Contains p (Unmap a)"
proof -
  have "prefix_wf p"
    using assms(1) by (auto simp: parsePrefix_def Let_def split: if_splits sum.splits)
  then show ?thesis
    using in_block_mapped [OF assms(2,4), of "Unmap a"] assms(3) by (auto simp: Contains_iff)
qed

lemma mapped_sample: "ParseAddr ''::ffff:10.0.0.1'' = Inr (Addr6 0xFFFF0A000001 [])"
proof -
  have "parseIPv6_loop ''ffff:10.0.0.1'' [] (Some 0) = Some ([], [255, 255, 10, 0, 0, 1], Some 0)"
    by (simp add: parseIPv6_loop.simps hex_val_def Let_def is_digit_def digit_val_def)
  moreover have "expand_ellipsis [255, 255, 10, 0, 0, 1] 0 = [0, 0, 0, 0, 0, 0, 0, 0, 0, 0, 255, 255, 10, 0, 0, 1]"
    by (simp add: expand_ellipsis_def numeral_eq_Suc)
  moreover have "be_word (nat_bytes [0, 0, 0, 0, 0, 0, 0, 0, 0, 0, 255, 255, 10, 0, 0, 1]) = (0xFFFF0A000001 :: 128 word)"
    by (simp add: be_word_def nat_bytes_def push_bit_eq_mult)
  ultimately show ?thesis
    by (simp add: ParseAddr_def parseIPv6_def parseIPv6_body_def parseIPv6_finish_def)
qed

lemma mapped_sample_Is4In6: "Is4In6 (Addr6 0xFFFF0A000001 [])"
  by (simp add: drop_bit_eq_div)

theorem mapped_entry_dead_witness:
  "\<exists>p. parsePrefix ''::ffff:10.0.0.1'' = Inr p \<and> \<not> Contains p (Unmap (Addr6 0xFFFF0A000001 []))"
proof -
  have "TrimSpace ''::ffff:10.0.0.1'' = ''::ffff:10.0.0.1''"
    by (rule TrimSpace_plain) (simp add: plain_char_def)
  then have "parsePrefix ''::ffff:10.0.0.1'' = Inr (PrefixFrom (Addr6 0xFFFF0A000001 []) 128)"
    by (simp add: parsePrefix_def ParsePrefix_def mapped_sample)
  moreover from this have "\<not> Contains (PrefixFrom (Addr6 0xFFFF0A000001 []) 128) (Unmap (Addr6 0xFFFF0A000001 []))"
    by (rule mapped_entry_dead [where n = 128]) (use mapped_sample_Is4In6 in \<open>simp_all add: PrefixFrom_def\<close>)
  ultimately show ?thesis by blast
qed

end
