(* ===== verification/GoRead.thy ===== *)
theory GoRead
  imports Prelude
begin

text \<open>
  The contract of the stream readers. A routine that parses a value from an \<open>io.Reader\<close> takes a
  prefix of the bytes to come and decides on these alone: what follows the prefix stays in the
  stream, and does not influence the value. \<open>stream_parser\<close> is that contract; \<open>raw_parser\<close> is the
  contract of a routine that also returns the bytes it took.
\<close>

locale stream_parser =
  fixes parse :: "reader \<Rightarrow> 'a result \<times> reader"
  assumes takes_prefix:
    "parse r = (Inr v, r') \<Longrightarrow>
       \<exists>raw. rdata r = raw @ rdata r' \<and> (\<forall>q s. parse (q\<lparr>rdata := raw @ s\<rparr>) = (Inr v, q\<lparr>rdata := s\<rparr>))"
begin

lemma rest_shorter: "parse r = (Inr v, r') \<Longrightarrow> length (rdata r') \<le> length (rdata r)"
  using takes_prefix by fastforce

lemma same_end: "parse r = (Inr v, r') \<Longrightarrow> r' = r\<lparr>rdata := rdata r'\<rparr>"
  using takes_prefix [of r v r'] by (metis prod.inject reader.surjective reader.update_convs(1))

lemma later_bytes_irrelevant:
  assumes "parse r = (Inr v, r')"
  shows "parse (r\<lparr>rdata := rdata r @ s\<rparr>) = (Inr v, r'\<lparr>rdata := rdata r' @ s\<rparr>)"
proof -
  obtain raw where raw: "rdata r = raw @ rdata r'"
    "\<And>q s. parse (q\<lparr>rdata := raw @ s\<rparr>) = (Inr v, q\<lparr>rdata := s\<rparr>)"
    using takes_prefix [OF assms] by blast
  have "parse (r\<lparr>rdata := raw @ (rdata r' @ s)\<rparr>) = (Inr v, r\<lparr>rdata := rdata r' @ s\<rparr>)"
    by (rule raw(2))
  moreover have "r\<lparr>rdata := rdata r' @ s\<rparr> = r'\<lparr>rdata := rdata r' @ s\<rparr>"
    by (subst (2) same_end [OF assms]) simp
  ultimately show ?thesis using raw(1) by simp
qed

end

locale raw_parser =
  fixes parse_raw :: "reader \<Rightarrow> 'a result \<times> bytes \<times> reader"
  assumes takes_raw:
    "parse_raw r = (Inr v, raw, r') \<Longrightarrow>
       rdata r = raw @ rdata r' \<and> (\<forall>q s. parse_raw (q\<lparr>rdata := raw @ s\<rparr>) = (Inr v, raw, q\<lparr>rdata := s\<rparr>))"

definition drop_raw :: "(reader \<Rightarrow> 'a result \<times> bytes \<times> reader) \<Rightarrow> reader \<Rightarrow> 'a result \<times> reader" where
  "drop_raw p r = (case p r of (x, raw, r') \<Rightarrow> (x, r'))"

sublocale raw_parser \<subseteq> stream: stream_parser "drop_raw parse_raw"
proof
  fix r v r'
  assume "drop_raw parse_raw r = (Inr v, r')"
  then obtain raw where "parse_raw r = (Inr v, raw, r')" by (auto simp: drop_raw_def split: prod.splits)
  from takes_raw [OF this]
  show "\<exists>raw. rdata r = raw @ rdata r' \<and> (\<forall>q s. drop_raw parse_raw (q\<lparr>rdata := raw @ s\<rparr>) = (Inr v, q\<lparr>rdata := s\<rparr>))"
    by (auto simp: drop_raw_def)
qed

context raw_parser
begin

lemma same_end: "parse_raw r = (Inr v, raw, r') \<Longrightarrow> r' = r\<lparr>rdata := rdata r'\<rparr>"
  using stream.same_end [of r v r'] by (simp add: drop_raw_def)

lemma reparse:
  "parse_raw r = (Inr v, raw, r') \<Longrightarrow> parse_raw (q\<lparr>rdata := raw @ s\<rparr>) = (Inr v, raw, q\<lparr>rdata := s\<rparr>)"
  using takes_raw by blast

lemma reparse_all:
  "parse_raw r = (Inr v, raw, r') \<Longrightarrow> parse_raw (bytes_NewReader raw) = (Inr v, raw, bytes_NewReader [])"
  using reparse [where r = r and v = v and raw = raw and r' = r' and q = "bytes_NewReader []" and s = "[]"] by (simp add: bytes_NewReader_def)

end

text \<open>Sequencing, which keeps the contract.\<close>

definition then_parse :: "(reader \<Rightarrow> 'a result \<times> reader) \<Rightarrow> ('a \<Rightarrow> reader \<Rightarrow> 'b result \<times> reader) \<Rightarrow> reader \<Rightarrow> 'b result \<times> reader" where
  "then_parse p q r = (case p r of (Inl e, r') \<Rightarrow> (Inl e, r') | (Inr v, r') \<Rightarrow> q v r')"

lemma stream_parser_then:
  assumes "stream_parser p" and "\<And>v. stream_parser (q v)"
  shows "stream_parser (then_parse p q)"
proof
  fix r w r''
  assume "then_parse p q r = (Inr w, r'')"
  then obtain v r' where p: "p r = (Inr v, r')" and q: "q v r' = (Inr w, r'')"
    by (auto simp: then_parse_def split: prod.splits sum.splits)
  from stream_parser.takes_prefix [OF assms(1) p] obtain a where
    a: "rdata r = a @ rdata r'" "\<And>q s. p (q\<lparr>rdata := a @ s\<rparr>) = (Inr v, q\<lparr>rdata := s\<rparr>)" by blast
  from stream_parser.takes_prefix [OF assms(2) q] obtain b where
    b: "rdata r' = b @ rdata r''" "\<And>z s. q v (z\<lparr>rdata := b @ s\<rparr>) = (Inr w, z\<lparr>rdata := s\<rparr>)" by blast
  have "rdata r = (a @ b) @ rdata r''" using a(1) b(1) by simp
  moreover have "then_parse p q (z\<lparr>rdata := (a @ b) @ s\<rparr>) = (Inr w, z\<lparr>rdata := s\<rparr>)" for z s
    using a(2) [where q = z and s = "b @ s"] b(2) [where z = z and s = s] by (simp add: then_parse_def)
  ultimately show "\<exists>raw. rdata r = raw @ rdata r'' \<and>
      (\<forall>z s. then_parse p q (z\<lparr>rdata := raw @ s\<rparr>) = (Inr w, z\<lparr>rdata := s\<rparr>))" by blast
qed

lemma stream_parser_result: "stream_parser (\<lambda>r. (x, r))"
  by unfold_locales auto

lemma stream_parser_ReadFull: "stream_parser (\<lambda>r. ReadFull r n)"
  by unfold_locales (simp add: ReadFull_Inr)

end
