(* ===== verification/Proxyprotocol.thy ===== *)
theory Proxyprotocol
  imports Clientpolicy GoRead
begin

text \<open>
  The PROXY protocol headers of \<open>internal/proxyprotocol/proxyprotocol.go\<close>, versions 1 and 2, and
  the list of proxies whose headers are believed.
\<close>

section \<open>Trusted proxies\<close>

definition maxV1 :: nat where "maxV1 = 108"
definition maxV2 :: nat where "maxV2 = 512"

definition v2sig :: bytes where
  "v2sig = [0x0D, 0x0A, 0x0D, 0x0A, 0x00, 0x0D, 0x0A, 0x51, 0x55, 0x49, 0x54, 0x0A]"

fun ParseCIDRs_loop :: "string list \<Rightarrow> ip_prefix list \<Rightarrow> ip_prefix list result" where
  "ParseCIDRs_loop [] prefixes = Inr prefixes"
| "ParseCIDRs_loop (value0 # values) prefixes =
     (let value = TrimSpace value0 in
      case ParseAddr value of
        Inr addr \<Rightarrow> ParseCIDRs_loop values (prefixes @ [PrefixFrom (Unmap addr) (BitLen addr)])
      | Inl _ \<Rightarrow>
          (case ParsePrefix value of
             Inl _ \<Rightarrow> Inl [Msg ''invalid trusted proxy'']
           | Inr prefix \<Rightarrow> ParseCIDRs_loop values (prefixes @ [Masked prefix])))"

definition ParseCIDRs :: "string list \<Rightarrow> ip_prefix list result" where
  "ParseCIDRs values = ParseCIDRs_loop values []"

fun Trusted :: "ip_prefix list \<Rightarrow> addr \<Rightarrow> bool" where
  "Trusted [] addr = False"
| "Trusted (prefix # prefixes) addr = (if Contains prefix addr then True else Trusted prefixes addr)"

section \<open>Version 1\<close>

definition ends_crlf :: "bytes \<Rightarrow> bool" where
  "ends_crlf line \<longleftrightarrow> 2 \<le> length line \<and> line ! (length line - 2) = 0x0D \<and> line ! (length line - 1) = 0x0A"

function readV1_loop :: "bytes \<Rightarrow> reader \<Rightarrow> bytes result \<times> reader" where
  "readV1_loop line r =
     (if length line < maxV1 then
        (case ReadFull r 1 of
           (Inl e, r') \<Rightarrow> (Inl e, r')
         | (Inr next, r') \<Rightarrow>
             let line' = line @ [next ! 0] in
             if ends_crlf line' then (Inr line', r') else readV1_loop line' r')
      else (Inr line, r))"
  by pat_completeness auto
termination
  by (relation "measure (\<lambda>(line, r). maxV1 - length line)") auto

declare readV1_loop.simps [simp del]

definition readV1_line :: "bytes \<Rightarrow> addr result" where
  \<comment> \<open>what \<open>readV1\<close> makes of the line it has read\<close>
  "readV1_line line =
     (if \<not> ends_crlf line then Inl [Msg ''oversized PROXY v1 header'']
      else let fields = Split (string_of (take (length line - 2) line)) (CHR '' '') in
        if length fields \<noteq> 6 \<or> fields ! 0 \<noteq> ''PROXY'' \<or> (fields ! 1 \<noteq> ''TCP4'' \<and> fields ! 1 \<noteq> ''TCP6'')
        then Inl [Msg ''invalid PROXY v1 header'']
        else (case ParseAddr (fields ! 2) of
                Inl _ \<Rightarrow> Inl [Msg ''invalid PROXY v1 source'']
              | Inr addr \<Rightarrow>
                  if (fields ! 1 = ''TCP4'' \<and> \<not> Is4 addr) \<or> (fields ! 1 = ''TCP6'' \<and> \<not> Is6 addr)
                  then Inl [Msg ''invalid PROXY v1 source'']
                  else Inr (Unmap addr)))"

definition readV1 :: "reader \<Rightarrow> byte \<Rightarrow> addr result \<times> reader" where
  "readV1 r first =
     (case readV1_loop [first] r of
        (Inl e, r') \<Rightarrow> (Inl e, r')
      | (Inr line, r') \<Rightarrow> (readV1_line line, r'))"

section \<open>Version 2\<close>

definition readV2_source :: "byte \<Rightarrow> bytes \<Rightarrow> addr result" where
  \<comment> \<open>the switch on the family byte\<close>
  "readV2_source family payload =
     (if family = 0x11 then
        (if length payload < 12 then Inl [Msg ''short PROXY v2 IPv4 header'']
         else Inr (Addr4 (be_word (take 4 payload))))
      else if family = 0x21 then
        (if length payload < 36 then Inl [Msg ''short PROXY v2 IPv6 header'']
         else Inr (Addr6 (be_word (take 16 payload)) []))
      else Inl [Msg ''unsupported PROXY v2 family''])"

definition readV2 :: "reader \<Rightarrow> byte \<Rightarrow> addr result \<times> reader" where
  "readV2 r first =
     (case ReadFull r 15 of
        (Inl e, r1) \<Rightarrow> (Inl e, r1)
      | (Inr rest, r1) \<Rightarrow>
          let header = first # rest in
          if take 12 header \<noteq> v2sig \<or> header ! 12 \<noteq> 0x21 then (Inl [Msg ''invalid PROXY v2 header''], r1)
          else let len = unat (be_word (take 2 (drop 14 header)) :: 16 word) in
            if len > maxV2 then (Inl [Msg ''oversized PROXY v2 header''], r1)
            else (case ReadFull r1 len of
                    (Inl e, r2) \<Rightarrow> (Inl e, r2)
                  | (Inr payload, r2) \<Rightarrow> (readV2_source (header ! 13) payload, r2)))"

definition Read :: "reader \<Rightarrow> addr result \<times> reader" where
  "Read r =
     (case ReadFull r 1 of
        (Inl e, r1) \<Rightarrow> (Inl e, r1)
      | (Inr first, r1) \<Rightarrow> if first ! 0 = 0x50 then readV1 r1 (first ! 0) else readV2 r1 (first ! 0))"

section \<open>The stream contract\<close>

lemma readV1_loop_then:
  "readV1_loop line =
     (if length line < maxV1 then
        then_parse (\<lambda>r. ReadFull r 1)
          (\<lambda>next. if ends_crlf (line @ [next ! 0]) then (\<lambda>r. (Inr (line @ [next ! 0]), r))
                  else readV1_loop (line @ [next ! 0]))
      else (\<lambda>r. (Inr line, r)))"
  by (rule ext) (subst readV1_loop.simps, simp add: then_parse_def Let_def split: prod.split sum.split)

lemma stream_parser_readV1_loop: "stream_parser (readV1_loop line)"
proof (induction "maxV1 - length line" arbitrary: line rule: less_induct)
  case less
  show ?case
    by (subst readV1_loop_then)
       (auto intro!: stream_parser_then stream_parser_ReadFull stream_parser_result less)
qed

lemma Read_then:
  "Read =
     then_parse (\<lambda>r. ReadFull r 1) (\<lambda>first.
       if first ! 0 = 0x50 then then_parse (readV1_loop [first ! 0]) (\<lambda>line r. (readV1_line line, r))
       else then_parse (\<lambda>r. ReadFull r 15) (\<lambda>rest.
         if take 12 (first ! 0 # rest) \<noteq> v2sig \<or> (first ! 0 # rest) ! 12 \<noteq> 0x21
         then (\<lambda>r. (Inl [Msg ''invalid PROXY v2 header''], r))
         else if unat (be_word (take 2 (drop 14 (first ! 0 # rest))) :: 16 word) > maxV2
         then (\<lambda>r. (Inl [Msg ''oversized PROXY v2 header''], r))
         else then_parse (\<lambda>r. ReadFull r (unat (be_word (take 2 (drop 14 (first ! 0 # rest))) :: 16 word)))
                (\<lambda>payload r. (readV2_source ((first ! 0 # rest) ! 13) payload, r))))"
  by (auto simp: Read_def readV1_def readV2_def then_parse_def Let_def fun_eq_iff
      split: prod.split sum.split)

interpretation proxy: stream_parser Read
  unfolding Read_then
  by (intro stream_parser_then stream_parser_ReadFull)
     (auto intro!: stream_parser_then stream_parser_ReadFull stream_parser_result stream_parser_readV1_loop)

section \<open>Bounds\<close>

lemma ReadFull_takes: "ReadFull r n = (x, r') \<Longrightarrow> length (rdata r) \<le> length (rdata r') + n"
  by (auto simp: ReadFull_def split: if_splits)

lemma readV1_loop_takes:
  "readV1_loop line r = (x, r') \<Longrightarrow> length line \<le> maxV1 \<Longrightarrow>
     length (rdata r) \<le> length (rdata r') + (maxV1 - length line)"
proof (induction line r arbitrary: x r' rule: readV1_loop.induct)
  case (1 line r)
  show ?case
  proof (cases "length line < maxV1")
    case False
    with "1.prems" show ?thesis by (simp add: readV1_loop.simps [of line])
  next
    case True
    obtain y r1 where y: "ReadFull r 1 = (y, r1)" by (cases "ReadFull r 1")
    note len = ReadFull_takes [OF y]
    show ?thesis
    proof (cases y)
      case (Inl e)
      with True y len "1.prems" show ?thesis by (simp add: readV1_loop.simps [of line])
    next
      case (Inr b)
      show ?thesis
      proof (cases "ends_crlf (line @ [b ! 0])")
        case crlf: True
        with True Inr y len "1.prems" show ?thesis by (simp add: readV1_loop.simps [of line])
      next
        case crlf: False
        with True Inr y "1.prems" have "readV1_loop (line @ [b ! 0]) r1 = (x, r')"
          by (simp add: readV1_loop.simps [of line])
        from "1.IH" [OF True y [symmetric] Inr refl crlf this] True len show ?thesis by simp
      qed
    qed
  qed
qed

lemma readV1_takes: "readV1 r a = (x, r') \<Longrightarrow> length (rdata r) \<le> length (rdata r') + 107"
  using readV1_loop_takes [of "[a]" r]
  by (auto simp: readV1_def maxV1_def split: prod.splits sum.splits)

lemma readV2_takes: "readV2 r a = (x, r') \<Longrightarrow> length (rdata r) \<le> length (rdata r') + 527"
  by (auto simp: readV2_def maxV2_def Let_def split: prod.splits sum.splits if_splits
      dest!: ReadFull_takes)

lemma Read_takes: "Read r = (x, r') \<Longrightarrow> length (rdata r) \<le> length (rdata r') + 528"
  by (auto simp: Read_def split: prod.splits sum.splits if_splits
      dest!: ReadFull_takes readV1_takes readV2_takes)

section \<open>Well-formed headers\<close>

lemma ends_crlf_snoc: "line \<noteq> [] \<Longrightarrow> ends_crlf (line @ [c]) \<longleftrightarrow> last line = 0x0D \<and> c = 0x0A"
  by (cases line rule: rev_cases) (auto simp: ends_crlf_def nth_append)

lemma readV1_loop_step:
  "length line < maxV1 \<Longrightarrow>
     readV1_loop line (r\<lparr>rdata := c # s\<rparr>) =
       (if ends_crlf (line @ [c]) then (Inr (line @ [c]), r\<lparr>rdata := s\<rparr>)
        else readV1_loop (line @ [c]) (r\<lparr>rdata := s\<rparr>))"
  by (subst readV1_loop.simps) (simp add: ReadFull_def)

lemma readV1_loop_reads:
  "line \<noteq> [] \<Longrightarrow> 0x0D \<notin> set (line @ body) \<Longrightarrow> length (line @ body) + 2 \<le> maxV1 \<Longrightarrow>
     readV1_loop line (r\<lparr>rdata := body @ [0x0D, 0x0A] @ s\<rparr>) = (Inr (line @ body @ [0x0D, 0x0A]), r\<lparr>rdata := s\<rparr>)"
proof (induction body arbitrary: line)
  case Nil
  then have "last line \<noteq> 0x0D" by (metis append_Nil2 last_in_set)
  with Nil show ?case
    using ends_crlf_snoc [of "line @ [0x0D]" "0x0A"] by (simp add: readV1_loop_step ends_crlf_snoc)
next
  case (Cons c body)
  then have "last line \<noteq> 0x0D" by (metis UnI1 last_in_set set_append)
  with Cons.prems have "readV1_loop line (r\<lparr>rdata := (c # body) @ [0x0D, 0x0A] @ s\<rparr>) =
      readV1_loop (line @ [c]) (r\<lparr>rdata := body @ [0x0D, 0x0A] @ s\<rparr>)"
    by (simp add: readV1_loop_step ends_crlf_snoc)
  with Cons.IH [of "line @ [c]"] Cons.prems show ?case by simp
qed

definition v1_header :: "string \<Rightarrow> string \<Rightarrow> string \<Rightarrow> string \<Rightarrow> string \<Rightarrow> string" where
  \<comment> \<open>the text of a version 1 header without its line end\<close>
  "v1_header proto src dst sport dport =
     ''PROXY '' @ proto @ '' '' @ src @ '' '' @ dst @ '' '' @ sport @ '' '' @ dport"

definition v1_word :: "string \<Rightarrow> bool" where
  "v1_word w \<longleftrightarrow> (\<forall>c \<in> set w. c \<noteq> CHR '' '' \<and> c \<noteq> CHR 0x0D)"

lemma v1_header_fields:
  assumes "v1_word proto" "v1_word src" "v1_word dst" "v1_word sport" "v1_word dport"
  shows "Split (v1_header proto src dst sport dport) (CHR '' '') = [''PROXY'', proto, src, dst, sport, dport]"
proof -
  have sep: "CHR '' '' \<notin> set w" if "v1_word w" for w using that by (auto simp: v1_word_def)
  have h: "v1_header proto src dst sport dport =
      ''PROXY'' @ CHR '' '' # proto @ CHR '' '' # src @ CHR '' '' # dst @ CHR '' '' # sport @ CHR '' '' # dport"
    by (simp add: v1_header_def)
  have p: "CHR '' '' \<notin> set ''PROXY''" by simp
  show ?thesis
    unfolding h using assms [THEN sep] p by (simp only: Split_append Split_no_sep not_False_eq_True)
qed

lemma Read_v1:
  assumes "v1_word proto" "v1_word src" "v1_word dst" "v1_word sport" "v1_word dport"
    and "length (v1_header proto src dst sport dport) + 2 \<le> maxV1"
  shows "Read (r\<lparr>rdata := bytes_of (v1_header proto src dst sport dport) @ [0x0D, 0x0A] @ s\<rparr>) =
     (readV1_line (bytes_of (v1_header proto src dst sport dport) @ [0x0D, 0x0A]), r\<lparr>rdata := s\<rparr>)"
proof -
  let ?h = "v1_header proto src dst sport dport"
  define t where "t = tl ?h"
  have h: "?h = CHR ''P'' # t" by (simp add: t_def v1_header_def)
  have "CHR 0x0D \<notin> set w" if "v1_word w" for w using that by (auto simp: v1_word_def)
  from assms(1-5) [THEN this] have "CHR 0x0D \<notin> set ?h" by (simp add: v1_header_def)
  then have cr: "0x0D \<notin> set (bytes_of ?h)" by (simp add: CR_notin_bytes_of)
  have P: "bytes_of ?h = 0x50 # bytes_of t" by (simp add: h bytes_of_def byte_of_char_def)
  have "readV1_loop [0x50] (r\<lparr>rdata := bytes_of t @ [0x0D, 0x0A] @ s\<rparr>) =
      (Inr ([0x50] @ bytes_of t @ [0x0D, 0x0A]), r\<lparr>rdata := s\<rparr>)"
    using cr [unfolded P] assms(6) by (intro readV1_loop_reads) (simp_all add: h)
  then show ?thesis by (simp add: Read_def readV1_def ReadFull_def P)
qed

lemma readV1_line_header:
  assumes "v1_word proto" "v1_word src" "v1_word dst" "v1_word sport" "v1_word dport"
  shows "readV1_line (bytes_of (v1_header proto src dst sport dport) @ [0x0D, 0x0A]) =
     (if proto \<noteq> ''TCP4'' \<and> proto \<noteq> ''TCP6'' then Inl [Msg ''invalid PROXY v1 header'']
      else case ParseAddr src of
        Inl _ \<Rightarrow> Inl [Msg ''invalid PROXY v1 source'']
      | Inr a \<Rightarrow> if (proto = ''TCP4'' \<and> \<not> Is4 a) \<or> (proto = ''TCP6'' \<and> \<not> Is6 a)
                 then Inl [Msg ''invalid PROXY v1 source''] else Inr (Unmap a))"
proof -
  have "ends_crlf (bytes_of (v1_header proto src dst sport dport) @ [0x0D, 0x0A])"
    by (simp add: ends_crlf_def nth_append)
  then show ?thesis
    by (simp add: readV1_line_def Let_def v1_header_fields [OF assms] nth_Cons' split: sum.split)
qed

definition v2_header :: "byte \<Rightarrow> bytes \<Rightarrow> bytes" where
  \<comment> \<open>a version 2 header of the command PROXY with the given family byte and payload\<close>
  "v2_header family payload =
     v2sig @ [0x21, family, of_nat (length payload div 256), of_nat (length payload mod 256)] @ payload"

lemma be_word_pair:
  assumes "a < 256" and "b < 256"
  shows "(be_word [of_nat a, of_nat b] :: 16 word) = of_nat (256 * a + b)"
proof -
  let ?a = "of_nat a :: byte" and ?b = "of_nat b :: byte"
  have "(be_word [?a, ?b] :: 16 word) = push_bit 8 (ucast ?a) OR ucast ?b"
    by (simp add: be_word_def)
  also have "\<dots> = push_bit 8 (ucast ?a) + ucast ?b"
    by (rule disjunctive_add [symmetric]) (auto simp: bit_simps dest: bit_imp_le_length)
  also have "\<dots> = of_nat (256 * a + b)"
    using assms by (simp add: push_bit_eq_mult unsigned_of_nat take_bit_nat_eq_self mult.commute)
  finally show ?thesis .
qed

lemma be_word_length:
  "n < 65536 \<Longrightarrow> unat (be_word [of_nat (n div 256), of_nat (n mod 256)] :: 16 word) = n"
  by (subst be_word_pair) (auto simp: unat_of_nat)

lemma Read_v2:
  assumes "length payload \<le> maxV2"
  shows "Read (r\<lparr>rdata := v2_header family payload @ s\<rparr>) = (readV2_source family payload, r\<lparr>rdata := s\<rparr>)"
proof -
  let ?l = "[of_nat (length payload div 256), of_nat (length payload mod 256)] :: bytes"
  let ?h = "tl v2sig @ [0x21, family] @ ?l"
  have "length payload \<le> 512" using assms by (simp add: maxV2_def)
  then have len: "unat (be_word ?l :: 16 word) = length payload" by (intro be_word_length) simp
  have h: "v2_header family payload @ s = 0x0D # ?h @ payload @ s"
    by (simp add: v2_header_def v2sig_def)
  have 15: "length ?h = 15" and 12: "take 12 (0x0D # ?h) = v2sig" "(0x0D # ?h) ! 12 = 0x21"
      "(0x0D # ?h) ! 13 = family" "take 2 (drop 14 (0x0D # ?h)) = ?l"
    by (simp_all add: v2sig_def)
  have "ReadFull (r\<lparr>rdata := ?h @ payload @ s\<rparr>) 15 = (Inr ?h, r\<lparr>rdata := payload @ s\<rparr>)"
    by (rule ReadFull_append [OF 15])
  moreover have "ReadFull (r\<lparr>rdata := payload @ s\<rparr>) (length payload) = (Inr payload, r\<lparr>rdata := s\<rparr>)"
    by (simp add: ReadFull_append)
  ultimately have "readV2 (r\<lparr>rdata := ?h @ payload @ s\<rparr>) 0x0D = (readV2_source family payload, r\<lparr>rdata := s\<rparr>)"
    unfolding readV2_def using assms by (simp only: 12 Let_def len prod.case sum.case) simp
  moreover have "ReadFull (r\<lparr>rdata := v2_header family payload @ s\<rparr>) 1 = (Inr [0x0D], r\<lparr>rdata := ?h @ payload @ s\<rparr>)"
    unfolding h by (simp add: ReadFull_def)
  ultimately show ?thesis by (simp add: Read_def)
qed

section \<open>The list of trusted proxies\<close>

lemma Trusted_iff: "Trusted ps a \<longleftrightarrow> (\<exists>p \<in> set ps. Contains p a)"
  by (induction ps) auto

definition trusted_prefix :: "string \<Rightarrow> ip_prefix result" where
  \<comment> \<open>the prefix one entry adds\<close>
  "trusted_prefix t =
     (case ParseAddr (TrimSpace t) of
        Inr a \<Rightarrow> Inr (PrefixFrom (Unmap a) (BitLen a))
      | Inl _ \<Rightarrow> (case ParsePrefix (TrimSpace t) of Inl _ \<Rightarrow> Inl [Msg ''invalid trusted proxy'']
                   | Inr p \<Rightarrow> Inr (Masked p)))"

definition trusted_entry :: "string \<Rightarrow> addr \<Rightarrow> bool" where
  \<comment> \<open>whether an entry stands for a peer: an IPv4-mapped address stands for none\<close>
  "trusted_entry t a =
     (case ParseAddr (TrimSpace t) of
        Inr b \<Rightarrow> \<not> Is4In6 b \<and> \<not> hasZone a \<and> withoutZone b = a
      | Inl _ \<Rightarrow> (case ParsePrefix (TrimSpace t) of Inl _ \<Rightarrow> False
                   | Inr p \<Rightarrow> (\<exists>n. pbits p = Some n \<and> in_block (pip p) n a)))"

lemma ParseCIDRs_loop_cases:
  "ParseCIDRs_loop ts ps =
     (if list_all (\<lambda>t. is_ok (trusted_prefix t)) ts
      then Inr (ps @ map (\<lambda>t. projr (trusted_prefix t)) ts) else Inl [Msg ''invalid trusted proxy''])"
  by (induction ts arbitrary: ps) (auto simp: trusted_prefix_def is_ok_def Let_def split: sum.split)

lemma is_ok_trusted_prefix:
  "is_ok (trusted_prefix t) \<longleftrightarrow> is_ok (ParseAddr (TrimSpace t)) \<or> is_ok (ParsePrefix (TrimSpace t))"
  by (simp add: trusted_prefix_def is_ok_def split: sum.split)

lemma Contains_trusted_mapped: "Is4In6 b \<Longrightarrow> \<not> Contains (PrefixFrom (Unmap b) (BitLen b)) a"
  by (cases b) (auto simp: PrefixFrom_def Contains_def)

lemma Unmap_id [simp]: "\<not> Is4In6 b \<Longrightarrow> Unmap b = b"
  by (cases b) auto

lemma Contains_trusted_prefix:
  assumes "is_ok (trusted_prefix t)"
  shows "Contains (projr (trusted_prefix t)) a \<longleftrightarrow> trusted_entry t a"
proof (cases "ParseAddr (TrimSpace t)")
  case (Inr b)
  then show ?thesis
    using ParseAddr_valid [OF Inr]
    by (cases "Is4In6 b")
       (auto simp: trusted_prefix_def trusted_entry_def Contains_trusted_mapped Contains_PrefixFrom in_block_full)
next
  case (Inl e)
  with assms obtain p where p: "ParsePrefix (TrimSpace t) = Inr p"
    by (auto simp: trusted_prefix_def is_ok_def split: sum.splits)
  with Inl Contains_Masked [OF ParsePrefix_wf(1) [OF p]] Contains_iff [OF ParsePrefix_wf(1) [OF p]]
  show ?thesis by (simp add: trusted_prefix_def trusted_entry_def)
qed

section \<open>Properties\<close>


text \<open>The source of a version 1 header. A header of at most 108 bytes whose source text is an
  address of the announced family gives this address, unmapped; a source of the other family is
  refused. The bytes after the line end stay in the stream.\<close>

theorem proxy_v1_source:
  assumes "v1_word src" "v1_word dst" "v1_word sport" "v1_word dport" and "ParseAddr src = Inr a"
    and "length (v1_header (if wide then ''TCP6'' else ''TCP4'') src dst sport dport) + 2 \<le> maxV1"
  shows "Read (r\<lparr>rdata := bytes_of (v1_header (if wide then ''TCP6'' else ''TCP4'') src dst sport dport) @ [0x0D, 0x0A] @ s\<rparr>) =
     (if Is6 a = wide then Inr (Unmap a) else Inl [Msg ''invalid PROXY v1 source''], r\<lparr>rdata := s\<rparr>)"
proof -
  let ?p = "if wide then ''TCP6'' else ''TCP4''"
  have p: "v1_word ?p" by (simp add: v1_word_def)
  have "Is4 a \<longleftrightarrow> \<not> Is6 a" using ParseAddr_valid [OF assms(5)] by (cases a) (auto simp: IsValid_def)
  with readV1_line_header [OF p assms(1-4)] assms(5) Read_v1 [OF p assms(1-4,6), where r = r and s = s]
  show ?thesis by simp
qed

theorem proxy_v1_source_witness:
  "Read (bytes_NewReader (bytes_of (v1_header ''TCP4'' ''203.0.113.7'' ''10.0.0.1'' ''56324'' ''25565'') @ [0x0D, 0x0A, 0x10])) =
     (Inr (Addr4 0xCB007107), bytes_NewReader [0x10])"
proof -
  have a: "ParseAddr ''203.0.113.7'' = Inr (Addr4 0xCB007107)" by code_simp
  show ?thesis
    using proxy_v1_source [OF _ _ _ _ a, where wide = False and r = "bytes_NewReader []" and s = "[0x10]"
        and dst = "''10.0.0.1''" and sport = "''56324''" and dport = "''25565''"]
    by (simp add: v1_word_def v1_header_def maxV1_def bytes_NewReader_def)
qed

text \<open>The source of a version 2 header. With an address block of the family and any further
  type-length-value bytes, at most 512 in all, the source is the first four or sixteen bytes in
  network order, and what follows the header stays in the stream.\<close>

theorem proxy_v2_source:
  assumes "length (src @ rest) \<le> maxV2"
    and "if wide then length src = 16 \<and> 20 \<le> length rest else length src = 4 \<and> 8 \<le> length rest"
  shows "Read (r\<lparr>rdata := v2_header (if wide then 0x21 else 0x11) (src @ rest) @ s\<rparr>) =
     (Inr (if wide then Addr6 (be_word src) [] else Addr4 (be_word src)), r\<lparr>rdata := s\<rparr>)"
  using assms(2) Read_v2 [OF assms(1), where r = r and s = s]
  by (auto simp: readV2_source_def split: if_splits)

theorem proxy_v2_source_witness:
  "Read (bytes_NewReader (v2_header 0x11 ([203, 0, 113, 7] @ [10, 0, 0, 1, 0xDC, 4, 0x63, 0xDD]) @ [0x10])) =
     (Inr (Addr4 0xCB007107), bytes_NewReader [0x10])"
proof -
  have "(be_word [203, 0, 113, 7] :: 32 word) = 0xCB007107" by (simp add: be_word_def push_bit_eq_mult)
  then show ?thesis
    using proxy_v2_source [where wide = False and src = "[203, 0, 113, 7]" and rest = "[10, 0, 0, 1, 0xDC, 4, 0x63, 0xDD]"
        and r = "bytes_NewReader []" and s = "[0x10]"]
    by (simp add: maxV2_def bytes_NewReader_def)
qed

text \<open>C33: the trusted proxies. The list is refused exactly for an entry that is neither an address
  nor a prefix; otherwise a peer is trusted when an entry stands for it. An entry written as an
  IPv4-mapped IPv6 address stands for no peer: its prefix has 128 bits on an IPv4 address.\<close>

theorem trusted_proxies_decide:
  "case ParseCIDRs ts of
     Inl e \<Rightarrow> \<exists>t \<in> set ts. \<not> (is_ok (ParseAddr (TrimSpace t)) \<or> is_ok (ParsePrefix (TrimSpace t)))
   | Inr ps \<Rightarrow> Trusted ps a = (\<exists>t \<in> set ts. trusted_entry t a)"
proof (cases "list_all (\<lambda>t. is_ok (trusted_prefix t)) ts")
  case True
  then show ?thesis
    by (auto simp: ParseCIDRs_def ParseCIDRs_loop_cases Trusted_iff list_all_iff Contains_trusted_prefix)
next
  case False
  then show ?thesis
    by (auto simp: ParseCIDRs_def ParseCIDRs_loop_cases list_all_iff is_ok_trusted_prefix)
qed

text \<open>A version 2 header that carries an IPv4-mapped source is answered with the mapped address,
  which no IPv4 prefix of a client policy contains: an IPv4 deny entry does not stop a client that a
  trusted proxy announces this way.\<close>

theorem proxy_v2_mapped_source:
  assumes "length src = 16" and "20 \<le> length rest" and "length (src @ rest) \<le> maxV2"
    and "Is4In6 (Addr6 (be_word src) [])" and "Is4 (pip p)"
  shows "\<exists>a. Read (r\<lparr>rdata := v2_header 0x21 (src @ rest) @ s\<rparr>) = (Inr a, r\<lparr>rdata := s\<rparr>) \<and>
     Is4In6 a \<and> \<not> Contains p a"
proof -
  have "Read (r\<lparr>rdata := v2_header 0x21 (src @ rest) @ s\<rparr>) = (Inr (Addr6 (be_word src) []), r\<lparr>rdata := s\<rparr>)"
    using assms Read_v2 [OF assms(3), where r = r and s = s] by (simp add: readV2_source_def)
  moreover have "\<not> Contains p (Addr6 (be_word src) [])"
    using assms(5) Contains_family by (cases "pip p") fastforce+
  ultimately show ?thesis using assms(4) by blast
qed

theorem proxy_v2_mapped_source_witness:
  "\<exists>a. Read (bytes_NewReader (v2_header 0x21 ([0, 0, 0, 0, 0, 0, 0, 0, 0, 0, 255, 255, 10, 0, 0, 1] @ replicate 20 0))) =
       (Inr a, bytes_NewReader []) \<and>
     \<not> Contains (PrefixFrom (Addr4 0x0A000000) 8) a \<and> Contains (PrefixFrom (Addr4 0x0A000000) 8) (Addr4 0x0A000001)"
proof -
  have "(be_word [0, 0, 0, 0, 0, 0, 0, 0, 0, 0, 255, 255, 10, 0, 0, 1] :: 128 word) = 0xFFFF0A000001"
    by (simp add: be_word_def push_bit_eq_mult)
  then show ?thesis
    using proxy_v2_mapped_source [where src = "[0, 0, 0, 0, 0, 0, 0, 0, 0, 0, 255, 255, 10, 0, 0, 1]" and rest = "replicate 20 0"
        and r = "bytes_NewReader []" and s = "[]" and p = "PrefixFrom (Addr4 0x0A000000) 8"] mapped_sample_Is4In6
    by (auto simp: bytes_NewReader_def maxV2_def PrefixFrom_def Contains_def drop_bit_eq_div)
qed

end
