(* ===== verification/Hostaddr.thy ===== *)
theory Hostaddr
  imports GoNet
begin

text \<open>
  The package \<open>internal/hostaddr\<close>: the normal form of a host name or IP address that routing keys,
  configured hosts and discovered hosts are compared in.
\<close>

definition MaxHostBytes :: nat where
  "MaxHostBytes = 253"

definition label_char :: "char \<Rightarrow> bool" where
  "label_char c \<longleftrightarrow>
     (CHR ''a'' \<le> c \<and> c \<le> CHR ''z'') \<or> (CHR ''0'' \<le> c \<and> c \<le> CHR ''9'') \<or> c = CHR ''-''"

text \<open>The body of the loop over the labels; \<open>None\<close> goes on with the next label.\<close>

definition check_label :: "string \<Rightarrow> error option" where
  "check_label label =
     (if length label = 0 then Some [ErrInvalid, Msg ''empty label'']
      else if length label > 63 then Some [ErrInvalid, Msg ''label length exceeds 63'']
      else if label ! 0 = CHR ''-'' \<or> label ! (length label - 1) = CHR ''-''
      then Some [ErrInvalid, Msg ''label starts or ends with hyphen'']
      else if list_all label_char label then None
      else Some [ErrInvalid, Msg ''unsupported character''])"

fun check_labels :: "string list \<Rightarrow> error option" where
  "check_labels [] = None"
| "check_labels (l # ls) = (case check_label l of Some e \<Rightarrow> Some e | None \<Rightarrow> check_labels ls)"

definition Normalize :: "string \<Rightarrow> string result" where
  "Normalize address =
     (let first = (case IndexByte address (CHR 0x00) of Some idx \<Rightarrow> take idx address | None \<Rightarrow> address);
          normalized = TrimSuffix (ToLower (TrimSpace first)) ''.''
      in if normalized = [] then Inl [ErrInvalid, Msg ''empty'']
         else if length normalized > MaxHostBytes then Inl [ErrInvalid, Msg ''length exceeds 253'']
         else if \<not> utf8_Valid (bytes_of normalized) then Inl [ErrInvalid, Msg ''not valid utf-8'']
         else let ipCandidate = TrimPrefix (TrimSuffix normalized '']'') ''['' in
           if ParseIP ipCandidate \<noteq> None then Inr ipCandidate
           else (case check_labels (Split normalized (CHR ''.'')) of
                   Some e \<Rightarrow> Inl e
                 | None \<Rightarrow> Inr normalized))"

section \<open>What the normal form looks like\<close>

definition valid_label :: "string \<Rightarrow> bool" where
  "valid_label l \<longleftrightarrow> check_label l = None"

definition dns_name :: "string \<Rightarrow> bool" where
  "dns_name n \<longleftrightarrow> length n \<le> MaxHostBytes \<and> list_all valid_label (Split n (CHR ''.''))"

definition canonical_host :: "string \<Rightarrow> bool" where
  "canonical_host n \<longleftrightarrow> length n \<le> MaxHostBytes \<and> (\<forall>c \<in> set n. lower_plain c) \<and>
     (ParseIP n \<noteq> None \<or> dns_name n)"

lemma check_labels_None: "check_labels ls = None \<longleftrightarrow> list_all valid_label ls"
  by (induction ls) (auto simp: valid_label_def split: option.splits)

lemma valid_label_iff:
  "valid_label l \<longleftrightarrow> l \<noteq> [] \<and> length l \<le> 63 \<and> hd l \<noteq> CHR ''-'' \<and> last l \<noteq> CHR ''-'' \<and>
     list_all label_char l"
  by (auto simp: valid_label_def check_label_def hd_conv_nth last_conv_nth)

lemma check_labels_Some: "check_labels ls = Some e \<Longrightarrow> errors_Is e ErrInvalid"
  by (induction ls) (auto simp: check_label_def errors_Is_def split: option.splits if_splits)

lemma char_le_iff: "a \<le> b \<longleftrightarrow> (of_char a :: nat) \<le> of_char b"
  by (simp add: less_eq_char_def)

lemma label_char_lower_plain: "label_char c \<Longrightarrow> lower_plain c"
  by (auto simp: label_char_def lower_plain_def plain_char_def lower_char_def char_le_iff)

lemma label_char_not_special:
  "label_char c \<Longrightarrow> c \<noteq> CHR ''.'' \<and> c \<noteq> CHR ''['' \<and> c \<noteq> CHR '']'' \<and> c \<noteq> CHR '':'' \<and> c \<noteq> CHR 0x00"
  by (auto simp: label_char_def char_le_iff)

lemma dns_name_char:
  assumes "dns_name n" and "c \<in> set n" shows "c = CHR ''.'' \<or> label_char c"
proof -
  from assms(2) have "c \<in> insert (CHR ''.'') (\<Union>l \<in> set (Split n (CHR ''.'')). set l)"
    using Split_concat_set by blast
  then show ?thesis
    using assms(1) by (auto simp: dns_name_def list_all_iff valid_label_iff)
qed

lemma dns_name_nonempty: "dns_name n \<Longrightarrow> n \<noteq> []"
  by (auto simp: dns_name_def valid_label_iff)

lemma dns_name_last: "dns_name n \<Longrightarrow> last n \<noteq> CHR ''.''"
proof
  assume d: "dns_name n" and l: "last n = CHR ''.''"
  have "[] \<in> set (Split n (CHR ''.''))"
    using Split_last_sep [OF dns_name_nonempty [OF d] l] .
  with d show False by (auto simp: dns_name_def list_all_iff valid_label_iff)
qed

lemma dns_name_host_port_free: "dns_name n \<Longrightarrow> host_port_free n"
  using dns_name_char label_char_not_special by (auto simp: host_port_free_def)

lemma dns_name_lower_plain: "dns_name n \<Longrightarrow> c \<in> set n \<Longrightarrow> lower_plain c"
  using dns_name_char label_char_lower_plain
  by (fastforce simp: lower_plain_def plain_char_def lower_char_def)

section \<open>Characters of textual IP addresses\<close>

definition ip_char :: "char \<Rightarrow> bool" where
  "ip_char c \<longleftrightarrow> hex_val c \<noteq> None \<or> c = CHR '':'' \<or> c = CHR ''.''"

lemma digit_ip_char: "is_digit c \<Longrightarrow> ip_char c \<and> c \<noteq> CHR ''.''"
  by (auto simp: is_digit_def ip_char_def hex_val_def Let_def)

lemma hex_ip_char: "hex_val c = Some d \<Longrightarrow> ip_char c \<and> c \<noteq> CHR ''.''"
  by (auto simp: ip_char_def hex_val_def Let_def split: if_splits)

lemma parseIPv4Fields_chars:
  "parseIPv4Fields s v dl fs = Some r \<Longrightarrow>
     (\<forall>c \<in> set s. ip_char c) \<and> (s \<noteq> [] \<longrightarrow> last s \<noteq> CHR ''.'')"
proof (induction s v dl fs rule: parseIPv4Fields.induct)
  case (2 c s v dl fs)
  then show ?case
    by (auto simp: ip_char_def split: if_splits dest: digit_ip_char)
qed simp

lemma parseIPv4Fields_nonempty: "parseIPv4Fields s v dl [] = Some r \<Longrightarrow> s \<noteq> []"
  by (cases s) auto

lemma hex_run_chars:
  "hex_run s off acc = Some (off', acc', r) \<Longrightarrow>
     \<exists>p. s = p @ r \<and> (\<forall>c \<in> set p. ip_char c \<and> c \<noteq> CHR ''.'') \<and> off' = off + length p"
proof (induction s off acc rule: hex_run.induct)
  case (2 c s off acc)
  show ?case
  proof (cases "hex_val c")
    case None
    with "2.prems" show ?thesis by simp
  next
    case (Some d)
    with "2.prems" have "hex_run s (Suc off) (acc * 16 + d) = Some (off', acc', r)" and "\<not> off > 3"
      by (auto split: if_splits)
    with "2.IH" Some obtain p where "s = p @ r" "\<forall>c \<in> set p. ip_char c \<and> c \<noteq> CHR ''.''" "off' = Suc off + length p"
      by blast
    with Some hex_ip_char have "c # s = (c # p) @ r \<and> (\<forall>x \<in> set (c # p). ip_char x \<and> x \<noteq> CHR ''.'') \<and> off' = off + length (c # p)"
      by auto
    then show ?thesis by blast
  qed
qed simp

definition ip_text :: "string \<Rightarrow> bool" where
  "ip_text s \<longleftrightarrow> (\<forall>c \<in> set s. ip_char c) \<and> (s \<noteq> [] \<longrightarrow> last s \<noteq> CHR ''.'')"

lemma ip_text_append: "(\<forall>c \<in> set p. ip_char c \<and> c \<noteq> CHR ''.'') \<Longrightarrow> ip_text s \<Longrightarrow> ip_text (p @ s)"
  by (cases "s = []") (auto simp: ip_text_def)

lemma parseIPv6_loop_step:
  "length ip < 16 \<Longrightarrow> hex_run s 0 0 = Some (off, acc, r) \<Longrightarrow> off \<noteq> 0 \<Longrightarrow> take 1 r \<noteq> ''.'' \<Longrightarrow>
     parseIPv6_loop s ip ell =
       (case r of
          [] \<Rightarrow> Some ([], ip @ [acc div 256, acc mod 256], ell)
        | c # r1 \<Rightarrow>
            if c \<noteq> CHR '':'' \<or> r1 = [] then None
            else if take 1 r1 = '':'' then
              (if ell \<noteq> None then None
               else if drop 1 r1 = [] then
                 Some ([], ip @ [acc div 256, acc mod 256], Some (length ip + 2))
               else parseIPv6_loop (drop 1 r1) (ip @ [acc div 256, acc mod 256]) (Some (length ip + 2)))
            else parseIPv6_loop r1 (ip @ [acc div 256, acc mod 256]) ell)"
  by (subst parseIPv6_loop.simps) simp

lemma parseIPv6_loop_dot:
  "length ip < 16 \<Longrightarrow> hex_run s 0 0 = Some (off, acc, r) \<Longrightarrow> take 1 r = ''.'' \<Longrightarrow>
     parseIPv6_loop s ip ell = Some z \<Longrightarrow> \<exists>f. parseIPv4Fields s 0 0 [] = Some f"
  by (subst (asm) parseIPv6_loop.simps) (simp split: if_splits option.splits)

lemma parseIPv6_loop_run:
  assumes "length ip < 16" and "parseIPv6_loop s ip ell = Some z"
  shows "\<exists>off acc r. hex_run s 0 0 = Some (off, acc, r) \<and> off \<noteq> 0"
proof -
  have "hex_run s 0 0 \<noteq> None"
    using assms by (subst (asm) parseIPv6_loop.simps) (cases "hex_run s 0 0"; simp)
  then obtain off acc r where run: "hex_run s 0 0 = Some (off, acc, r)" by auto
  then have "off \<noteq> 0"
    using assms by (subst (asm) parseIPv6_loop.simps) (cases off; simp)
  with run show ?thesis by blast
qed

lemma parseIPv6_loop_chars:
  "parseIPv6_loop s ip ell = Some ([], ip', ell') \<Longrightarrow> ip_text s"
proof (induction "16 - length ip" arbitrary: s ip ell rule: less_induct)
  case (less ip s ell)
  show ?case
  proof (cases "length ip < 16")
    case False
    with less.prems show ?thesis by (simp add: parseIPv6_loop.simps [of s ip ell] ip_text_def)
  next
    case len: True
    obtain off acc r where run: "hex_run s 0 0 = Some (off, acc, r)" and off: "off \<noteq> 0"
      using parseIPv6_loop_run [OF len less.prems] by blast
    obtain p where p: "s = p @ r" "\<forall>c \<in> set p. ip_char c \<and> c \<noteq> CHR ''.''"
      using hex_run_chars [OF run] by auto
    have IH: "ip_text t" if "parseIPv6_loop t (ip @ [acc div 256, acc mod 256]) e = Some ([], ip', ell')" for t e
      using less.hyps [OF _ that] len by simp
    have colon: "ip_text t \<Longrightarrow> ip_text (CHR '':'' # t)" for t
      using ip_text_append [of "'':''" t] by (simp add: ip_char_def)
    consider (dot) "take 1 r = ''.''" | (nil) "r = []" | (cons) c r1 where "r = c # r1" "take 1 r \<noteq> ''.''"
      by (cases r) auto
    then show ?thesis
    proof cases
      case dot
      then obtain f where "parseIPv4Fields s 0 0 [] = Some f"
        using parseIPv6_loop_dot [OF len run _ less.prems] by blast
      from parseIPv4Fields_chars [OF this] show ?thesis by (simp add: ip_text_def)
    next
      case nil
      with p show ?thesis
        using ip_text_append [of p "[]"] by (simp add: ip_text_def)
    next
      case cons
      note step = less.prems [unfolded parseIPv6_loop_step [OF len run off cons(2)] cons(1) list.case]
      from step have c: "c = CHR '':''" by (simp split: if_splits)
      have "ip_text r1"
      proof (cases "take 1 r1 = '':''")
        case True
        then obtain r2 where r1: "r1 = CHR '':'' # r2" by (cases r1) auto
        have "ip_text r2"
          using step r1 c IH by (cases "r2 = []") (auto simp: ip_text_def split: if_splits)
        with r1 colon show ?thesis by simp
      next
        case False
        with step c show ?thesis by (auto intro: IH split: if_splits)
      qed
      with p cons c colon show ?thesis using ip_text_append by auto
    qed
  qed
qed

lemma parseIPv6_finish_Some:
  "parseIPv6_finish z res = Some a \<Longrightarrow> (\<exists>ip ell. res = Some ([], ip, ell)) \<and> (\<exists>w. a = Addr6 w z)"
  by (auto simp: parseIPv6_finish_def split: option.splits if_splits)

lemma parseIPv6_body_Some:
  assumes "parseIPv6_body s z = Some a" shows "ip_text s" and "\<exists>w. a = Addr6 w z"
proof -
  have colons: "ip_text t \<Longrightarrow> ip_text (''::'' @ t)" for t
    by (rule ip_text_append) (auto simp: ip_char_def)
  have split: "take 2 s = ''::'' \<Longrightarrow> s = ''::'' @ drop 2 s"
    by (metis append_take_drop_id)
  show "ip_text s"
  proof (cases "take 2 s = ''::''")
    case True
    have "ip_text (drop 2 s)"
    proof (cases "drop 2 s = []")
      case False
      with True assms obtain ip ell where "parseIPv6_loop (drop 2 s) [] (Some 0) = Some ([], ip, ell)"
        using parseIPv6_finish_Some by (force simp: parseIPv6_body_def)
      then show ?thesis by (rule parseIPv6_loop_chars)
    qed (simp add: ip_text_def)
    with colons split [OF True] show ?thesis by metis
  next
    case False
    with assms obtain ip ell where "parseIPv6_loop s [] None = Some ([], ip, ell)"
      using parseIPv6_finish_Some by (force simp: parseIPv6_body_def)
    then show ?thesis by (rule parseIPv6_loop_chars)
  qed
  show "\<exists>w. a = Addr6 w z"
    using assms parseIPv6_finish_Some
    by (auto simp: parseIPv6_body_def split: if_splits)
qed

lemma ParseIP_text: "ParseIP s = Some a \<Longrightarrow> s \<noteq> [] \<and> ip_text s"
proof -
  assume "ParseIP s = Some a"
  then have a: "ParseAddr s = Inr a" and z: "\<not> hasZone a"
    by (auto simp: ParseIP_def split: sum.splits if_splits)
  have "s \<noteq> []" using a by (auto simp: ParseAddr_def)
  moreover have "ip_text s"
  proof (cases "addr_family s = Some (CHR ''.'')")
    case True
    with a obtain f where "parseIPv4Fields s 0 0 [] = Some f"
      by (auto simp: ParseAddr_def parseIPv4_def split: option.splits)
    from parseIPv4Fields_chars [OF this] show ?thesis by (simp add: ip_text_def)
  next
    case False
    with a have p6: "parseIPv6 s = Some a"
      by (auto simp: ParseAddr_def split: option.splits if_splits)
    show ?thesis
    proof (cases "IndexByte s (CHR ''%'')")
      case None
      with p6 have "parseIPv6_body s [] = Some a" by (simp add: parseIPv6_def)
      then show ?thesis by (rule parseIPv6_body_Some)
    next
      case (Some i)
      with p6 have "drop (Suc i) s \<noteq> []" and "parseIPv6_body (take i s) (drop (Suc i) s) = Some a"
        by (auto simp: parseIPv6_def split: if_splits)
      with z parseIPv6_body_Some(2) show ?thesis by fastforce
    qed
  qed
  ultimately show ?thesis by simp
qed

section \<open>Normalisation\<close>

lemma ip_char_cases: "ip_char c \<Longrightarrow> plain_char c \<and> c \<noteq> CHR ''['' \<and> c \<noteq> CHR '']'' \<and> c \<noteq> CHR 0x00"
  by (auto simp: ip_char_def plain_char_def hex_val_def Let_def split: if_splits)

lemma lower_char_idem [simp]: "lower_char (lower_char c) = lower_char c"
  by (auto simp: lower_char_def)

lemma ToLower_lower: "c \<in> set (ToLower s) \<Longrightarrow> lower_char c = c"
  by (induction s rule: ToLower.induct) (auto split: if_splits, auto simp: lower_char_def)

lemma Normalize_lower_plain:
  assumes "\<forall>c \<in> set s. lower_plain c" and "s \<noteq> []" and "last s \<noteq> CHR ''.''"
    and "last s \<noteq> CHR '']''" and "hd s \<noteq> CHR ''[''" and "length s \<le> MaxHostBytes"
  shows "Normalize s = (if ParseIP s \<noteq> None then Inr s
     else case check_labels (Split s (CHR ''.'')) of Some e \<Rightarrow> Inl e | None \<Rightarrow> Inr s)"
proof -
  have plain: "\<forall>c \<in> set s. plain_char c" using assms(1) by (simp add: lower_plain_def)
  have "CHR 0x00 \<notin> set s" using plain by (auto simp: plain_char_def)
  moreover have "TrimSpace s = s" using plain by (rule TrimSpace_plain)
  moreover have "ToLower s = s" using assms(1) by (rule ToLower_lower_plain)
  moreover have "utf8_Valid (bytes_of s)"
  proof (rule utf8_Valid_ascii, intro ballI)
    fix b assume "b \<in> set (bytes_of s)"
    then obtain c where "c \<in> set s" and b: "b = byte_of_char c" by (auto simp: bytes_of_def)
    then have "of_char c < (128::nat)" using plain by (simp add: plain_char_def)
    then show "b < 0x80"
      by (simp add: b byte_of_char_def word_less_nat_alt unat_of_nat)
  qed
  moreover have "TrimSuffix s ''.'' = s" "TrimSuffix s '']'' = s" "TrimPrefix s ''['' = s"
    using assms by (simp_all add: TrimSuffix_singleton TrimPrefix_singleton)
  ultimately show ?thesis
    using assms by (simp add: Normalize_def Let_def split: option.split)
qed

lemma ip_text_canonical:
  assumes "ParseIP s = Some a" and "\<forall>c \<in> set s. lower_char c = c" and "length s \<le> MaxHostBytes"
  shows "Normalize s = Inr s" and "canonical_host s"
proof -
  have t: "s \<noteq> []" "ip_text s" using ParseIP_text [OF assms(1)] by auto
  then have chars: "\<forall>c \<in> set s. ip_char c" and "last s \<noteq> CHR ''.''" by (auto simp: ip_text_def)
  then have lp: "\<forall>c \<in> set s. lower_plain c" using assms(2) ip_char_cases by (auto simp: lower_plain_def)
  have "hd s \<in> set s" "last s \<in> set s" using t by auto
  with chars have "last s \<noteq> CHR '']''" "hd s \<noteq> CHR ''[''" using ip_char_cases by blast+
  with lp t assms \<open>last s \<noteq> CHR ''.''\<close> show "Normalize s = Inr s"
    by (simp add: Normalize_lower_plain)
  show "canonical_host s" using lp assms by (simp add: canonical_host_def)
qed

lemma dns_name_canonical:
  assumes "dns_name s" shows "Normalize s = Inr s" and "canonical_host s"
proof -
  have "s \<noteq> []" using assms by (rule dns_name_nonempty)
  then have "hd s \<in> set s" "last s \<in> set s" by auto
  then have "last s \<noteq> CHR '']''" "hd s \<noteq> CHR ''[''"
    using dns_name_host_port_free [OF assms] by (auto simp: host_port_free_def)
  moreover have "check_labels (Split s (CHR ''.'')) = None"
    using assms by (simp add: check_labels_None dns_name_def)
  moreover have lp: "\<forall>c \<in> set s. lower_plain c" using dns_name_lower_plain [OF assms] by blast
  moreover have len: "length s \<le> MaxHostBytes" using assms by (simp add: dns_name_def)
  ultimately show "Normalize s = Inr s"
    using \<open>s \<noteq> []\<close> dns_name_last [OF assms] by (simp add: Normalize_lower_plain)
  show "canonical_host s" using lp len assms by (simp add: canonical_host_def)
qed

lemma Normalize_cases:
  assumes "Normalize s = Inr n"
  shows "dns_name n \<or> (ParseIP n \<noteq> None \<and> (\<forall>c \<in> set n. lower_char c = c) \<and> length n \<le> MaxHostBytes)"
proof -
  define f where "f = (case IndexByte s (CHR 0x00) of Some idx \<Rightarrow> take idx s | None \<Rightarrow> s)"
  define m where "m = TrimSuffix (ToLower (TrimSpace f)) ''.''"
  define c where "c = TrimPrefix (TrimSuffix m '']'') ''[''"
  have n: "length m \<le> MaxHostBytes" "(ParseIP c \<noteq> None \<and> n = c) \<or>
      (ParseIP c = None \<and> check_labels (Split m (CHR ''.'')) = None \<and> n = m)"
    using assms unfolding Normalize_def Let_def f_def [symmetric] m_def [symmetric] c_def [symmetric]
    by (auto split: if_splits option.splits)
  have "set m \<subseteq> set (ToLower (TrimSpace f))"
    by (auto simp: m_def TrimSuffix_singleton dest: in_set_butlastD)
  moreover have "set c \<subseteq> set m" "length c \<le> length m"
    by (auto simp: c_def TrimSuffix_singleton TrimPrefix_singleton dest: in_set_butlastD list.set_sel(2))
  ultimately have "\<forall>x \<in> set c. lower_char x = x" "length c \<le> MaxHostBytes"
    using ToLower_lower n(1) by (blast, linarith)
  with n show ?thesis by (auto simp: check_labels_None dns_name_def)
qed

lemma Normalize_canonical: "Normalize s = Inr n \<Longrightarrow> canonical_host n"
  using Normalize_cases dns_name_canonical ip_text_canonical by blast

lemma Normalize_idem: "Normalize s = Inr n \<Longrightarrow> Normalize n = Inr n"
  using Normalize_cases dns_name_canonical ip_text_canonical by blast

lemma Normalize_nonempty: "Normalize s = Inr n \<Longrightarrow> n \<noteq> []"
  using Normalize_cases dns_name_nonempty ParseIP_text by blast

lemma Normalize_error: "Normalize s = Inl e \<Longrightarrow> errors_Is e ErrInvalid"
  by (auto simp: Normalize_def Let_def errors_Is_def split: if_splits option.splits
      dest!: check_labels_Some)

lemma Normalize_NUL: "CHR 0x00 \<notin> set s \<Longrightarrow> Normalize (s @ CHR 0x00 # junk) = Normalize s"
  by (simp add: Normalize_def IndexByte_append)

section \<open>Properties\<close>

text \<open>C35: a server address either is refused with \<open>ErrInvalid\<close>, or normalises to a canonical host (at
  most 253 bytes, lower case, an IP literal or a dot-separated name of valid DNS labels), which
  normalises to itself.\<close>

theorem Normalize_correct:
  "case Normalize s of
     Inl e \<Rightarrow> errors_Is e ErrInvalid
   | Inr n \<Rightarrow> canonical_host n \<and> n \<noteq> [] \<and> Normalize n = Inr n"
  by (auto split: sum.split intro: Normalize_error Normalize_canonical Normalize_idem
      dest: Normalize_nonempty)

text \<open>What a modded client appends after a NUL byte does not change the route: the address up to
  the NUL decides.\<close>

theorem Normalize_marker:
  "CHR 0x00 \<notin> set s \<Longrightarrow> Normalize (s @ CHR 0x00 # junk) = Normalize s"
  by (rule Normalize_NUL)

theorem Normalize_marker_witness:
  "Normalize (''mc.example.com'' @ CHR 0x00 # ''FML2'') = Inr ''mc.example.com''"
proof -
  have "dns_name ''mc.example.com''" by code_simp
  then show ?thesis
    using Normalize_marker [of "''mc.example.com''" "''FML2''"]
      dns_name_canonical(1) [of "''mc.example.com''"] by simp
qed

end
