(* ===== verification/Bedrockroute.thy ===== *)
theory Bedrockroute
  imports Hostaddr
begin

text \<open>
  Bedrock Edition routing by requested host: \<open>internal/bedrockroute/host.go\<close> (normalisation of a
  host that may carry a port) and \<open>router.go\<close> (the table of hosts and the selection).
\<close>

section \<open>Hosts\<close>

definition Cut1 :: "string \<Rightarrow> char \<Rightarrow> string \<times> string \<times> bool" where
  \<comment> \<open>\<open>strings.Cut\<close> at a separator of one byte\<close>
  "Cut1 s c = (case IndexByte s c of None \<Rightarrow> (s, '''', False) | Some i \<Rightarrow> (take i s, drop (Suc i) s, True))"

definition NormalizeHost :: "string \<Rightarrow> string result" where
  "NormalizeHost value0 =
     (let value = TrimSpace value0 in
      if value = '''' then Inl [Msg ''must not be empty'']
      else
        let host =
          (case SplitHostPort value of
             Inr (splitHost, _) \<Rightarrow> splitHost
           | Inl _ \<Rightarrow>
               if length (filter (\<lambda>c. c = CHR '':'') value) = 1 then
                 (let (before, after, ok) = Cut1 value (CHR '':'') in
                  if ok \<and> before \<noteq> '''' \<and> after \<noteq> '''' then before else value)
               else value)
        in if TrimSpace host = '''' then Inl [Msg ''host must not be empty'']
           else (case Normalize host of Inl e \<Rightarrow> Inl e | Inr normalized \<Rightarrow> Inr normalized))"

section \<open>The router\<close>

record BRoute =
  brName :: string
  brHosts :: "string list"
  brBackend :: string

record BSelection =
  bsRouteName :: string
  bsBackend :: string
  bsMatched :: bool

record BRouter =
  brDefaultBackend :: string
  brTable :: "(string, BSelection) gomap"

fun NewRouter_hosts :: "BRoute \<Rightarrow> string list \<Rightarrow> (string, BSelection) gomap \<Rightarrow> (string, BSelection) gomap result" where
  "NewRouter_hosts route [] hosts = Inr hosts"
| "NewRouter_hosts route (rawHost # rawHosts) hosts =
     (case NormalizeHost rawHost of
        Inl e \<Rightarrow> Inl e
      | Inr host \<Rightarrow>
          (case gm_get hosts host of
             Some existing \<Rightarrow> Inl [Msg ''host duplicates route'']
           | None \<Rightarrow> NewRouter_hosts route rawHosts
               (gm_set hosts host \<lparr>bsRouteName = brName route, bsBackend = brBackend route, bsMatched = True\<rparr>)))"

fun NewRouter_routes :: "BRoute list \<Rightarrow> (string, BSelection) gomap \<Rightarrow> (string, BSelection) gomap result" where
  "NewRouter_routes [] hosts = Inr hosts"
| "NewRouter_routes (route # routes) hosts =
     (case NewRouter_hosts route (brHosts route) hosts of
        Inl e \<Rightarrow> Inl e
      | Inr hosts' \<Rightarrow> NewRouter_routes routes hosts')"

definition NewRouter :: "string \<Rightarrow> BRoute list \<Rightarrow> BRouter result" where
  "NewRouter defaultBackend routes =
     (case NewRouter_routes routes [] of
        Inl e \<Rightarrow> Inl e
      | Inr hosts \<Rightarrow> Inr \<lparr>brDefaultBackend = defaultBackend, brTable = hosts\<rparr>)"

definition Bedrock_Select :: "BRouter option \<Rightarrow> string \<Rightarrow> BSelection" where
  \<comment> \<open>\<open>None\<close> is the nil router\<close>
  "Bedrock_Select r requestedHost =
     (case r of
        None \<Rightarrow> \<lparr>bsRouteName = '''', bsBackend = '''', bsMatched = False\<rparr>
      | Some router \<Rightarrow>
          (case (case NormalizeHost requestedHost of Inl _ \<Rightarrow> None | Inr host \<Rightarrow> gm_get (brTable router) host) of
             Some selection \<Rightarrow> selection
           | None \<Rightarrow> \<lparr>bsRouteName = ''default'', bsBackend = brDefaultBackend router, bsMatched = False\<rparr>))"

section \<open>The host table\<close>

definition selection_of :: "BRoute \<Rightarrow> BSelection" where
  "selection_of rt = \<lparr>bsRouteName = brName rt, bsBackend = brBackend rt, bsMatched = True\<rparr>"

definition claims :: "BRoute list \<Rightarrow> (string result \<times> BSelection) list" where
  \<comment> \<open>the hosts the routes claim, normalised, in the order of the configuration\<close>
  "claims rts = concat (map (\<lambda>rt. map (\<lambda>h. (NormalizeHost h, selection_of rt)) (brHosts rt)) rts)"

definition consistent :: "BRoute list \<Rightarrow> bool" where
  "consistent rts \<longleftrightarrow> list_all is_ok (map fst (claims rts)) \<and> distinct (map fst (claims rts))"

fun claim_all :: "(string result \<times> BSelection) list \<Rightarrow> (string, BSelection) gomap \<Rightarrow> (string, BSelection) gomap result" where
  \<comment> \<open>the two loops of \<open>NewRouter\<close> as one\<close>
  "claim_all [] m = Inr m"
| "claim_all ((k, v) # cs) m =
     (case k of
        Inl e \<Rightarrow> Inl e
      | Inr h \<Rightarrow> (case gm_get m h of Some _ \<Rightarrow> Inl [Msg ''host duplicates route''] | None \<Rightarrow> claim_all cs (gm_set m h v)))"

lemma claim_all_append:
  "claim_all (a @ b) m = (case claim_all a m of Inl e \<Rightarrow> Inl e | Inr m' \<Rightarrow> claim_all b m')"
  by (induction a m rule: claim_all.induct) (auto split: sum.split option.split)

lemma NewRouter_hosts_claim:
  "NewRouter_hosts rt hs m = claim_all (map (\<lambda>h. (NormalizeHost h, selection_of rt)) hs) m"
  by (induction hs arbitrary: m) (auto simp: selection_of_def split: sum.split option.split)

lemma NewRouter_routes_claim: "NewRouter_routes rts m = claim_all (claims rts) m"
  by (induction rts arbitrary: m)
     (auto simp: claims_def NewRouter_hosts_claim claim_all_append split: sum.split)

lemma gm_set_new: "gm_get m k = None \<Longrightarrow> gm_set m k v = m @ [(k, v)]"
  by (induction m) (auto split: if_splits)

lemma claim_all_Inr:
  "distinct (map fst m) \<Longrightarrow>
   claim_all cs m = Inr m' \<longleftrightarrow>
     list_all is_ok (map fst cs) \<and> distinct (map fst m @ map (projr \<circ> fst) cs) \<and>
     m' = m @ map (\<lambda>(h, sel). (projr h, sel)) cs"
proof (induction cs m rule: claim_all.induct)
  case (2 k v cs m)
  show ?case
  proof (cases k)
    case (Inr h)
    show ?thesis
    proof (cases "gm_get m h")
      case None
      then have "h \<notin> fst ` set m" by (simp add: map_of_eq_None_iff)
      with 2 Inr None show ?thesis by (auto simp: gm_set_new is_ok_def)
    next
      case (Some s)
      then have "h \<in> set (map fst m)" by (force dest: map_of_SomeD)
      with Inr Some show ?thesis by auto
    qed
  qed (simp add: is_ok_def)
qed auto

lemma distinct_projr: "list_all is_ok ks \<Longrightarrow> distinct (map projr ks) \<longleftrightarrow> distinct (ks :: 'a result list)"
  by (induction ks) (auto simp: is_ok_def list_all_iff split: sum.splits, force+)

lemma NewRouter_Inr:
  "NewRouter d rts = Inr r \<longleftrightarrow>
     consistent rts \<and> r = \<lparr>brDefaultBackend = d, brTable = map (\<lambda>(h, sel). (projr h, sel)) (claims rts)\<rparr>"
proof -
  have "NewRouter_routes rts [] = Inr m \<longleftrightarrow>
      consistent rts \<and> m = map (\<lambda>(h, sel). (projr h, sel)) (claims rts)" for m
    using claim_all_Inr [of "[]" "claims rts" m] distinct_projr [of "map fst (claims rts)"]
    by (auto simp: NewRouter_routes_claim consistent_def)
  note iff = this
  show ?thesis
  proof (cases "NewRouter_routes rts []")
    case (Inl e)
    with iff have "\<not> consistent rts" by auto
    with Inl show ?thesis by (simp add: NewRouter_def)
  next
    case (Inr m)
    with iff [of m] show ?thesis by (auto simp: NewRouter_def)
  qed
qed

lemma consistent_ok: "consistent rts \<Longrightarrow> (k, sel) \<in> set (claims rts) \<Longrightarrow> \<exists>n. k = Inr n"
  by (cases k) (fastforce simp: consistent_def list_all_iff is_ok_def)+

lemma NormalizeHost_canonical: "NormalizeHost s = Inr n \<Longrightarrow> Normalize n = Inr n \<and> n \<noteq> []"
  by (auto simp: NormalizeHost_def Let_def split: if_splits sum.splits prod.splits
      dest: Normalize_idem Normalize_nonempty)

lemma Bedrock_Select_claim:
  assumes "NewRouter d rts = Inr r" and "rt \<in> set rts" and "h \<in> set (brHosts rt)"
    and "NormalizeHost q = NormalizeHost h"
  shows "Bedrock_Select (Some r) q = selection_of rt"
proof -
  from assms(1) have c: "consistent rts" and r: "brTable r = map (\<lambda>(h, sel). (projr h, sel)) (claims rts)"
    by (auto simp: NewRouter_Inr)
  have mem: "(NormalizeHost h, selection_of rt) \<in> set (claims rts)"
    using assms(2,3) by (auto simp: claims_def)
  with consistent_ok [OF c] obtain n where n: "NormalizeHost h = Inr n" by blast
  have "distinct (map fst (brTable r))"
    using c distinct_projr [of "map fst (claims rts)"] by (simp add: r consistent_def o_def split_def)
  moreover have "(n, selection_of rt) \<in> set (brTable r)" using mem n by (force simp: r)
  ultimately have "gm_get (brTable r) n = Some (selection_of rt)" by simp
  with n assms(4) show ?thesis by (simp add: Bedrock_Select_def)
qed

lemma Bedrock_Select_default:
  assumes "NewRouter d rts = Inr r" and "\<And>rt h. rt \<in> set rts \<Longrightarrow> h \<in> set (brHosts rt) \<Longrightarrow> NormalizeHost q \<noteq> NormalizeHost h"
  shows "Bedrock_Select (Some r) q = \<lparr>bsRouteName = ''default'', bsBackend = d, bsMatched = False\<rparr>"
proof -
  from assms(1) have c: "consistent rts" and r: "brTable r = map (\<lambda>(h, sel). (projr h, sel)) (claims rts)" "brDefaultBackend r = d"
    by (auto simp: NewRouter_Inr)
  have "gm_get (brTable r) n = None" if "NormalizeHost q = Inr n" for n
  proof (rule ccontr)
    assume "gm_get (brTable r) n \<noteq> None"
    then obtain k sel where "(k, sel) \<in> set (claims rts)" "projr k = n"
      by (auto simp: r dest!: map_of_SomeD)
    with consistent_ok [OF c] have "k = Inr n" by fastforce
    with \<open>(k, sel) \<in> set (claims rts)\<close> that assms(2) show False by (auto simp: claims_def)
  qed
  then show ?thesis using r by (auto simp: Bedrock_Select_def split: sum.split)
qed

section \<open>Properties\<close>

text \<open>C32: the Bedrock router exists exactly when every configured host normalises and no two of them
  normalise to the same name; then a requested host selects the route that lists a host of the same
  normal form, and the default backend when no route does.\<close>

theorem bedrock_router_selects:
  "case NewRouter d rts of
     Inl e \<Rightarrow> \<not> consistent rts
   | Inr r \<Rightarrow> consistent rts \<and>
       Bedrock_Select (Some r) q =
         (case find (\<lambda>(rt, h). NormalizeHost h = NormalizeHost q) [(rt, h). rt \<leftarrow> rts, h \<leftarrow> brHosts rt] of
            Some (rt, h) \<Rightarrow> \<lparr>bsRouteName = brName rt, bsBackend = brBackend rt, bsMatched = True\<rparr>
          | None \<Rightarrow> \<lparr>bsRouteName = ''default'', bsBackend = d, bsMatched = False\<rparr>)"
proof (cases "NewRouter d rts")
  case (Inl e)
  then show ?thesis using NewRouter_Inr [of d rts] by auto
next
  case (Inr r)
  let ?all = "[(rt, h). rt \<leftarrow> rts, h \<leftarrow> brHosts rt]"
  have c: "consistent rts" using Inr by (simp add: NewRouter_Inr)
  show ?thesis
  proof (cases "find (\<lambda>(rt, h). NormalizeHost h = NormalizeHost q) ?all")
    case None
    have "NormalizeHost q \<noteq> NormalizeHost h" if "rt \<in> set rts" "h \<in> set (brHosts rt)" for rt h
    proof -
      from that have "(rt, h) \<in> set ?all" by auto
      with None show ?thesis unfolding find_None_iff by fastforce
    qed
    from Bedrock_Select_default [OF Inr this] Inr None c show ?thesis by simp
  next
    case (Some x)
    obtain rt h where x: "x = (rt, h)" by (cases x)
    from Some have "x \<in> set ?all" "case x of (rt, h) \<Rightarrow> NormalizeHost h = NormalizeHost q"
      unfolding find_Some_iff by (metis nth_mem)+
    with x have x: "x = (rt, h)" "rt \<in> set rts" "h \<in> set (brHosts rt)" "NormalizeHost q = NormalizeHost h" by auto
    with Some Inr c Bedrock_Select_claim [OF Inr x(2-4)] show ?thesis by (simp add: selection_of_def)
  qed
qed

end
