(* ===== verification/GoSort.thy ===== *)
theory GoSort
  imports Prelude
begin

text \<open>
  \<open>sort.SliceStable\<close> and \<open>sort.Strings\<close>. The contract a comparison function has to keep is the
  locale \<open>strict_weak_order\<close> (the documentation of the package sort asks for a strict weak
  ordering); in it the result is a sorted, stable permutation of the input. A comparison that also
  tells any two different elements apart (\<open>strict_total_order\<close>) makes the result independent of
  the order of the input. The components interpret the locales on their comparison functions.
\<close>

primrec insert_by :: "('a \<Rightarrow> 'a \<Rightarrow> bool) \<Rightarrow> 'a \<Rightarrow> 'a list \<Rightarrow> 'a list" where
  "insert_by lt x [] = [x]"
| "insert_by lt x (y # ys) = (if lt y x then y # insert_by lt x ys else x # y # ys)"

definition SliceStable :: "('a \<Rightarrow> 'a \<Rightarrow> bool) \<Rightarrow> 'a list \<Rightarrow> 'a list" where
  "SliceStable lt xs = foldr (insert_by lt) xs []"

definition sorted_by :: "('a \<Rightarrow> 'a \<Rightarrow> bool) \<Rightarrow> 'a list \<Rightarrow> bool" where
  "sorted_by lt xs \<longleftrightarrow> sorted_wrt (\<lambda>a b. \<not> lt b a) xs"

definition equiv_by :: "('a \<Rightarrow> 'a \<Rightarrow> bool) \<Rightarrow> 'a \<Rightarrow> 'a \<Rightarrow> bool" where
  "equiv_by lt x y \<longleftrightarrow> \<not> lt x y \<and> \<not> lt y x"

lemma SliceStable_simps [simp]:
  "SliceStable lt [] = []"
  "SliceStable lt (x # xs) = insert_by lt x (SliceStable lt xs)"
  by (simp_all add: SliceStable_def)

lemma mset_insert_by [simp]: "mset (insert_by lt x xs) = add_mset x (mset xs)"
  by (induction xs) auto

lemma mset_SliceStable [simp]: "mset (SliceStable lt xs) = mset xs"
  by (induction xs) auto

lemma set_SliceStable [simp]: "set (SliceStable lt xs) = set xs"
  by (metis mset_SliceStable set_mset_mset)

lemma length_SliceStable [simp]: "length (SliceStable lt xs) = length xs"
  by (metis mset_SliceStable size_mset)

lemma distinct_SliceStable [simp]: "distinct (SliceStable lt xs) = distinct xs"
  by (metis mset_SliceStable mset_eq_imp_distinct_iff)

lemma mset_map_SliceStable [simp]: "mset (map f (SliceStable lt xs)) = mset (map f xs)"
  by simp

lemma distinct_map_SliceStable [simp]:
  "distinct (map f (SliceStable lt xs)) = distinct (map f xs)"
  by (metis mset_map_SliceStable mset_eq_imp_distinct_iff)

locale strict_weak_order =
  fixes lt :: "'a \<Rightarrow> 'a \<Rightarrow> bool"
  assumes irrefl: "\<not> lt x x"
    and asym: "lt x y \<Longrightarrow> \<not> lt y x"
    and negtrans: "lt x z \<Longrightarrow> lt x y \<or> lt y z"
begin

lemma not_lt_trans: "\<not> lt y x \<Longrightarrow> \<not> lt z y \<Longrightarrow> \<not> lt z x"
  using negtrans by blast

lemma sorted_insert_by:
  "sorted_by lt xs \<Longrightarrow> sorted_by lt (insert_by lt x xs)"
proof (induction xs)
  case Nil
  then show ?case by (simp add: sorted_by_def)
next
  case (Cons y ys)
  have set: "set (insert_by lt x ys) = insert x (set ys)"
    by (metis mset_insert_by set_mset_add_mset_insert set_mset_mset)
  show ?case
  proof (cases "lt y x")
    case True
    with Cons set asym show ?thesis by (auto simp: sorted_by_def)
  next
    case False
    with Cons.prems show ?thesis
      using not_lt_trans by (auto simp: sorted_by_def)
  qed
qed

lemma sorted_SliceStable: "sorted_by lt (SliceStable lt xs)"
  by (induction xs) (simp_all add: sorted_insert_by, simp add: sorted_by_def)

lemma filter_insert_by:
  "sorted_by lt xs \<Longrightarrow> filter (equiv_by lt z) (insert_by lt x xs) =
     (if equiv_by lt z x then x # filter (equiv_by lt z) xs else filter (equiv_by lt z) xs)"
proof (induction xs)
  case Nil
  then show ?case by simp
next
  case (Cons y ys)
  have "equiv_by lt z y \<and> equiv_by lt z x \<Longrightarrow> \<not> lt y x"
    using negtrans by (auto simp: equiv_by_def)
  with Cons show ?case by (auto simp: sorted_by_def)
qed

lemma stable_SliceStable:
  "filter (equiv_by lt z) (SliceStable lt xs) = filter (equiv_by lt z) xs"
  by (induction xs) (simp_all add: filter_insert_by sorted_SliceStable)

end

locale strict_total_order = strict_weak_order +
  assumes total: "x \<noteq> y \<Longrightarrow> lt x y \<or> lt y x"
begin

lemma sorted_unique:
  "sorted_by lt xs \<Longrightarrow> sorted_by lt ys \<Longrightarrow> mset xs = mset ys \<Longrightarrow> xs = ys"
proof (induction xs arbitrary: ys)
  case Nil
  then show ?case by simp
next
  case (Cons x xs)
  then obtain y ys' where ys: "ys = y # ys'" by (cases ys) auto
  have "x \<in> set ys" and "y \<in> set (x # xs)"
    using Cons.prems(3) ys by (metis list.set_intros(1) set_mset_mset, metis list.set_intros(1) set_mset_mset)
  with Cons.prems ys have "x = y"
    using total by (auto simp: sorted_by_def)
  with Cons ys show ?case by (auto simp: sorted_by_def)
qed

lemma SliceStable_permute: "mset xs = mset ys \<Longrightarrow> SliceStable lt xs = SliceStable lt ys"
  by (rule sorted_unique) (simp_all add: sorted_SliceStable)

end

text \<open>\<open>sort.Strings\<close>: byte-wise lexicographic order.\<close>

definition sort_Strings :: "string list \<Rightarrow> string list" where
  "sort_Strings = SliceStable (<)"

text \<open>Comparison on a key with the rest as tie-breaker: how every comparison of the sources is built.\<close>

definition lex_lt :: "('a \<Rightarrow> 'k::linorder) \<Rightarrow> ('a \<Rightarrow> 'a \<Rightarrow> bool) \<Rightarrow> 'a \<Rightarrow> 'a \<Rightarrow> bool" where
  "lex_lt f lt x y = (if f x \<noteq> f y then f x < f y else lt x y)"

lemma strict_weak_order_key: "strict_weak_order (\<lambda>x y. f x < (f y :: 'k::linorder))"
  by unfold_locales auto

lemma strict_weak_order_lex:
  assumes "strict_weak_order lt" shows "strict_weak_order (lex_lt f lt)"
proof -
  from assms have "\<And>x. \<not> lt x x" and "\<And>x y. lt x y \<Longrightarrow> \<not> lt y x"
    and "\<And>x y z. lt x z \<Longrightarrow> lt x y \<or> lt y z"
    by (auto simp: strict_weak_order_def)
  then show ?thesis
    by unfold_locales (auto simp: lex_lt_def split: if_splits dest: order_less_trans)
qed

interpretation string_order: strict_total_order "(<) :: string \<Rightarrow> string \<Rightarrow> bool"
  by unfold_locales auto

lemma sort_Strings_permute: "mset xs = mset ys \<Longrightarrow> sort_Strings xs = sort_Strings ys"
  unfolding sort_Strings_def by (rule string_order.SliceStable_permute)

section \<open>Range loops\<close>

text \<open>
  The order in which a \<^theory_text>\<open>for ... range\<close> loop visits a map is not determined: it is some
  function that permutes the entries.
\<close>

definition range_order :: "('a list \<Rightarrow> 'a list) \<Rightarrow> bool" where
  "range_order ord \<longleftrightarrow> (\<forall>m. mset (ord m) = mset m)"

lemma range_order_id [simp]: "range_order (\<lambda>m. m)"
  by (simp add: range_order_def)

lemma range_order_set: "range_order ord \<Longrightarrow> set (ord m) = set m"
  unfolding range_order_def by (metis set_mset_mset)

lemma range_order_Nil: "range_order ord \<Longrightarrow> ord m = [] \<longleftrightarrow> m = []"
  unfolding range_order_def by (metis mset.simps(1) mset_zero_iff)

end
