(* ===== verification/Config.thy ===== *)
theory Config
  imports Complex_Main Proxyprotocol Bedrockroute GoSort
begin

text \<open>
  The configuration of \<open>internal/config/config.go\<close>: its records, the defaults and the validation.
  Durations are nanoseconds. What validation asks of the machine is the record \<open>env\<close>: the process
  environment (\<open>os.Getenv\<close>), address resolution (\<open>net.ResolveUDPAddr\<close>, \<open>net.ResolveTCPAddr\<close>) and
  the scheme and host that \<open>url.ParseRequestURI\<close> finds in a URL.
\<close>

section \<open>Records\<close>

datatype float64 = Fin rat | NaN | Inf bool

record env =
  Getenv :: "string \<Rightarrow> string"
  ResolveUDPAddr :: "string \<Rightarrow> error option"
  ResolveTCPAddr :: "string \<Rightarrow> error option"
  ParseRequestURI :: "string \<Rightarrow> (string \<times> string) result"

definition Millisecond :: int where "Millisecond = 1000000"
definition Second :: int where "Second = 1000 * Millisecond"
definition Minute :: int where "Minute = 60 * Second"
definition Hour :: int where "Hour = 60 * Minute"

lemmas durations = Millisecond_def Second_def Minute_def Hour_def

definition UnknownHostDeny :: string where "UnknownHostDeny = ''deny''"
definition UnknownHostDefault :: string where "UnknownHostDefault = ''default''"
definition RouteModeAllow :: string where "RouteModeAllow = ''allow''"
definition KubernetesDiscoveryModeAnnotations :: string where "KubernetesDiscoveryModeAnnotations = ''service-annotations''"
definition BedrockModeUDPForward :: string where "BedrockModeUDPForward = ''udp-forward''"
definition BedrockModeHostProxy :: string where "BedrockModeHostProxy = ''host-proxy''"
definition DefaultKubernetesAnnotationPrefix :: string where "DefaultKubernetesAnnotationPrefix = ''mc-router.alexandergg.com''"
definition MaxUDPRelayIdleTimeout :: int where "MaxUDPRelayIdleTimeout = 24 * Hour"
definition MaxUDPRelaySessions :: int where "MaxUDPRelaySessions = 65536"
definition MaxUDPRelayPacketSize :: int where "MaxUDPRelayPacketSize = 65535"
definition MaxVoiceChatRegistrations :: int where "MaxVoiceChatRegistrations = 65536"
definition MaxClientRateLimitEntries :: int where "MaxClientRateLimitEntries = 65536"
definition MaxClientRateLimitIdleTimeout :: int where "MaxClientRateLimitIdleTimeout = 24 * Hour"
definition MinConfigReloadDebounce :: int where "MinConfigReloadDebounce = 100 * Millisecond"
definition MaxConfigReloadDebounce :: int where "MaxConfigReloadDebounce = Minute"
definition DefaultBedrockSessionTimeout :: int where "DefaultBedrockSessionTimeout = 30 * Second"

record ClientPolicy =
  cpAllow :: "string list"
  cpDeny :: "string list"

record ClientRateLimit =
  crEnabled :: bool
  crConnectionsPerSecond :: float64
  crBurst :: int
  crIdleTimeout :: int
  crMaxEntries :: int

record ProxyProtocol =
  ppTrustedProxies :: "string list"

record ScalerWebhook =
  swEnabled :: bool
  swURL :: string
  swTimeout :: int
  swHeaders :: "(string, string) gomap"

record ConfigReload =
  crlWatch :: bool
  crlDebounce :: int

record AvailabilityBackend =
  abID :: string
  abAddress :: string
  abServerAddress :: string

record Availability =
  avEnabled :: bool
  avInterval :: int
  avTimeout :: int
  avControlURL :: string
  avTokenEnv :: string
  avBackends :: "AvailabilityBackend list"

record FallbackLogin =
  flEnabled :: bool
  flRespondOnRouteDenied :: "bool option"
  flMessage :: string

record FallbackStatus =
  fsEnabled :: bool
  fsRespondOnRouteDenied :: "bool option"
  fsRespondOnBackendFailure :: bool
  fsMOTD :: string
  fsProtocolName :: string
  fsProtocolVersion :: int
  fsMaxPlayers :: int
  fsOnlinePlayers :: int

record Fallback =
  fbEnabled :: bool
  fbLogin :: FallbackLogin
  fbStatus :: FallbackStatus

record Metrics =
  mtEnabled :: bool
  mtListen :: string
  mtPath :: string

record UDPRelay =
  urEnabled :: bool
  urListen :: string
  urBackend :: string
  urIdleTimeout :: int
  urBackendDialTimeout :: int
  urMaxSessions :: int
  urMaxPacketSize :: int

record BedrockRoute =
  btName :: string
  btHosts :: "string list"
  btBackend :: string

record Bedrock =
  bdEnabled :: bool
  bdMode :: string
  bdListen :: string
  bdDefaultBackend :: string
  bdSessionTimeout :: int
  bdRoutes :: "BedrockRoute list"

record VoiceRegistration =
  vrListen :: string
  vrRegistrationTTL :: int
  vrRequestTimeout :: int
  vrMaxRegistrations :: int

record VoiceSession =
  vsIdleTimeout :: int
  vsBackendDialTimeout :: int
  vsMaxSessions :: int
  vsMaxPacketSize :: int

record VoiceBackend =
  vbUDP :: string
  vbTokenEnv :: string
  vbtoken :: string

record VoiceChat =
  vcEnabled :: bool
  vcListen :: string
  vcRegistration :: VoiceRegistration
  vcSession :: VoiceSession
  vcBackends :: "(string, VoiceBackend) gomap"

definition Token :: "VoiceBackend \<Rightarrow> string" where
  "Token b = vbtoken b"

record KubernetesDiscovery =
  kdEnabled :: bool
  kdNamespace :: string
  kdMode :: string
  kdAnnotationPrefix :: string

record Discovery =
  dsKubernetes :: KubernetesDiscovery

record DefaultRoute =
  drBackend :: string
  drMode :: string

record StatusOverride =
  soMOTD :: string
  soProtocolName :: string
  soProtocolVersion :: int
  soMaxPlayers :: int
  soOnlinePlayers :: int

record Route =
  rServerAddress :: string
  rAliases :: "string list"
  rBackend :: string
  rStatusBackend :: string
  rStatusOverride :: "StatusOverride option"
  rSource :: string

record Config =
  cListen :: string
  cHandshakeTimeout :: int
  cBackendDialTimeout :: int
  cClientPolicy :: ClientPolicy
  cClientRateLimit :: ClientRateLimit
  cProxyProtocol :: ProxyProtocol
  cScalerWebhook :: ScalerWebhook
  cConfigReload :: ConfigReload
  cAvailability :: Availability
  cMetrics :: Metrics
  cUDPRelay :: UDPRelay
  cBedrock :: Bedrock
  cVoiceChat :: VoiceChat
  cFallback :: Fallback
  cDiscovery :: Discovery
  cDefaultRoute :: DefaultRoute
  cRoutes :: "Route list"
  cUnknownHostPolicy :: string

section \<open>Defaults\<close>

definition boolPtr :: "bool \<Rightarrow> bool option" where
  "boolPtr value = Some value"

definition Defaults :: Config where
  "Defaults =
    \<lparr>cListen = '':25565'', cHandshakeTimeout = 5 * Second, cBackendDialTimeout = 5 * Second,
     cClientPolicy = \<lparr>cpAllow = [], cpDeny = []\<rparr>,
     cClientRateLimit = \<lparr>crEnabled = False, crConnectionsPerSecond = Fin 1, crBurst = 3,
       crIdleTimeout = 10 * Minute, crMaxEntries = 4096\<rparr>,
     cProxyProtocol = \<lparr>ppTrustedProxies = []\<rparr>,
     cScalerWebhook = \<lparr>swEnabled = False, swURL = '''', swTimeout = 2 * Second, swHeaders = []\<rparr>,
     cConfigReload = \<lparr>crlWatch = False, crlDebounce = Second\<rparr>,
     cAvailability = \<lparr>avEnabled = False, avInterval = 10 * Second, avTimeout = 3 * Second,
       avControlURL = '''', avTokenEnv = '''', avBackends = []\<rparr>,
     cMetrics = \<lparr>mtEnabled = False, mtListen = '':9090'', mtPath = ''/metrics''\<rparr>,
     cUDPRelay = \<lparr>urEnabled = False, urListen = '':24454'', urBackend = ''127.0.0.1:24454'',
       urIdleTimeout = 30 * Second, urBackendDialTimeout = 5 * Second, urMaxSessions = 4096,
       urMaxPacketSize = MaxUDPRelayPacketSize\<rparr>,
     cBedrock = \<lparr>bdEnabled = False, bdMode = BedrockModeUDPForward, bdListen = '''', bdDefaultBackend = '''',
       bdSessionTimeout = DefaultBedrockSessionTimeout, bdRoutes = []\<rparr>,
     cVoiceChat = \<lparr>vcEnabled = False, vcListen = '':24454'',
       vcRegistration = \<lparr>vrListen = ''127.0.0.1:9091'', vrRegistrationTTL = 30 * Second,
         vrRequestTimeout = 5 * Second, vrMaxRegistrations = 4096\<rparr>,
       vcSession = \<lparr>vsIdleTimeout = 30 * Second, vsBackendDialTimeout = 5 * Second,
         vsMaxSessions = 4096, vsMaxPacketSize = MaxUDPRelayPacketSize\<rparr>,
       vcBackends = []\<rparr>,
     cFallback = \<lparr>fbEnabled = False,
       fbLogin = \<lparr>flEnabled = False, flRespondOnRouteDenied = boolPtr True,
         flMessage = ''Server unavailable. Please try again later.''\<rparr>,
       fbStatus = \<lparr>fsEnabled = False, fsRespondOnRouteDenied = boolPtr True, fsRespondOnBackendFailure = False,
         fsMOTD = ''Server unavailable'', fsProtocolName = ''mc-gateway'', fsProtocolVersion = 767,
         fsMaxPlayers = 0, fsOnlinePlayers = 0\<rparr>\<rparr>,
     cDiscovery = \<lparr>dsKubernetes = \<lparr>kdEnabled = False, kdNamespace = '''',
       kdMode = KubernetesDiscoveryModeAnnotations, kdAnnotationPrefix = DefaultKubernetesAnnotationPrefix\<rparr>\<rparr>,
     cDefaultRoute = \<lparr>drBackend = '''', drMode = RouteModeAllow\<rparr>,
     cRoutes = [], cUnknownHostPolicy = UnknownHostDeny\<rparr>"

section \<open>Validation of addresses and names\<close>

text \<open>
  A validator that collects errors returns the list \<open>errs\<close>; \<open>errors_Join\<close> is nil when it is empty.
  \<open>if_err\<close> is one \<^theory_text>\<open>if ... { errs = append(errs, ...) }\<close>, \<open>and_err\<close> the form with an error value.
\<close>

definition errors_Join :: "error list \<Rightarrow> error option" where
  "errors_Join errs = (if errs = [] then None else Some (concat errs))"

definition if_err :: "bool \<Rightarrow> string \<Rightarrow> error list" where
  "if_err b text = (if b then [[Msg text]] else [])"

definition and_err :: "string \<Rightarrow> error option \<Rightarrow> error list" where
  "and_err text e = (case e of None \<Rightarrow> [] | Some err \<Rightarrow> [Msg text # err])"

definition validateBackend :: "string \<Rightarrow> error option" where
  "validateBackend backend =
     (case SplitHostPort backend of
        Inl e \<Rightarrow> Some (Msg ''must be host:port'' # e)
      | Inr (host, port) \<Rightarrow>
          if TrimSpace host = '''' then Some [Msg ''host must not be empty'']
          else if TrimSpace port = '''' then Some [Msg ''port must not be empty'']
          else (case Atoi port of
                  None \<Rightarrow> Some [Msg ''port must be an integer from 1 to 65535'']
                | Some parsedPort \<Rightarrow>
                    if parsedPort < 1 \<or> parsedPort > 65535
                    then Some [Msg ''port must be an integer from 1 to 65535'']
                    else (case Normalize host of Inl e \<Rightarrow> Some (Msg ''host'' # e) | Inr _ \<Rightarrow> None)))"

text \<open>\<open>net.IP\<close> as \<open>ParseIP\<close> returns it: an IPv4-mapped address is an IPv4 address.\<close>

definition IsUnspecified :: "addr \<Rightarrow> bool" where
  "IsUnspecified ip \<longleftrightarrow> Unmap ip = Addr4 0 \<or> Unmap ip = Addr6 0 []"

definition IsMulticast :: "addr \<Rightarrow> bool" where
  "IsMulticast ip = (case Unmap ip of
     Addr4 x \<Rightarrow> drop_bit 24 x AND 0xf0 = 0xe0
   | Addr6 x z \<Rightarrow> drop_bit 120 x = 0xff
   | AddrZero \<Rightarrow> False)"

definition validateUDPBackendAddress :: "string \<Rightarrow> error option" where
  "validateUDPBackendAddress backend =
     (case SplitHostPort backend of
        Inl e \<Rightarrow> Some e
      | Inr (host, _) \<Rightarrow>
          (case ParseIP host of
             None \<Rightarrow> None
           | Some ip \<Rightarrow>
               if IsUnspecified ip then Some [Msg ''host must not be an unspecified address'']
               else if IsMulticast ip then Some [Msg ''host must not be a multicast address'']
               else if Unmap ip = Addr4 0xffffffff then Some [Msg ''host must not be the IPv4 broadcast address'']
               else None))"

definition validateUDPBackend :: "string \<Rightarrow> string \<Rightarrow> error list" where
  \<comment> \<open>the \<open>if ... else if\<close> on the two checks above that the validators share\<close>
  "validateUDPBackend field backend =
     (case validateBackend backend of
        Some e \<Rightarrow> and_err field (Some e)
      | None \<Rightarrow> and_err field (validateUDPBackendAddress backend))"

definition validateListen :: "(string \<Rightarrow> error option) \<Rightarrow> string \<Rightarrow> string \<Rightarrow> error list" where
  \<comment> \<open>the check of a listen address that the validators share\<close>
  "validateListen resolve field listen =
     (if TrimSpace listen = '''' then [[Msg field, Msg ''must not be empty'']]
      else and_err field (resolve listen))"

definition isDNSLabel :: "string \<Rightarrow> bool" where
  "isDNSLabel value =
     (if length value < 1 \<or> length value > 63 then False
      else if list_ex (\<lambda>c. \<not> label_char c) value then False
      else hd value \<noteq> CHR ''-'' \<and> last value \<noteq> CHR ''-'')"

definition validateAnnotationPrefix :: "string \<Rightarrow> error option" where
  "validateAnnotationPrefix prefix =
     (if TrimSpace prefix = '''' then Some [Msg ''must not be empty'']
      else if TrimSpace prefix \<noteq> prefix then Some [Msg ''must not contain leading or trailing whitespace'']
      else if CHR ''/'' \<in> set prefix then Some [Msg ''must not contain /'']
      else (case Normalize prefix of
              Inl e \<Rightarrow> Some e
            | Inr normalized \<Rightarrow>
                if normalized \<noteq> prefix then Some [Msg ''must be a canonical lowercase DNS subdomain''] else None))"

section \<open>Validation of the sections\<close>

definition validateClientPolicy :: "ClientPolicy \<Rightarrow> error option" where
  "validateClientPolicy policy =
     (case Policy_New (cpAllow policy) (cpDeny policy) of
        Inl e \<Rightarrow> Some (Msg ''clientPolicy'' # e) | Inr _ \<Rightarrow> None)"

definition validateClientRateLimit :: "ClientRateLimit \<Rightarrow> error option" where
  "validateClientRateLimit limit =
     (if \<not> crEnabled limit then None
      else errors_Join
        (if_err (case crConnectionsPerSecond limit of Fin r \<Rightarrow> r \<le> 0 | NaN \<Rightarrow> True | Inf _ \<Rightarrow> True)
              ''clientRateLimit.connectionsPerSecond must be positive when enabled'' @
         if_err (crBurst limit < 1) ''clientRateLimit.burst must be at least 1 when enabled'' @
         (if crIdleTimeout limit \<le> 0 then [[Msg ''clientRateLimit.idleTimeout must be positive when enabled'']]
          else if_err (crIdleTimeout limit > MaxClientRateLimitIdleTimeout) ''clientRateLimit.idleTimeout must be no greater'') @
         (if crMaxEntries limit < 1 then [[Msg ''clientRateLimit.maxEntries must be at least 1 when enabled'']]
          else if_err (crMaxEntries limit > MaxClientRateLimitEntries) ''clientRateLimit.maxEntries must be no greater'')))"

definition validateConfigReload :: "ConfigReload \<Rightarrow> error option" where
  "validateConfigReload reload =
     (if \<not> crlWatch reload then None
      else if crlDebounce reload < MinConfigReloadDebounce then Some [Msg ''configReload.debounce must be at least'']
      else if crlDebounce reload > MaxConfigReloadDebounce then Some [Msg ''configReload.debounce must be no greater'']
      else None)"

definition validateStatusOverride :: "StatusOverride option \<Rightarrow> error option" where
  "validateStatusOverride override =
     (case override of
        None \<Rightarrow> None
      | Some ov \<Rightarrow> errors_Join
          (if_err (TrimSpace (soMOTD ov) = '''') ''motd must not be empty'' @
           if_err (TrimSpace (soProtocolName ov) = '''') ''protocolName must not be empty'' @
           if_err (soProtocolVersion ov < 0) ''protocolVersion must not be negative'' @
           if_err (soMaxPlayers ov < 0) ''maxPlayers must not be negative'' @
           if_err (soOnlinePlayers ov < 0) ''onlinePlayers must not be negative''))"

definition validateUDPRelay :: "env \<Rightarrow> UDPRelay \<Rightarrow> error option" where
  "validateUDPRelay v relay =
     (if \<not> urEnabled relay then None
      else errors_Join
        (validateListen (ResolveUDPAddr v) ''udpRelay.listen'' (urListen relay) @
         validateUDPBackend ''udpRelay.backend'' (urBackend relay) @
         if_err (urIdleTimeout relay \<le> 0) ''udpRelay.idleTimeout must be positive'' @
         if_err (urIdleTimeout relay > MaxUDPRelayIdleTimeout) ''udpRelay.idleTimeout must be no greater'' @
         if_err (urBackendDialTimeout relay \<le> 0) ''udpRelay.backendDialTimeout must be positive'' @
         if_err (urMaxSessions relay \<le> 0) ''udpRelay.maxSessions must be positive'' @
         if_err (urMaxSessions relay > MaxUDPRelaySessions) ''udpRelay.maxSessions must be no greater'' @
         if_err (urMaxPacketSize relay \<le> 0) ''udpRelay.maxPacketSize must be positive'' @
         if_err (urMaxPacketSize relay > MaxUDPRelayPacketSize) ''udpRelay.maxPacketSize must be no greater''))"

definition validateKubernetesDiscovery :: "KubernetesDiscovery \<Rightarrow> error option" where
  "validateKubernetesDiscovery k =
     (if \<not> kdEnabled k \<and> kdNamespace k = '''' \<and> kdMode k = '''' \<and> kdAnnotationPrefix k = '''' then None
      else errors_Join
        (if_err (kdMode k \<noteq> KubernetesDiscoveryModeAnnotations) ''discovery.kubernetes.mode only supports'' @
         and_err ''discovery.kubernetes.annotationPrefix'' (validateAnnotationPrefix (kdAnnotationPrefix k)) @
         (let namespace = TrimSpace (kdNamespace k) in
          if namespace \<noteq> '''' then
            if_err (namespace \<noteq> kdNamespace k) ''discovery.kubernetes.namespace must not contain leading or trailing whitespace'' @
            if_err (\<not> isDNSLabel namespace) ''discovery.kubernetes.namespace must be empty or a DNS label''
          else [])))"

definition valid_http_url :: "env \<Rightarrow> string \<Rightarrow> bool" where
  \<comment> \<open>the condition on \<open>ParseRequestURI\<close> that two validators share\<close>
  "valid_http_url v url =
     (case ParseRequestURI v url of
        Inl _ \<Rightarrow> False
      | Inr (scheme, host) \<Rightarrow> \<not> ((scheme \<noteq> ''http'' \<and> scheme \<noteq> ''https'') \<or> host = ''''))"

definition validateScalerWebhook :: "env \<Rightarrow> ScalerWebhook \<Rightarrow> error option" where
  "validateScalerWebhook v webhook =
     (if \<not> swEnabled webhook then None
      else if \<not> valid_http_url v (swURL webhook) then Some [Msg ''scalerWebhook.url must be an absolute http or https URL'']
      else if swTimeout webhook \<le> 0 then Some [Msg ''scalerWebhook.timeout must be positive'']
      else if swTimeout webhook > 30 * Second then Some [Msg ''scalerWebhook.timeout must be no greater than 30s'']
      else if list_ex (\<lambda>(name, _). TrimSpace name = '''' \<or> ContainsAny name [CHR 0x0D, CHR 0x0A]) (swHeaders webhook)
      then Some [Msg ''scalerWebhook.headers contains an invalid header name'']
      else None)"

fun validateAvailability_backends :: "AvailabilityBackend list \<Rightarrow> string list \<Rightarrow> error option" where
  "validateAvailability_backends [] seen = None"
| "validateAvailability_backends (backend # backends) seen =
     (if \<not> isDNSLabel (abID backend) then Some [Msg ''availability.backends id must be a DNS label'']
      else if abID backend \<in> set seen then Some [Msg ''availability.backends contains duplicate id'']
      else (case validateBackend (abAddress backend) of
              Some e \<Rightarrow> Some (Msg ''availability.backends.address'' # e)
            | None \<Rightarrow>
                (case Normalize (abServerAddress backend) of
                   Inl e \<Rightarrow> Some (Msg ''availability.backends.serverAddress'' # e)
                 | Inr _ \<Rightarrow> validateAvailability_backends backends (abID backend # seen))))"

definition validateAvailability :: "env \<Rightarrow> Availability \<Rightarrow> error option" where
  "validateAvailability v a =
     (if \<not> avEnabled a then None
      else if avInterval a < Second then Some [Msg ''availability.interval must be at least 1s when enabled'']
      else if avTimeout a \<le> 0 \<or> avTimeout a > avInterval a then Some [Msg ''availability.timeout must be positive and no greater than availability.interval'']
      else if \<not> valid_http_url v (avControlURL a) then Some [Msg ''availability.controlURL must be an absolute http or https URL'']
      else if TrimSpace (avTokenEnv a) = '''' then Some [Msg ''availability.tokenEnv must not be empty when enabled'']
      else if avBackends a = [] then Some [Msg ''availability.backends must not be empty when enabled'']
      else validateAvailability_backends (avBackends a) [])"

fun validateBedrock_hosts :: "string \<Rightarrow> string list \<Rightarrow> (string, string) gomap \<Rightarrow> error list \<times> (string, string) gomap" where
  "validateBedrock_hosts name [] seenHosts = ([], seenHosts)"
| "validateBedrock_hosts name (host # hosts) seenHosts =
     (case NormalizeHost host of
        Inl e \<Rightarrow> (let (errs, seen') = validateBedrock_hosts name hosts seenHosts in ((Msg ''bedrock.routes.hosts'' # e) # errs, seen'))
      | Inr normalized \<Rightarrow>
          (case gm_get seenHosts normalized of
             Some existing \<Rightarrow>
               (let (errs, seen') = validateBedrock_hosts name hosts seenHosts
                in ([Msg ''bedrock.routes.hosts duplicates host''] # errs, seen'))
           | None \<Rightarrow> validateBedrock_hosts name hosts (gm_set seenHosts normalized name)))"

fun validateBedrock_routes :: "BedrockRoute list \<Rightarrow> string list \<Rightarrow> (string, string) gomap \<Rightarrow> error list" where
  "validateBedrock_routes [] seenRoutes seenHosts = []"
| "validateBedrock_routes (route # routes) seenRoutes seenHosts =
     (let name = TrimSpace (btName route);
          nameErrs = (if name = '''' then [[Msg ''bedrock.routes.name must not be empty'']]
                      else if_err (name \<noteq> btName route) ''bedrock.routes.name must not contain leading or trailing whitespace'' @
                           if_err (name \<in> set seenRoutes) ''bedrock.routes.name duplicates'');
          seenRoutes' = (if name = '''' then seenRoutes else name # seenRoutes);
          (hostErrs, seenHosts') = validateBedrock_hosts name (btHosts route) seenHosts
      in nameErrs @ hostErrs @ validateUDPBackend ''bedrock.routes.backend'' (btBackend route) @
         validateBedrock_routes routes seenRoutes' seenHosts')"

definition validateBedrock :: "env \<Rightarrow> Bedrock \<Rightarrow> error option" where
  "validateBedrock v bedrock =
     (if \<not> bdEnabled bedrock then None
      else errors_Join
        (validateListen (ResolveUDPAddr v) ''bedrock.listen'' (bdListen bedrock) @
         if_err (bdMode bedrock \<noteq> '''' \<and> bdMode bedrock \<noteq> BedrockModeUDPForward \<and> bdMode bedrock \<noteq> BedrockModeHostProxy)
           ''bedrock.mode must be udp-forward or host-proxy'' @
         validateUDPBackend ''bedrock.defaultBackend'' (bdDefaultBackend bedrock) @
         validateBedrock_routes (bdRoutes bedrock) [] [] @
         if_err (bdSessionTimeout bedrock \<le> 0) ''bedrock.sessionTimeout must be positive'' @
         if_err (bdSessionTimeout bedrock > MaxUDPRelayIdleTimeout) ''bedrock.sessionTimeout must be no greater''))"

text \<open>
  The loop over the voice backends stores the tokens it reads from the environment in the map it
  visits. Its order is that of the list it is given.
\<close>

fun validateVoice_backends ::
    "env \<Rightarrow> (string \<times> VoiceBackend) list \<Rightarrow> (string, string) gomap \<Rightarrow> (string, VoiceBackend) gomap \<Rightarrow>
     error list \<times> (string, VoiceBackend) gomap" where
  "validateVoice_backends v [] seenTokens m = ([], m)"
| "validateVoice_backends v ((bid, backend) # bs) seenTokens m =
     (let errs0 =
            if_err (TrimSpace bid = '''') ''voiceChat.backends contains an empty backend ID'' @
            if_err (ContainsAny bid [CHR '' '', CHR 0x09, CHR 0x0D, CHR 0x0A, CHR ''/'']) ''backend ID must not contain whitespace or /'' @
            validateUDPBackend ''voiceChat.backends.udp'' (vbUDP backend);
          token = Getenv v (vbTokenEnv backend);
          (errs1, seenTokens', m') =
            (if TrimSpace (vbTokenEnv backend) = '''' then ([[Msg ''tokenEnv must not be empty'']], seenTokens, m)
             else if TrimSpace token = '''' then ([[Msg ''tokenEnv is not set or is empty'']], seenTokens, m)
             else if gm_get seenTokens token \<noteq> None then ([[Msg ''tokenEnv duplicates token for backend'']], seenTokens, m)
             else ([], gm_set seenTokens token bid, gm_set m bid (backend\<lparr>vbtoken := token\<rparr>)));
          (errs2, m'') = validateVoice_backends v bs seenTokens' m'
      in (errs0 @ errs1 @ errs2, m''))"

definition validateVoiceChat ::
    "env \<Rightarrow> ((string \<times> VoiceBackend) list \<Rightarrow> (string \<times> VoiceBackend) list) \<Rightarrow> VoiceChat \<Rightarrow> error option \<times> VoiceChat" where
  "validateVoiceChat v ord voice =
     (if \<not> vcEnabled voice then (None, voice)
      else let (backendErrs, backends) = validateVoice_backends v (ord (vcBackends voice)) [] (vcBackends voice) in
        (errors_Join
          (validateListen (ResolveUDPAddr v) ''voiceChat.listen'' (vcListen voice) @
           validateListen (ResolveTCPAddr v) ''voiceChat.registration.listen'' (vrListen (vcRegistration voice)) @
           if_err (vrRegistrationTTL (vcRegistration voice) \<le> 0) ''voiceChat.registration.registrationTTL must be positive'' @
           if_err (vrRegistrationTTL (vcRegistration voice) > MaxUDPRelayIdleTimeout) ''voiceChat.registration.registrationTTL must be no greater'' @
           if_err (vrRequestTimeout (vcRegistration voice) \<le> 0) ''voiceChat.registration.requestTimeout must be positive'' @
           if_err (vrMaxRegistrations (vcRegistration voice) \<le> 0) ''voiceChat.registration.maxRegistrations must be positive'' @
           if_err (vrMaxRegistrations (vcRegistration voice) > MaxVoiceChatRegistrations) ''voiceChat.registration.maxRegistrations must be no greater'' @
           if_err (vsIdleTimeout (vcSession voice) \<le> 0) ''voiceChat.session.idleTimeout must be positive'' @
           if_err (vsIdleTimeout (vcSession voice) > MaxUDPRelayIdleTimeout) ''voiceChat.session.idleTimeout must be no greater'' @
           if_err (vsBackendDialTimeout (vcSession voice) \<le> 0) ''voiceChat.session.backendDialTimeout must be positive'' @
           if_err (vsMaxSessions (vcSession voice) \<le> 0) ''voiceChat.session.maxSessions must be positive'' @
           if_err (vsMaxSessions (vcSession voice) > MaxUDPRelaySessions) ''voiceChat.session.maxSessions must be no greater'' @
           if_err (vsMaxPacketSize (vcSession voice) \<le> 0) ''voiceChat.session.maxPacketSize must be positive'' @
           if_err (vsMaxPacketSize (vcSession voice) > MaxUDPRelayPacketSize) ''voiceChat.session.maxPacketSize must be no greater'' @
           if_err (gm_len (vcBackends voice) = 0) ''voiceChat.backends must contain at least one backend'' @
           backendErrs),
         voice\<lparr>vcBackends := backends\<rparr>))"

section \<open>Validate\<close>

fun validate_identities :: "string list \<Rightarrow> string list \<Rightarrow> error list \<times> string list" where
  \<comment> \<open>the loop over the server address and the aliases of a route, with the names seen so far\<close>
  "validate_identities [] seen = ([], seen)"
| "validate_identities (identity # identities) seen =
     (case Normalize identity of
        Inl e \<Rightarrow> (let (errs, seen') = validate_identities identities seen in ((Msg ''routes.serverAddress'' # e) # errs, seen'))
      | Inr addr \<Rightarrow>
          if addr \<in> set seen
          then (let (errs, seen') = validate_identities identities seen in ([Msg ''routes.serverAddress duplicates''] # errs, seen'))
          else validate_identities identities (addr # seen))"

fun validate_routes :: "Route list \<Rightarrow> string list \<Rightarrow> error list" where
  "validate_routes [] seen = []"
| "validate_routes (route # routes) seen =
     (let (errs, seen') = validate_identities (rServerAddress route # rAliases route) seen
      in errs @ and_err ''routes.backend'' (validateBackend (rBackend route)) @
         (if rStatusBackend route \<noteq> '''' then and_err ''routes.statusBackend'' (validateBackend (rStatusBackend route)) else []) @
         and_err ''routes.statusOverride'' (validateStatusOverride (rStatusOverride route)) @
         validate_routes routes seen')"

definition validate_default_route :: "Config \<Rightarrow> error list" where
  \<comment> \<open>the switch on the unknown-host policy and the default route\<close>
  "validate_default_route c =
     (if cUnknownHostPolicy c = UnknownHostDeny then []
      else if cUnknownHostPolicy c = UnknownHostDefault
      then if_err (TrimSpace (drBackend (cDefaultRoute c)) = '''') ''defaultRoute.backend is required when unknownHostPolicy is default''
      else [[Msg ''unknownHostPolicy must be deny or default'']]) @
     (if drBackend (cDefaultRoute c) \<noteq> '''' then
        and_err ''defaultRoute.backend'' (validateBackend (drBackend (cDefaultRoute c))) @
        if_err (drMode (cDefaultRoute c) = '''') ''defaultRoute.mode must not be empty when defaultRoute.backend is set'' @
        if_err (drMode (cDefaultRoute c) \<noteq> RouteModeAllow) ''defaultRoute.mode only supports allow in the MVP''
      else [])"

definition validate_fallback :: "Fallback \<Rightarrow> error list" where
  "validate_fallback f =
     (if fbEnabled f \<and> fsEnabled (fbStatus f) then
        if_err (TrimSpace (fsMOTD (fbStatus f)) = '''') ''fallback.status.motd must not be empty'' @
        if_err (TrimSpace (fsProtocolName (fbStatus f)) = '''') ''fallback.status.protocolName must not be empty'' @
        if_err (fsProtocolVersion (fbStatus f) < 0) ''fallback.status.protocolVersion must not be negative'' @
        if_err (fsMaxPlayers (fbStatus f) < 0) ''fallback.status.maxPlayers must not be negative'' @
        if_err (fsOnlinePlayers (fbStatus f) < 0) ''fallback.status.onlinePlayers must not be negative''
      else []) @
     if_err (fbEnabled f \<and> flEnabled (fbLogin f) \<and> TrimSpace (flMessage (fbLogin f)) = '''') ''fallback.login.message must not be empty''"

definition Validate ::
    "env \<Rightarrow> ((string \<times> VoiceBackend) list \<Rightarrow> (string \<times> VoiceBackend) list) \<Rightarrow> Config \<Rightarrow> error option \<times> Config" where
  "Validate v ord c =
     (let (voiceErr, voice) = validateVoiceChat v ord (cVoiceChat c);
          errs =
            if_err (TrimSpace (cListen c) = '''') ''listen must not be empty'' @
            if_err (cHandshakeTimeout c \<le> 0) ''handshakeTimeout must be positive'' @
            if_err (cBackendDialTimeout c \<le> 0) ''backendDialTimeout must be positive'' @
            and_err '''' (validateClientPolicy (cClientPolicy c)) @
            and_err '''' (validateClientRateLimit (cClientRateLimit c)) @
            (case ParseCIDRs (ppTrustedProxies (cProxyProtocol c)) of
               Inl e \<Rightarrow> [Msg ''proxyProtocol.trustedProxies'' # e] | Inr _ \<Rightarrow> []) @
            and_err '''' (validateScalerWebhook v (cScalerWebhook c)) @
            and_err '''' (validateConfigReload (cConfigReload c)) @
            and_err '''' (validateAvailability v (cAvailability c)) @
            (if mtEnabled (cMetrics c) then
               if_err (TrimSpace (mtListen (cMetrics c)) = '''') ''metrics.listen must not be empty'' @
               if_err (TrimSpace (mtPath (cMetrics c)) = '''') ''metrics.path must not be empty'' @
               if_err (\<not> HasPrefix (mtPath (cMetrics c)) ''/'') ''metrics.path must start with /''
             else []) @
            and_err '''' (validateUDPRelay v (cUDPRelay c)) @
            and_err '''' (validateBedrock v (cBedrock c)) @
            and_err '''' voiceErr @
            if_err (urEnabled (cUDPRelay c) \<and> vcEnabled (cVoiceChat c) \<and> urListen (cUDPRelay c) = vcListen (cVoiceChat c))
              ''udpRelay and voiceChat cannot use the same listen address'' @
            if_err (bdEnabled (cBedrock c) \<and> urEnabled (cUDPRelay c) \<and> bdListen (cBedrock c) = urListen (cUDPRelay c))
              ''bedrock and udpRelay cannot use the same listen address'' @
            if_err (bdEnabled (cBedrock c) \<and> vcEnabled (cVoiceChat c) \<and> bdListen (cBedrock c) = vcListen (cVoiceChat c))
              ''bedrock and voiceChat cannot use the same listen address'' @
            and_err '''' (validateKubernetesDiscovery (dsKubernetes (cDiscovery c))) @
            validate_fallback (cFallback c) @
            validate_default_route c @
            validate_routes (cRoutes c) []
      in (errors_Join errs, c\<lparr>cVoiceChat := voice\<rparr>))"

text \<open>
  Loading: the YAML decoder is a parameter, which fills in the defaults it is given. On a validation
  error the zero configuration is returned.
\<close>

definition Load ::
    "env \<Rightarrow> ((string \<times> VoiceBackend) list \<Rightarrow> (string \<times> VoiceBackend) list) \<Rightarrow> (bytes \<Rightarrow> Config \<Rightarrow> Config result) \<Rightarrow>
     bytes \<Rightarrow> Config result" where
  "Load v ord decode data =
     (case decode data Defaults of
        Inl e \<Rightarrow> Inl (Msg ''parse yaml'' # e)
      | Inr cfg \<Rightarrow>
          (case Validate v ord cfg of
             (Some e, _) \<Rightarrow> Inl (Msg ''validate config'' # e)
           | (None, cfg') \<Rightarrow> Inr cfg'))"

definition LoadFile ::
    "env \<Rightarrow> ((string \<times> VoiceBackend) list \<Rightarrow> (string \<times> VoiceBackend) list) \<Rightarrow> (bytes \<Rightarrow> Config \<Rightarrow> Config result) \<Rightarrow>
     (string \<Rightarrow> bytes result) \<Rightarrow> string \<Rightarrow> Config result" where
  "LoadFile v ord decode ReadFile path =
     (case ReadFile path of
        Inl e \<Rightarrow> Inl (Msg ''read config'' # e)
      | Inr data \<Rightarrow>
          (case Load v ord decode data of Inl e \<Rightarrow> Inl (Msg ''load config'' # e) | Inr cfg \<Rightarrow> Inr cfg))"

section \<open>What validation guarantees\<close>

lemma errors_Join_None [simp]: "errors_Join es = None \<longleftrightarrow> es = []"
  by (simp add: errors_Join_def)

lemma if_err_Nil [simp]: "if_err b t = [] \<longleftrightarrow> \<not> b"
  by (simp add: if_err_def)

lemma and_err_Nil [simp]: "and_err t e = [] \<longleftrightarrow> e = None"
  by (simp add: and_err_def split: option.split)

subsection \<open>Routes\<close>

definition normal :: "string \<Rightarrow> string" where
  "normal s = projr (Normalize s)"

definition identities :: "Route \<Rightarrow> string list" where
  "identities r = rServerAddress r # rAliases r"

definition all_identities :: "Route list \<Rightarrow> string list" where
  "all_identities rts = concat (map identities rts)"

definition names_ok :: "string list \<Rightarrow> bool" where
  "names_ok xs \<longleftrightarrow> list_all (\<lambda>i. is_ok (Normalize i)) xs"

definition route_wf :: "Route \<Rightarrow> bool" where
  "route_wf r \<longleftrightarrow> validateBackend (rBackend r) = None \<and>
     (rStatusBackend r = '''' \<or> validateBackend (rStatusBackend r) = None) \<and>
     validateStatusOverride (rStatusOverride r) = None"

definition routes_wf :: "Route list \<Rightarrow> bool" where
  \<comment> \<open>every identity is an address, no two have the same normal form, every backend is host:port\<close>
  "routes_wf rts \<longleftrightarrow> names_ok (all_identities rts) \<and> distinct (map normal (all_identities rts)) \<and> list_all route_wf rts"

lemma names_ok_simps [simp]:
  "names_ok []" "names_ok (x # xs) \<longleftrightarrow> is_ok (Normalize x) \<and> names_ok xs"
  "names_ok (xs @ ys) \<longleftrightarrow> names_ok xs \<and> names_ok ys"
  by (auto simp: names_ok_def)

lemma names_ok_mem: "names_ok xs \<Longrightarrow> x \<in> set xs \<Longrightarrow> Normalize x = Inr (normal x)"
  by (induction xs) (auto simp: normal_def is_ok_def split: sum.splits)

lemma validate_identities_Nil:
  "distinct seen \<Longrightarrow> fst (validate_identities xs seen) = [] \<longleftrightarrow>
     names_ok xs \<and> distinct (map normal xs @ seen)"
  "fst (validate_identities xs seen) = [] \<Longrightarrow> set (snd (validate_identities xs seen)) = set (map normal xs @ seen) \<and>
     (distinct seen \<longrightarrow> distinct (snd (validate_identities xs seen)))"
proof (induction xs arbitrary: seen)
  case (Cons x xs)
  {
    case 1
    show ?case
    proof (cases "Normalize x")
      case (Inr a)
      with 1 Cons(1) [of "a # seen"] show ?thesis
        by (auto simp: normal_def is_ok_def split: prod.split)
    qed (simp add: is_ok_def split: prod.split)
  next
    case 2
    then show ?case using Cons(2)
      by (auto simp: normal_def split: sum.splits if_splits prod.splits)
  }
qed auto

lemma distinct_interleave:
  "distinct (a @ c) \<Longrightarrow> distinct s \<Longrightarrow> set s = set a \<union> set c \<Longrightarrow> distinct (b @ s) \<longleftrightarrow> distinct (a @ b @ c)"
  by auto

lemma validate_routes_Nil:
  "distinct seen \<Longrightarrow> validate_routes rts seen = [] \<longleftrightarrow>
     names_ok (all_identities rts) \<and> distinct (map normal (all_identities rts) @ seen) \<and> list_all route_wf rts"
proof (induction rts arbitrary: seen)
  case (Cons r rts)
  let ?v = "validate_identities (identities r) seen"
  note idn = validate_identities_Nil [where xs = "identities r" and seen = seen]
  have eq: "validate_routes (r # rts) seen = [] \<longleftrightarrow> fst ?v = [] \<and> route_wf r \<and> validate_routes rts (snd ?v) = []"
    by (auto simp: identities_def route_wf_def Let_def split: prod.split)
  show ?case
  proof (cases "fst ?v = []")
    case True
    with idn(2) Cons.prems have seen': "distinct (snd ?v)" "set (snd ?v) = set (map normal (identities r)) \<union> set seen" by auto
    have A: "names_ok (identities r)" "distinct (map normal (identities r) @ seen)"
      using True idn(1) [OF Cons.prems] by auto
    have ids: "all_identities (r # rts) = identities r @ all_identities rts" by (simp add: all_identities_def)
    have "distinct (map normal (all_identities rts) @ snd ?v) \<longleftrightarrow>
        distinct (map normal (identities r) @ map normal (all_identities rts) @ seen)"
      using A(2) seen' by (rule distinct_interleave)
    with Cons.IH [OF seen'(1)] A(1) True show ?thesis by (auto simp only: eq ids names_ok_simps map_append append_assoc list.pred_inject)
  next
    case False
    with idn(1) [OF Cons.prems] eq show ?thesis by (auto simp: all_identities_def)
  qed
qed (simp add: all_identities_def)

lemma validate_routes_wf: "validate_routes rts [] = [] \<longleftrightarrow> routes_wf rts"
  using validate_routes_Nil [of "[]" rts] by (auto simp: routes_wf_def)

subsection \<open>Backends\<close>

lemma validateBackend_host_port:
  assumes "dns_name host" and "all_digits port" and "1 \<le> decimal port" and "decimal port \<le> 65535"
  shows "validateBackend (JoinHostPort host port) = None"
proof -
  have "host_port_free host" "host_port_free port"
    using assms(1,2) by (auto intro: dns_name_host_port_free all_digits_host_port_free)
  then have "SplitHostPort (JoinHostPort host port) = Inr (host, port)" by (rule SplitHostPort_Join)
  moreover have "TrimSpace host = host" "host \<noteq> []"
    using dns_name_lower_plain [OF assms(1)] dns_name_nonempty [OF assms(1)]
    by (auto intro!: TrimSpace_plain simp: lower_plain_def)
  moreover have "TrimSpace port = port" "port \<noteq> []"
    using assms(2) by (auto intro!: TrimSpace_plain simp: all_digits_def list_all_iff is_digit_def plain_char_def char_le_iff)
  moreover have "Atoi port = Some (int (decimal port))" using assms by (intro Atoi_digits) auto
  ultimately show ?thesis
    using assms(3,4) dns_name_canonical(1) [OF assms(1)] by (simp add: validateBackend_def)
qed

subsection \<open>The parts of a valid configuration\<close>

lemma Validate_parts:
  assumes "Validate v ord c = (None, c')"
  shows "validateClientPolicy (cClientPolicy c) = None"
    and "validateClientRateLimit (cClientRateLimit c) = None"
    and "is_ok (ParseCIDRs (ppTrustedProxies (cProxyProtocol c)))"
    and "validateScalerWebhook v (cScalerWebhook c) = None"
    and "validateConfigReload (cConfigReload c) = None"
    and "validateAvailability v (cAvailability c) = None"
    and "validateUDPRelay v (cUDPRelay c) = None"
    and "validateBedrock v (cBedrock c) = None"
    and "validateVoiceChat v ord (cVoiceChat c) = (None, cVoiceChat c')"
    and "validateKubernetesDiscovery (dsKubernetes (cDiscovery c)) = None"
    and "validate_default_route c = []"
    and "routes_wf (cRoutes c)"
    and "c' = c\<lparr>cVoiceChat := cVoiceChat c'\<rparr>"
  using assms
  by (auto simp: Validate_def Let_def is_ok_def validate_routes_wf split: prod.splits sum.splits)

lemma Validate_None_iff:
  "fst (Validate v ord c) = None \<longleftrightarrow>
     fst (Validate v ord (c\<lparr>cRoutes := []\<rparr>)) = None \<and> routes_wf (cRoutes c)"
proof -
  have "validate_default_route (c\<lparr>cRoutes := []\<rparr>) = validate_default_route c" by (simp add: validate_default_route_def)
  then show ?thesis
    by (auto simp: Validate_def Let_def validate_routes_wf split: prod.splits)
qed

text \<open>The voice backends: every token is read from the environment, is not blank, and is not shared.\<close>

lemma validateVoice_backends_cons:
  "fst (validateVoice_backends v ((bid, b) # bs) seen m) = [] \<longleftrightarrow>
     TrimSpace bid \<noteq> '''' \<and> \<not> ContainsAny bid [CHR '' '', CHR 0x09, CHR 0x0D, CHR 0x0A, CHR ''/''] \<and>
     validateUDPBackend ''voiceChat.backends.udp'' (vbUDP b) = [] \<and> TrimSpace (vbTokenEnv b) \<noteq> '''' \<and>
     TrimSpace (Getenv v (vbTokenEnv b)) \<noteq> '''' \<and> gm_get seen (Getenv v (vbTokenEnv b)) = None \<and>
     fst (validateVoice_backends v bs (gm_set seen (Getenv v (vbTokenEnv b)) bid)
       (gm_set m bid (b\<lparr>vbtoken := Getenv v (vbTokenEnv b)\<rparr>))) = []"
  "fst (validateVoice_backends v ((bid, b) # bs) seen m) = [] \<Longrightarrow>
     snd (validateVoice_backends v ((bid, b) # bs) seen m) =
       snd (validateVoice_backends v bs (gm_set seen (Getenv v (vbTokenEnv b)) bid)
         (gm_set m bid (b\<lparr>vbtoken := Getenv v (vbTokenEnv b)\<rparr>)))"
  by (auto simp: Let_def split: prod.splits if_splits)

definition voice_backend_wf :: "env \<Rightarrow> string \<times> VoiceBackend \<Rightarrow> bool" where
  "voice_backend_wf v = (\<lambda>(bid, b). TrimSpace bid \<noteq> '''' \<and> \<not> ContainsAny bid [CHR '' '', CHR 0x09, CHR 0x0D, CHR 0x0A, CHR ''/''] \<and>
     validateUDPBackend ''voiceChat.backends.udp'' (vbUDP b) = [] \<and> TrimSpace (vbTokenEnv b) \<noteq> '''' \<and>
     TrimSpace (Getenv v (vbTokenEnv b)) \<noteq> '''')"

definition env_token :: "env \<Rightarrow> string \<times> VoiceBackend \<Rightarrow> string" where
  "env_token v = (\<lambda>(bid, b). Getenv v (vbTokenEnv b))"

lemma validateVoice_backends_Nil:
  "fst (validateVoice_backends v bs seen m) = [] \<longleftrightarrow>
     list_all (voice_backend_wf v) bs \<and> distinct (map (env_token v) bs) \<and>
     set (map (env_token v) bs) \<inter> dom (gm_get seen) = {}"
proof (induction bs arbitrary: seen m)
  case (Cons x bs)
  obtain bid b where x: "x = (bid, b)" by (cases x)
  show ?case
    unfolding x validateVoice_backends_cons(1) Cons.IH
    by (auto simp: voice_backend_wf_def env_token_def domIff)
qed simp

lemma validateVoice_backends_get:
  "fst (validateVoice_backends v bs seen m) = [] \<Longrightarrow> distinct (map fst bs) \<Longrightarrow>
   gm_get (snd (validateVoice_backends v bs seen m)) k =
     (case map_of bs k of Some b \<Rightarrow> Some (b\<lparr>vbtoken := Getenv v (vbTokenEnv b)\<rparr>) | None \<Rightarrow> gm_get m k)"
proof (induction bs arbitrary: seen m)
  case (Cons x bs)
  obtain bid b where x: "x = (bid, b)" by (cases x)
  from Cons.prems x have rest: "fst (validateVoice_backends v bs (gm_set seen (Getenv v (vbTokenEnv b)) bid)
       (gm_set m bid (b\<lparr>vbtoken := Getenv v (vbTokenEnv b)\<rparr>))) = []" "distinct (map fst bs)" "bid \<notin> fst ` set bs"
    using validateVoice_backends_cons(1) by auto
  have "map_of bs bid = None" using rest(3) by (simp add: map_of_eq_None_iff)
  with Cons.IH [OF rest(1,2)] Cons.prems(1) show ?case
    by (simp only: x validateVoice_backends_cons(2)) (auto split: option.split)
qed simp

lemma alist_by_keys: "distinct (map fst m) \<Longrightarrow> m = map (\<lambda>k. (k, the (map_of m k))) (map fst m)"
proof (rule nth_equalityI)
  fix i assume d: "distinct (map fst m)" and i: "i < length m"
  then have "(fst (m ! i), snd (m ! i)) \<in> set m" by simp
  with d have "map_of m (fst (m ! i)) = Some (snd (m ! i))" by (simp only: map_of_eq_Some_iff)
  with i show "m ! i = map (\<lambda>k. (k, the (map_of m k))) (map fst m) ! i" by (simp add: prod_eq_iff)
qed simp

lemma gm_set_keys: "gm_get m k \<noteq> None \<Longrightarrow> map fst (gm_set m k v) = map fst m"
  by (induction m) auto

lemma validateVoice_backends_keys:
  "fst (validateVoice_backends v bs seen m) = [] \<Longrightarrow> fst ` set bs \<subseteq> dom (gm_get m) \<Longrightarrow>
     map fst (snd (validateVoice_backends v bs seen m)) = map fst m"
proof (induction bs arbitrary: seen m)
  case (Cons x bs)
  obtain bid b where x: "x = (bid, b)" by (cases x)
  let ?m = "gm_set m bid (b\<lparr>vbtoken := Getenv v (vbTokenEnv b)\<rparr>)"
  from Cons.prems x have rest: "fst (validateVoice_backends v bs (gm_set seen (Getenv v (vbTokenEnv b)) bid) ?m) = []"
    using validateVoice_backends_cons(1) by auto
  moreover have "fst ` set bs \<subseteq> dom (gm_get ?m)" using Cons.prems(2) by (auto simp: x)
  moreover have "map fst ?m = map fst m" using Cons.prems(2) by (intro gm_set_keys) (auto simp: x)
  ultimately show ?case
    using Cons.IH [of _ ?m] Cons.prems(1) by (simp only: x validateVoice_backends_cons(2))
qed simp

definition with_tokens :: "env \<Rightarrow> (string, VoiceBackend) gomap \<Rightarrow> (string, VoiceBackend) gomap" where
  "with_tokens v m = map (\<lambda>(k, b). (k, b\<lparr>vbtoken := Getenv v (vbTokenEnv b)\<rparr>)) m"

lemma with_tokens_get:
  "map_of (with_tokens v m) k = map_option (\<lambda>b. b\<lparr>vbtoken := Getenv v (vbTokenEnv b)\<rparr>) (map_of m k)"
  by (induction m) (auto simp: with_tokens_def)

lemma with_tokens_idem [simp]: "with_tokens v (with_tokens v m) = with_tokens v m"
  by (simp add: with_tokens_def o_def split_def)

lemma validateVoice_backends_result:
  assumes "fst (validateVoice_backends v bs seen m) = []" and "mset bs = mset m" and "gm_wf m"
  shows "snd (validateVoice_backends v bs seen m) = with_tokens v m"
proof -
  have set: "set bs = set m" using assms(2) by (metis set_mset_mset)
  have d: "distinct (map fst m)" using assms(3) by (simp add: gm_wf_def)
  then have db: "distinct (map fst bs)" using assms(2) by (metis mset_eq_imp_distinct_iff mset_map)
  have of: "map_of bs = map_of m" using d db set by (metis map_of_inject_set)
  let ?r = "snd (validateVoice_backends v bs seen m)"
  have keys: "map fst ?r = map fst m"
    using assms(1) set by (intro validateVoice_backends_keys) (auto simp: dom_map_of_conv_image_fst)
  have get: "map_of ?r k = map_of (with_tokens v m) k" for k
    using validateVoice_backends_get [OF assms(1) db, of k]
    by (auto simp: of with_tokens_get split: option.splits)
  have keys': "map fst (with_tokens v m) = map fst m" by (simp add: with_tokens_def o_def split_def)
  have "?r = map (\<lambda>k. (k, the (map_of ?r k))) (map fst m)"
    using alist_by_keys [of ?r, unfolded keys] d by simp
  also have "\<dots> = map (\<lambda>k. (k, the (map_of (with_tokens v m) k))) (map fst m)" by (simp only: get)
  also have "\<dots> = with_tokens v m"
    using alist_by_keys [of "with_tokens v m", unfolded keys'] d by simp
  finally show ?thesis .
qed

lemma validateVoice_backends_permute:
  assumes "mset bs = mset m"
  shows "fst (validateVoice_backends v bs [] n) = [] \<longleftrightarrow>
     list_all (voice_backend_wf v) m \<and> distinct (map (env_token v) m)"
proof -
  have "set bs = set m" using assms by (metis set_mset_mset)
  moreover have "distinct (map (env_token v) bs) \<longleftrightarrow> distinct (map (env_token v) m)"
    using assms by (metis mset_eq_imp_distinct_iff mset_map)
  ultimately show ?thesis by (auto simp: validateVoice_backends_Nil list_all_iff)
qed

lemma validateVoiceChat_eq:
  assumes "range_order ord" and "gm_wf (vcBackends vc)" and "fst (validateVoiceChat v ord vc) = None"
  shows "snd (validateVoiceChat v ord vc) = (if vcEnabled vc then vc\<lparr>vcBackends := with_tokens v (vcBackends vc)\<rparr> else vc)"
  using assms validateVoice_backends_result [of v "ord (vcBackends vc)" "[]" "vcBackends vc"]
  by (auto simp: validateVoiceChat_def Let_def range_order_def split: prod.splits)

lemma validateVoiceChat_again:
  assumes "range_order ord" and "range_order ord'" and "gm_wf (vcBackends vc)" and "validateVoiceChat v ord vc = (None, vc')"
  shows "validateVoiceChat v ord' vc' = (None, vc')"
proof (cases "vcEnabled vc")
  case False
  with assms(4) show ?thesis by (auto simp: validateVoiceChat_def)
next
  case True
  let ?m = "vcBackends vc" and ?m' = "with_tokens v (vcBackends vc)"
  have vc': "vc' = vc\<lparr>vcBackends := ?m'\<rparr>"
    using True validateVoiceChat_eq [OF assms(1,3), of v] assms(4) by simp
  have wf': "gm_wf ?m'" using assms(3) by (simp add: gm_wf_def with_tokens_def o_def split_def)
  have ok: "list_all (voice_backend_wf v) ?m \<and> distinct (map (env_token v) ?m)"
    using assms(1,4) True validateVoice_backends_permute [of "ord ?m" ?m v ?m]
    by (auto simp: validateVoiceChat_def Let_def range_order_def split: prod.splits)
  have "voice_backend_wf v (k, b\<lparr>vbtoken := t\<rparr>) = voice_backend_wf v (k, b)" for k b t
    by (simp add: voice_backend_wf_def)
  moreover have "env_token v (k, b\<lparr>vbtoken := t\<rparr>) = env_token v (k, b)" for k b t
    by (simp add: env_token_def)
  ultimately have "list_all (voice_backend_wf v) ?m' \<and> distinct (map (env_token v) ?m')"
    using ok by (simp add: with_tokens_def list_all_iff o_def split_def)
  moreover have mset: "mset (ord' ?m') = mset ?m'" using assms(2) by (simp add: range_order_def)
  ultimately have ok': "fst (validateVoice_backends v (ord' ?m') [] ?m') = []"
    using validateVoice_backends_permute [OF mset] by simp
  from validateVoice_backends_result [OF ok' mset wf'] have "snd (validateVoice_backends v (ord' ?m') [] ?m') = ?m'" by simp
  moreover have "gm_len ?m' = gm_len ?m" by (simp add: with_tokens_def)
  ultimately show ?thesis
    using assms(4) True ok' by (auto simp: vc' validateVoiceChat_def Let_def split: prod.splits)
qed

lemma Validate_again:
  assumes "range_order ord" and "range_order ord'" and "gm_wf (vcBackends (cVoiceChat c))" and "Validate v ord c = (None, c')"
  shows "Validate v ord' c' = (None, c')"
proof -
  note parts = Validate_parts [OF assms(4)]
  have again: "validateVoiceChat v ord' (cVoiceChat c') = (None, cVoiceChat c')"
    using validateVoiceChat_again [OF assms(1-3) parts(9)] .
  obtain vc where c': "c' = c\<lparr>cVoiceChat := vc\<rparr>" using parts(13) by blast
  have "vcEnabled vc = vcEnabled (cVoiceChat c)" "vcListen vc = vcListen (cVoiceChat c)"
    using parts(9) by (auto simp: c' validateVoiceChat_def Let_def split: prod.splits if_splits)
  moreover have "validate_default_route c' = validate_default_route c" by (simp add: validate_default_route_def c')
  moreover have "validateVoiceChat v ord (cVoiceChat c) = (None, vc)" "validateVoiceChat v ord' vc = (None, vc)"
    using parts(9) again by (simp_all add: c')
  ultimately show ?thesis
    using assms(4) by (simp add: Validate_def Let_def c' cong: if_cong split del: if_split)
qed

lemma validateVoice_backends_wf: "gm_wf m \<Longrightarrow> gm_wf (snd (validateVoice_backends v bs seen m))"
proof (induction bs arbitrary: seen m)
  case (Cons x bs)
  then show ?case by (cases x) (auto simp: Let_def case_prod_beta)
qed simp

lemma Validate_voice_wf:
  assumes "gm_wf (vcBackends (cVoiceChat c))" shows "gm_wf (vcBackends (cVoiceChat (snd (Validate v ord c))))"
  using assms by (simp add: Validate_def validateVoiceChat_def Let_def case_prod_beta validateVoice_backends_wf)

section \<open>Properties\<close>

lemma TrimSpace_sample:
  "TrimSpace '':25565'' = '':25565''" "TrimSpace DefaultKubernetesAnnotationPrefix = DefaultKubernetesAnnotationPrefix"
  by (rule TrimSpace_plain, simp add: plain_char_def DefaultKubernetesAnnotationPrefix_def)+

lemma Defaults_prefix: "validateAnnotationPrefix DefaultKubernetesAnnotationPrefix = None"
proof -
  have "dns_name DefaultKubernetesAnnotationPrefix" by code_simp
  then have "Normalize DefaultKubernetesAnnotationPrefix = Inr DefaultKubernetesAnnotationPrefix"
    by (rule dns_name_canonical(1))
  moreover have "DefaultKubernetesAnnotationPrefix \<noteq> ''''" "CHR ''/'' \<notin> set DefaultKubernetesAnnotationPrefix"
    by (simp_all add: DefaultKubernetesAnnotationPrefix_def)
  ultimately show ?thesis by (simp add: validateAnnotationPrefix_def TrimSpace_sample)
qed

lemma Defaults_parts:
  "validateClientPolicy (cClientPolicy Defaults) = None" "validateClientRateLimit (cClientRateLimit Defaults) = None"
  "ParseCIDRs (ppTrustedProxies (cProxyProtocol Defaults)) = Inr []"
  "validateScalerWebhook v (cScalerWebhook Defaults) = None" "validateConfigReload (cConfigReload Defaults) = None"
  "validateAvailability v (cAvailability Defaults) = None" "validateUDPRelay v (cUDPRelay Defaults) = None"
  "validateBedrock v (cBedrock Defaults) = None" "validateVoiceChat v ord (cVoiceChat Defaults) = (None, cVoiceChat Defaults)"
  "validate_fallback (cFallback Defaults) = []" "validate_default_route Defaults = []"
  by (simp_all add: Defaults_def validateClientPolicy_def Policy_New_def parsePrefixes_def validateClientRateLimit_def
      ParseCIDRs_def validateScalerWebhook_def validateConfigReload_def validateAvailability_def validateUDPRelay_def
      validateBedrock_def validateVoiceChat_def validate_fallback_def validate_default_route_def)

lemma Validate_Defaults: "Validate v ord Defaults = (None, Defaults)"
proof -
  have "validateKubernetesDiscovery (dsKubernetes (cDiscovery Defaults)) = None"
    by (simp add: Defaults_def validateKubernetesDiscovery_def Defaults_prefix)
  moreover have "cListen Defaults = '':25565''" "0 < cHandshakeTimeout Defaults" "0 < cBackendDialTimeout Defaults"
    "\<not> mtEnabled (cMetrics Defaults)" "\<not> urEnabled (cUDPRelay Defaults)" "\<not> bdEnabled (cBedrock Defaults)" "cRoutes Defaults = []"
    by (simp_all add: Defaults_def durations)
  ultimately show ?thesis
    by (simp add: Validate_def Defaults_parts TrimSpace_sample Let_def)
qed

text \<open>The built-in defaults are a valid configuration on every machine, and validation leaves them
  unchanged.\<close>

theorem Defaults_valid: "Validate v ord Defaults = (None, Defaults)"
  by (rule Validate_Defaults)

text \<open>C26: the routes of an accepted configuration. Besides what is checked of the other sections, a
  configuration is accepted exactly when every server address and alias is a valid address, no two
  of them, in one route or in different ones, have the same normal form, and every backend,
  status backend and status override is well formed.\<close>

theorem Validate_routes:
  "fst (Validate v ord c) = None \<longleftrightarrow>
     fst (Validate v ord (c\<lparr>cRoutes := []\<rparr>)) = None \<and>
     names_ok (all_identities (cRoutes c)) \<and> distinct (map normal (all_identities (cRoutes c))) \<and>
     list_all route_wf (cRoutes c)"
  by (subst Validate_None_iff) (simp add: routes_wf_def)

text \<open>Validation is stable. The router and the server validate the configuration they are given
  again; a configuration that was accepted is accepted again, in whatever order the maps are visited,
  and the tokens stored in it do not change.\<close>

theorem Validate_stable:
  assumes "range_order ord" and "range_order ord'" and "gm_wf (vcBackends (cVoiceChat c))"
    and "Validate v ord c = (None, c')"
  shows "Validate v ord' c' = (None, c')"
  using assms by (rule Validate_again)

text \<open>The voice backends of an accepted configuration. Each carries the value of its environment
  variable as its token, no token is blank, and no two backends share one, so a token identifies
  its backend.\<close>

theorem voice_tokens_identify:
  assumes "range_order ord" and "gm_wf (vcBackends (cVoiceChat c))" and "vcEnabled (cVoiceChat c)"
    and "Validate v ord c = (None, c')"
    and "gm_get (vcBackends (cVoiceChat c')) i = Some b" and "gm_get (vcBackends (cVoiceChat c')) j = Some d"
  shows "Token b = Getenv v (vbTokenEnv b) \<and> TrimSpace (Token b) \<noteq> '''' \<and> (Token b = Token d \<longrightarrow> i = j)"
proof -
  let ?m = "vcBackends (cVoiceChat c)"
  note vc = Validate_parts(9) [OF assms(4)]
  have m': "vcBackends (cVoiceChat c') = with_tokens v ?m"
    using validateVoiceChat_eq [OF assms(1,2), of v] vc assms(3) by simp
  have ok: "list_all (voice_backend_wf v) ?m \<and> distinct (map (env_token v) ?m)"
    using vc assms(1,3) validateVoice_backends_permute [of "ord ?m" ?m v ?m]
    by (auto simp: validateVoiceChat_def Let_def range_order_def split: prod.splits)
  from assms(5,6) obtain b0 d0 where
    b0: "gm_get ?m i = Some b0" "b = b0\<lparr>vbtoken := Getenv v (vbTokenEnv b0)\<rparr>" and
    d0: "gm_get ?m j = Some d0" "d = d0\<lparr>vbtoken := Getenv v (vbTokenEnv d0)\<rparr>"
    by (auto simp: m' with_tokens_get)
  then have mem: "(i, b0) \<in> set ?m" "(j, d0) \<in> set ?m" by (auto dest: gm_get_in)
  with ok have "TrimSpace (Token b) \<noteq> ''''" by (auto simp: Token_def b0 voice_backend_wf_def list_all_iff)
  moreover have "i = j" if "Token b = Token d"
  proof -
    from that have "env_token v (i, b0) = env_token v (j, d0)" by (simp add: Token_def b0 d0 env_token_def)
    with mem ok have "(i, b0) = (j, d0)" by (auto simp: distinct_map dest: inj_onD)
    then show ?thesis by simp
  qed
  ultimately show ?thesis by (simp add: Token_def b0)
qed

definition sample_env :: env where
  "sample_env = \<lparr>Getenv = (\<lambda>s. if s = ''LOBBY_TOKEN'' then ''s3cret'' else ''''), ResolveUDPAddr = (\<lambda>_. None),
     ResolveTCPAddr = (\<lambda>_. None), ParseRequestURI = (\<lambda>_. Inl [Msg ''no URL''])\<rparr>"

definition sample_voice :: VoiceChat where
  "sample_voice = (cVoiceChat Defaults)\<lparr>vcEnabled := True,
     vcBackends := [(''lobby'', \<lparr>vbUDP = ''lobby:24454'', vbTokenEnv = ''LOBBY_TOKEN'', vbtoken = ''''\<rparr>)]\<rparr>"

lemma sample_backend:
  "validateUDPBackend ''voiceChat.backends.udp'' ''lobby:24454'' = []"
proof -
  have "dns_name ''lobby''" "all_digits ''24454''" by code_simp+
  moreover have "decimal ''24454'' = 24454" by (simp add: decimal_def digit_val_def)
  moreover have j: "JoinHostPort ''lobby'' ''24454'' = ''lobby:24454''" by (simp add: JoinHostPort_def)
  ultimately have "validateBackend ''lobby:24454'' = None"
    using validateBackend_host_port [of "''lobby''" "''24454''"] by simp
  moreover have "ParseIP ''lobby'' = None" by code_simp
  moreover have "SplitHostPort ''lobby:24454'' = Inr (''lobby'', ''24454'')" by code_simp
  ultimately show ?thesis by (simp add: validateUDPBackend_def validateUDPBackendAddress_def and_err_def)
qed

lemma sample_voice_valid:
  "validateVoiceChat sample_env (\<lambda>m. m) sample_voice =
     (None, sample_voice\<lparr>vcBackends := with_tokens sample_env (vcBackends sample_voice)\<rparr>)"
proof -
  have plain: "TrimSpace '':24454'' = '':24454''" "TrimSpace ''127.0.0.1:9091'' = ''127.0.0.1:9091''"
    "TrimSpace ''lobby'' = ''lobby''" "TrimSpace ''LOBBY_TOKEN'' = ''LOBBY_TOKEN''" "TrimSpace ''s3cret'' = ''s3cret''"
    by (rule TrimSpace_plain, simp add: plain_char_def)+
  have b: "validateVoice_backends sample_env (vcBackends sample_voice) [] (vcBackends sample_voice) =
      ([], with_tokens sample_env (vcBackends sample_voice))"
    by (simp add: sample_voice_def sample_env_def plain sample_backend with_tokens_def if_err_def ContainsAny_def)
  show ?thesis
    by (simp add: validateVoiceChat_def b)
       (simp add: sample_voice_def Defaults_def validateListen_def plain sample_env_def and_err_def durations
         MaxUDPRelayIdleTimeout_def MaxVoiceChatRegistrations_def MaxUDPRelaySessions_def MaxUDPRelayPacketSize_def)
qed

definition sample_config :: Config where
  "sample_config = Defaults\<lparr>cVoiceChat := sample_voice\<rparr>"

lemma sample_config_valid:
  "Validate sample_env (\<lambda>m. m) sample_config =
     (None, sample_config\<lparr>cVoiceChat := sample_voice\<lparr>vcBackends := with_tokens sample_env (vcBackends sample_voice)\<rparr>\<rparr>)"
proof -
  have "validateKubernetesDiscovery (dsKubernetes (cDiscovery Defaults)) = None"
    by (simp add: Defaults_def validateKubernetesDiscovery_def Defaults_prefix)
  moreover have "cListen Defaults = '':25565''" "0 < cHandshakeTimeout Defaults" "0 < cBackendDialTimeout Defaults"
    "\<not> mtEnabled (cMetrics Defaults)" "\<not> urEnabled (cUDPRelay Defaults)" "\<not> bdEnabled (cBedrock Defaults)" "cRoutes Defaults = []"
    "validate_default_route (Defaults\<lparr>cVoiceChat := sample_voice\<rparr>) = []"
    by (simp_all add: Defaults_def durations validate_default_route_def)
  ultimately show ?thesis
    by (simp add: sample_config_def Validate_def Defaults_parts TrimSpace_sample Let_def sample_voice_valid)
qed

theorem Validate_stable_witness:
  "Validate sample_env rev (snd (Validate sample_env (\<lambda>m. m) sample_config)) = (None, snd (Validate sample_env (\<lambda>m. m) sample_config))"
proof -
  have "range_order rev" by (simp add: range_order_def)
  moreover have "gm_wf (vcBackends (cVoiceChat sample_config))" by (simp add: sample_config_def sample_voice_def gm_wf_def)
  ultimately show ?thesis
    unfolding sample_config_valid snd_conv
    using Validate_stable [OF range_order_id _ _ sample_config_valid, of rev] by simp
qed

theorem voice_tokens_identify_witness:
  "\<exists>b. gm_get (vcBackends (cVoiceChat (snd (Validate sample_env (\<lambda>m. m) sample_config)))) ''lobby'' = Some b \<and>
     Token b = ''s3cret''"
proof -
  let ?b = "\<lparr>vbUDP = ''lobby:24454'', vbTokenEnv = ''LOBBY_TOKEN'', vbtoken = ''s3cret''\<rparr>"
  let ?c' = "sample_config\<lparr>cVoiceChat := sample_voice\<lparr>vcBackends := with_tokens sample_env (vcBackends sample_voice)\<rparr>\<rparr>"
  have get: "gm_get (vcBackends (cVoiceChat ?c')) ''lobby'' = Some ?b"
    by (simp add: with_tokens_def sample_voice_def sample_env_def)
  have "gm_wf (vcBackends (cVoiceChat sample_config))" "vcEnabled (cVoiceChat sample_config)"
    by (simp_all add: sample_config_def sample_voice_def gm_wf_def)
  from voice_tokens_identify [OF range_order_id this sample_config_valid get get]
  have "Token ?b = ''s3cret''" by (simp add: sample_env_def)
  with get show ?thesis unfolding sample_config_valid snd_conv by blast
qed

end
