(* ===== verification/Kubernetes.thy ===== *)
theory Kubernetes
  imports Hostaddr GoSort
begin

text \<open>
  Discovery of routes from the annotations of Kubernetes Services:
  \<open>internal/discovery/kubernetes/annotations.go\<close> (one Service), \<open>controller.go\<close> (the complete set),
  \<open>namespace.go\<close> and \<open>snapshot_provider.go\<close>. The text of an error, which breaks ties in one of the
  orderings, is the argument \<open>render\<close>.
\<close>

section \<open>Services and routes\<close>

definition ReasonDisabled :: string where "ReasonDisabled = ''disabled''"
definition ReasonInvalidPrefix :: string where "ReasonInvalidPrefix = ''invalid_annotation_prefix''"
definition ReasonInvalidServiceName :: string where "ReasonInvalidServiceName = ''invalid_service_name''"
definition ReasonInvalidNamespace :: string where "ReasonInvalidNamespace = ''invalid_namespace''"
definition ReasonMissingHost :: string where "ReasonMissingHost = ''missing_host''"
definition ReasonInvalidHost :: string where "ReasonInvalidHost = ''invalid_host''"
definition ReasonMissingPort :: string where "ReasonMissingPort = ''missing_port''"
definition ReasonInvalidPort :: string where "ReasonInvalidPort = ''invalid_port''"
definition ReasonPortNotFound :: string where "ReasonPortNotFound = ''port_not_found''"
definition ReasonDuplicateHost :: string where "ReasonDuplicateHost = ''duplicate_host''"
definition ReasonUnknown :: string where "ReasonUnknown = ''unknown''"
definition DefaultAnnotationPrefix :: string where "DefaultAnnotationPrefix = ''mc-router.alexandergg.com''"
definition AnnotationEnabled :: string where "AnnotationEnabled = ''enabled''"
definition AnnotationHost :: string where "AnnotationHost = ''host''"
definition AnnotationPort :: string where "AnnotationPort = ''port''"

record ServicePort =
  svpName :: string
  svpPort :: int

record ServiceInput =
  siName :: string
  siNamespace :: string
  siAnnotations :: "(string, string) gomap"
  siPorts :: "ServicePort list"

record DiscoveredRoute =
  drtHost :: string
  drtBackend :: string

datatype ParseResult = Parsed DiscoveredRoute | Skipped string "error option"

record SkippedRoute =
  skHost :: string
  skBackend :: string
  skReason :: string
  skErr :: "error option"

definition k8s_isDNSLabel :: "string \<Rightarrow> bool" where
  "k8s_isDNSLabel value =
     (if length value < 1 \<or> length value > 63 then False
      else if list_ex (\<lambda>c. \<not> label_char c) value then False
      else hd value \<noteq> CHR ''-'' \<and> last value \<noteq> CHR ''-'')"

definition k8s_validateAnnotationPrefix :: "string \<Rightarrow> error option" where
  "k8s_validateAnnotationPrefix prefix =
     (if TrimSpace prefix = '''' then Some [Msg ''annotation prefix must not be empty'']
      else if TrimSpace prefix \<noteq> prefix then Some [Msg ''annotation prefix must not contain leading or trailing whitespace'']
      else if CHR ''/'' \<in> set prefix then Some [Msg ''annotation prefix must not contain /'']
      else (case Normalize prefix of
              Inl e \<Rightarrow> Some e
            | Inr normalized \<Rightarrow>
                if normalized \<noteq> prefix then Some [Msg ''annotation prefix must be a canonical lowercase DNS subdomain''] else None))"

fun serviceHasPort :: "ServicePort list \<Rightarrow> int \<Rightarrow> bool" where
  "serviceHasPort [] port = False"
| "serviceHasPort (servicePort # ports) port = (if svpPort servicePort = port then True else serviceHasPort ports port)"

definition annotation :: "ServiceInput \<Rightarrow> string \<Rightarrow> string \<Rightarrow> string option" where
  \<comment> \<open>\<open>service.Annotations[prefix + "/" + name]\<close>\<close>
  "annotation service prefix name = gm_get (siAnnotations service) (prefix @ ''/'' @ name)"

definition cluster_host :: "ServiceInput \<Rightarrow> string" where
  "cluster_host service = siName service @ ''.'' @ siNamespace service @ ''.svc.cluster.local''"

definition ParseServiceAnnotations :: "string \<Rightarrow> ServiceInput \<Rightarrow> ParseResult" where
  "ParseServiceAnnotations prefix service =
     (case k8s_validateAnnotationPrefix prefix of
        Some e \<Rightarrow> Skipped ReasonInvalidPrefix (Some e)
      | None \<Rightarrow>
          if annotation service prefix AnnotationEnabled \<noteq> Some ''true'' then Skipped ReasonDisabled None
          else if \<not> k8s_isDNSLabel (siName service) then Skipped ReasonInvalidServiceName (Some [Msg ''service name must be a DNS label''])
          else if \<not> k8s_isDNSLabel (siNamespace service) then Skipped ReasonInvalidNamespace (Some [Msg ''namespace must be a DNS label''])
          else
            (case annotation service prefix AnnotationHost of
               None \<Rightarrow> Skipped ReasonMissingHost (Some [Msg ''host annotation is required''])
             | Some hostValue \<Rightarrow>
                 if TrimSpace hostValue = '''' then Skipped ReasonMissingHost (Some [Msg ''host annotation is required''])
                 else
                   (case Normalize hostValue of
                      Inl e \<Rightarrow> Skipped ReasonInvalidHost (Some e)
                    | Inr host \<Rightarrow>
                        (case annotation service prefix AnnotationPort of
                           None \<Rightarrow> Skipped ReasonMissingPort (Some [Msg ''port annotation is required''])
                         | Some portValue \<Rightarrow>
                             if TrimSpace portValue = '''' then Skipped ReasonMissingPort (Some [Msg ''port annotation is required''])
                             else
                               (case Atoi (TrimSpace portValue) of
                                  None \<Rightarrow> Skipped ReasonInvalidPort (Some [Msg ''port annotation must be an integer from 1 to 65535''])
                                | Some port \<Rightarrow>
                                    if port < 1 \<or> port > 65535
                                    then Skipped ReasonInvalidPort (Some [Msg ''port annotation must be an integer from 1 to 65535''])
                                    else if \<not> serviceHasPort (siPorts service) port
                                    then Skipped ReasonPortNotFound (Some [Msg ''port is not present in service ports''])
                                    else Parsed \<lparr>drtHost = host,
                                           drtBackend = JoinHostPort (cluster_host service) (Itoa (nat port))\<rparr>)))))"

section \<open>Counting\<close>

definition gm_incr :: "('k, nat) gomap \<Rightarrow> 'k \<Rightarrow> ('k, nat) gomap" where
  \<comment> \<open>\<open>m[k]++\<close>\<close>
  "gm_incr m k = gm_set m k (case gm_get m k of None \<Rightarrow> 1 | Some n \<Rightarrow> Suc n)"

definition gm_count :: "('k, nat) gomap \<Rightarrow> 'k \<Rightarrow> nat" where
  \<comment> \<open>\<open>m[k]\<close>, zero when the key is absent\<close>
  "gm_count m k = (case gm_get m k of None \<Rightarrow> 0 | Some n \<Rightarrow> n)"

lemma gm_count_incr: "gm_count (gm_incr m k) = (gm_count m)(k := Suc (gm_count m k))"
  by (auto simp: gm_count_def gm_incr_def fun_eq_iff split: option.split)

lemma gm_count_fold: "gm_count (foldl gm_incr m xs) x = gm_count m x + count_list xs x"
  by (induction xs arbitrary: m) (auto simp: gm_count_incr)

section \<open>Duplicate hosts\<close>

fun DropDuplicateHosts_normalize :: "DiscoveredRoute list \<Rightarrow> DiscoveredRoute list \<times> SkippedRoute list \<times> (string, nat) gomap \<Rightarrow>
    DiscoveredRoute list \<times> SkippedRoute list \<times> (string, nat) gomap" where
  "DropDuplicateHosts_normalize [] st = st"
| "DropDuplicateHosts_normalize (route # routes) (normalized, skipped, counts) =
     (case Normalize (drtHost route) of
        Inl e \<Rightarrow> DropDuplicateHosts_normalize routes
          (normalized, skipped @ [\<lparr>skHost = drtHost route, skBackend = drtBackend route, skReason = ReasonInvalidHost, skErr = Some e\<rparr>], counts)
      | Inr host \<Rightarrow> DropDuplicateHosts_normalize routes (normalized @ [route\<lparr>drtHost := host\<rparr>], skipped, gm_incr counts host))"

fun DropDuplicateHosts_keep :: "(string, nat) gomap \<Rightarrow> DiscoveredRoute list \<Rightarrow> DiscoveredRoute list \<times> SkippedRoute list \<Rightarrow>
    DiscoveredRoute list \<times> SkippedRoute list" where
  "DropDuplicateHosts_keep counts [] st = st"
| "DropDuplicateHosts_keep counts (route # routes) (kept, skipped) =
     (if gm_count counts (drtHost route) > 1
      then DropDuplicateHosts_keep counts routes
        (kept, skipped @ [\<lparr>skHost = drtHost route, skBackend = drtBackend route, skReason = ReasonDuplicateHost,
                           skErr = Some [Msg ''host is discovered more than once'']\<rparr>])
      else DropDuplicateHosts_keep counts routes (kept @ [route], skipped))"

definition DropDuplicateHosts :: "DiscoveredRoute list \<Rightarrow> DiscoveredRoute list \<times> SkippedRoute list" where
  "DropDuplicateHosts routes =
     (case DropDuplicateHosts_normalize routes ([], [], []) of
        (normalized, skipped, counts) \<Rightarrow> DropDuplicateHosts_keep counts normalized ([], skipped))"

section \<open>The complete set of Services\<close>

record SkippedResource =
  srServiceName :: string
  srNamespace :: string
  srHost :: string
  srBackend :: string
  srReason :: string
  srErr :: "error option"

record routeCandidate =
  rcRoute :: DiscoveredRoute
  rcServiceName :: string
  rcNamespace :: string

record k8s_Result =
  krRoutes :: "DiscoveredRoute list"
  krSkipped :: "SkippedResource list"
  krDuplicateHosts :: "string list"
  krSkippedByReason :: "(string, nat) gomap"

definition addSkipped :: "k8s_Result \<Rightarrow> SkippedResource \<Rightarrow> k8s_Result" where
  "addSkipped r skipped0 =
     (let skipped = (if srReason skipped0 = '''' then skipped0\<lparr>srReason := ReasonUnknown\<rparr> else skipped0)
      in r\<lparr>krSkipped := krSkipped r @ [skipped], krSkippedByReason := gm_incr (krSkippedByReason r) (srReason skipped)\<rparr>)"

definition safeParseServiceAnnotations :: "string \<Rightarrow> ServiceInput \<Rightarrow> ParseResult" where
  \<comment> \<open>parsing is total, so there is no panic to recover from\<close>
  "safeParseServiceAnnotations prefix service = ParseServiceAnnotations prefix service"

definition lessCandidate :: "routeCandidate \<Rightarrow> routeCandidate \<Rightarrow> bool" where
  "lessCandidate left right =
     (if drtHost (rcRoute left) \<noteq> drtHost (rcRoute right) then drtHost (rcRoute left) < drtHost (rcRoute right)
      else if drtBackend (rcRoute left) \<noteq> drtBackend (rcRoute right) then drtBackend (rcRoute left) < drtBackend (rcRoute right)
      else if rcNamespace left \<noteq> rcNamespace right then rcNamespace left < rcNamespace right
      else rcServiceName left < rcServiceName right)"

definition errorString :: "(error \<Rightarrow> string) \<Rightarrow> error option \<Rightarrow> string" where
  "errorString render err = (case err of None \<Rightarrow> '''' | Some e \<Rightarrow> render e)"

definition lessSkipped :: "(error \<Rightarrow> string) \<Rightarrow> SkippedResource \<Rightarrow> SkippedResource \<Rightarrow> bool" where
  "lessSkipped render left right =
     (if srReason left \<noteq> srReason right then srReason left < srReason right
      else if srHost left \<noteq> srHost right then srHost left < srHost right
      else if srNamespace left \<noteq> srNamespace right then srNamespace left < srNamespace right
      else if srServiceName left \<noteq> srServiceName right then srServiceName left < srServiceName right
      else if srBackend left \<noteq> srBackend right then srBackend left < srBackend right
      else errorString render (srErr left) < errorString render (srErr right))"

definition sortedKeys :: "(string \<times> unit) list \<Rightarrow> string list" where
  \<comment> \<open>the order of the range loop does not matter: the keys are sorted\<close>
  "sortedKeys values = sort_Strings (map fst values)"

fun Build_candidates :: "string \<Rightarrow> ServiceInput list \<Rightarrow> k8s_Result \<times> routeCandidate list \<Rightarrow> k8s_Result \<times> routeCandidate list" where
  \<comment> \<open>the loop over the services\<close>
  "Build_candidates prefix [] st = st"
| "Build_candidates prefix (service # services) (result, candidates) =
     (case safeParseServiceAnnotations prefix service of
        Skipped reason err \<Rightarrow> Build_candidates prefix services
          (addSkipped result \<lparr>srServiceName = siName service, srNamespace = siNamespace service, srHost = '''', srBackend = '''',
             srReason = reason, srErr = err\<rparr>, candidates)
      | Parsed route \<Rightarrow> Build_candidates prefix services
          (result, candidates @ [\<lparr>rcRoute = route, rcServiceName = siName service, rcNamespace = siNamespace service\<rparr>]))"

fun Build_routes :: "(string, nat) gomap \<Rightarrow> routeCandidate list \<Rightarrow> k8s_Result \<times> (string \<times> unit) list \<Rightarrow> k8s_Result \<times> (string \<times> unit) list" where
  \<comment> \<open>the loop over the sorted candidates\<close>
  "Build_routes hosts [] st = st"
| "Build_routes hosts (candidate # candidates) (result, duplicateHosts) =
     (if gm_count hosts (drtHost (rcRoute candidate)) > 1 then
        Build_routes hosts candidates
          (addSkipped result \<lparr>srServiceName = rcServiceName candidate, srNamespace = rcNamespace candidate,
             srHost = drtHost (rcRoute candidate), srBackend = drtBackend (rcRoute candidate),
             srReason = ReasonDuplicateHost, srErr = Some [Msg ''host is discovered more than once'']\<rparr>,
           gm_set duplicateHosts (drtHost (rcRoute candidate)) ())
      else Build_routes hosts candidates (result\<lparr>krRoutes := krRoutes result @ [rcRoute candidate]\<rparr>, duplicateHosts))"

definition BuildDiscoveredRoutes :: "(error \<Rightarrow> string) \<Rightarrow> ServiceInput list \<Rightarrow> string \<Rightarrow> k8s_Result" where
  \<comment> \<open>the last argument is \<open>options.AnnotationPrefix\<close>\<close>
  "BuildDiscoveredRoutes render services annotationPrefix =
     (let prefix = (if annotationPrefix = '''' then DefaultAnnotationPrefix else annotationPrefix);
          result0 = \<lparr>krRoutes = [], krSkipped = [], krDuplicateHosts = [], krSkippedByReason = []\<rparr>;
          (result1, candidates0) = Build_candidates prefix services (result0, []);
          candidates = SliceStable lessCandidate candidates0;
          hosts = foldl gm_incr [] (map (\<lambda>c. drtHost (rcRoute c)) candidates);
          (result2, duplicateHosts) = Build_routes hosts candidates (result1, [])
      in result2\<lparr>krDuplicateHosts := sortedKeys duplicateHosts,
                 krSkipped := SliceStable (lessSkipped render) (krSkipped result2)\<rparr>)"

section \<open>Namespaces and snapshots\<close>

definition DefaultNamespacePath :: string where
  "DefaultNamespacePath = ''/var/run/secrets/kubernetes.io/serviceaccount/namespace''"

record NamespaceResolver =
  nrPath :: string
  nrReadFile :: "(string \<Rightarrow> bytes result) option"

definition validateNamespace :: "string \<Rightarrow> error option" where
  "validateNamespace namespace =
     (if TrimSpace namespace \<noteq> namespace then Some [Msg ''namespace must not contain leading or trailing whitespace'']
      else if \<not> k8s_isDNSLabel namespace then Some [Msg ''namespace must be a DNS label'']
      else None)"

definition resolver_path :: "NamespaceResolver \<Rightarrow> string" where
  "resolver_path r = (if nrPath r = '''' then DefaultNamespacePath else nrPath r)"

definition resolver_readFile :: "(string \<Rightarrow> bytes result) \<Rightarrow> NamespaceResolver \<Rightarrow> string \<Rightarrow> bytes result" where
  \<comment> \<open>the first argument is \<open>os.ReadFile\<close>\<close>
  "resolver_readFile osReadFile r path = (case nrReadFile r of Some f \<Rightarrow> f path | None \<Rightarrow> osReadFile path)"

definition ResolveNamespace :: "(string \<Rightarrow> bytes result) \<Rightarrow> string \<Rightarrow> NamespaceResolver \<Rightarrow> string result" where
  "ResolveNamespace osReadFile configured resolver =
     (if configured \<noteq> '''' then
        (case validateNamespace configured of
           Some e \<Rightarrow> Inl (Msg ''configured namespace'' # e) | None \<Rightarrow> Inr configured)
      else
        (case resolver_readFile osReadFile resolver (resolver_path resolver) of
           Inl e \<Rightarrow> Inl (Msg ''read current namespace file'' # e)
         | Inr data \<Rightarrow>
             (let namespace = TrimSpace (string_of data) in
              if namespace = '''' then Inl [Msg ''current namespace file is empty'']
              else (case validateNamespace namespace of
                      Some e \<Rightarrow> Inl (Msg ''current namespace file'' # e)
                    | None \<Rightarrow> Inr namespace))))"

record SnapshotProvider =
  snRoutes :: "DiscoveredRoute list"

definition NewSnapshotProvider :: "DiscoveredRoute list \<Rightarrow> SnapshotProvider" where
  "NewSnapshotProvider routes = \<lparr>snRoutes = routes\<rparr>"

definition NewSnapshotProviderFromResult :: "k8s_Result \<Rightarrow> SnapshotProvider" where
  "NewSnapshotProviderFromResult result = NewSnapshotProvider (krRoutes result)"

definition SnapshotProvider_Routes :: "SnapshotProvider \<Rightarrow> DiscoveredRoute list" where
  "SnapshotProvider_Routes p = snRoutes p"

section \<open>The result of a build\<close>

definition effective_prefix :: "string \<Rightarrow> string" where
  "effective_prefix p = (if p = '''' then DefaultAnnotationPrefix else p)"

definition candidate_of :: "string \<Rightarrow> ServiceInput \<Rightarrow> routeCandidate option" where
  "candidate_of prefix s =
     (case ParseServiceAnnotations prefix s of
        Parsed route \<Rightarrow> Some \<lparr>rcRoute = route, rcServiceName = siName s, rcNamespace = siNamespace s\<rparr>
      | Skipped _ _ \<Rightarrow> None)"

definition candidates_of :: "string \<Rightarrow> ServiceInput list \<Rightarrow> routeCandidate list" where
  "candidates_of prefix ss = List.map_filter (candidate_of prefix) ss"

definition host_of :: "routeCandidate \<Rightarrow> string" where
  "host_of c = drtHost (rcRoute c)"

lemma addSkipped_simps [simp]:
  "krRoutes (addSkipped r s) = krRoutes r" "krDuplicateHosts (addSkipped r s) = krDuplicateHosts r"
  "length (krSkipped (addSkipped r s)) = Suc (length (krSkipped r))"
  by (simp_all add: addSkipped_def Let_def)

lemma Build_candidates_result:
  "Build_candidates prefix ss (r, cs) = (r', cs') \<Longrightarrow>
     cs' = cs @ candidates_of prefix ss \<and> krRoutes r' = krRoutes r \<and>
     length (krSkipped r') + length cs' = length (krSkipped r) + length cs + length ss"
proof (induction ss arbitrary: r cs)
  case (Cons s ss)
  show ?case
  proof (cases "ParseServiceAnnotations prefix s")
    case (Parsed route)
    let ?c = "\<lparr>rcRoute = route, rcServiceName = siName s, rcNamespace = siNamespace s\<rparr>"
    have "Build_candidates prefix ss (r, cs @ [?c]) = (r', cs')"
      using Cons.prems by (simp add: safeParseServiceAnnotations_def Parsed)
    from Cons.IH [OF this] show ?thesis
      by (auto simp: candidates_of_def candidate_of_def Parsed map_filter_simps)
  next
    case (Skipped reason err)
    let ?s = "\<lparr>srServiceName = siName s, srNamespace = siNamespace s, srHost = '''', srBackend = '''', srReason = reason, srErr = err\<rparr>"
    have "Build_candidates prefix ss (addSkipped r ?s, cs) = (r', cs')"
      using Cons.prems by (simp add: safeParseServiceAnnotations_def Skipped)
    from Cons.IH [OF this] show ?thesis
      by (auto simp: candidates_of_def candidate_of_def Skipped map_filter_simps)
  qed
qed (simp add: candidates_of_def map_filter_simps)

lemma Build_routes_result:
  "Build_routes hosts cs (r, d) = (r', d') \<Longrightarrow>
     krRoutes r' = krRoutes r @ map rcRoute (filter (\<lambda>c. gm_count hosts (host_of c) \<le> 1) cs) \<and>
     length (krSkipped r') + length (krRoutes r') = length (krSkipped r) + length (krRoutes r) + length cs \<and>
     fst ` set d' = fst ` set d \<union> {h. \<exists>c \<in> set cs. host_of c = h \<and> gm_count hosts h > 1} \<and>
     (distinct (map fst d) \<longrightarrow> distinct (map fst d'))"
proof (induction cs arbitrary: r d)
  case (Cons c cs)
  show ?case
  proof (cases "gm_count hosts (host_of c) > 1")
    case True
    have "fst ` set (gm_set d (host_of c) ()) = insert (host_of c) (fst ` set d)"
      by (simp add: dom_update flip: dom_map_of_conv_image_fst)
    moreover have "distinct (map fst d) \<longrightarrow> distinct (map fst (gm_set d (host_of c) ()))"
      by (simp add: distinct_update)
    moreover obtain s where "Build_routes hosts cs (addSkipped r s, gm_set d (host_of c) ()) = (r', d')"
      using True Cons.prems by (auto simp: host_of_def)
    ultimately show ?thesis using Cons.IH [of "addSkipped r s" "gm_set d (host_of c) ()"] True by auto
  next
    case False
    then have "Build_routes hosts cs (r\<lparr>krRoutes := krRoutes r @ [rcRoute c]\<rparr>, d) = (r', d')"
      using Cons.prems by (simp add: host_of_def)
    from Cons.IH [OF this] False show ?thesis by auto
  qed
qed simp

lemma lessCandidate_weak: "strict_weak_order lessCandidate"
proof -
  have "lessCandidate = lex_lt (\<lambda>c. drtHost (rcRoute c)) (lex_lt (\<lambda>c. drtBackend (rcRoute c))
      (lex_lt rcNamespace (\<lambda>x y. rcServiceName x < rcServiceName y)))"
    by (auto simp: lessCandidate_def lex_lt_def fun_eq_iff)
  then show ?thesis by (elim ssubst) (intro strict_weak_order_lex strict_weak_order_key)
qed

lemma lessCandidate_total: "x \<noteq> y \<Longrightarrow> lessCandidate x y \<or> lessCandidate y x"
proof (rule ccontr)
  assume "x \<noteq> y" and "\<not> (lessCandidate x y \<or> lessCandidate y x)"
  then have "drtHost (rcRoute x) = drtHost (rcRoute y)" "drtBackend (rcRoute x) = drtBackend (rcRoute y)"
    "rcNamespace x = rcNamespace y" "rcServiceName x = rcServiceName y"
    by (auto simp: lessCandidate_def split: if_splits)
  then have "x = y" by (intro routeCandidate.equality DiscoveredRoute.equality) simp_all
  with \<open>x \<noteq> y\<close> show False ..
qed

interpretation candidate_order: strict_total_order lessCandidate
  by (intro strict_total_order.intro lessCandidate_weak strict_total_order_axioms.intro lessCandidate_total)

lemma lessSkipped_weak: "strict_weak_order (lessSkipped render)"
proof -
  have "lessSkipped render = lex_lt srReason (lex_lt srHost (lex_lt srNamespace (lex_lt srServiceName (lex_lt srBackend
      (\<lambda>x y. errorString render (srErr x) < errorString render (srErr y))))))"
    by (auto simp: lessSkipped_def lex_lt_def fun_eq_iff)
  then show ?thesis by (elim ssubst) (intro strict_weak_order_lex strict_weak_order_key)
qed

interpretation skipped_order: strict_weak_order "lessSkipped render" for render
  by (rule lessSkipped_weak)

definition unique_candidates :: "routeCandidate list \<Rightarrow> routeCandidate list" where
  "unique_candidates cs = filter (\<lambda>c. count_list (map host_of cs) (host_of c) \<le> 1) (SliceStable lessCandidate cs)"

lemma count_list_mset: "count_list xs x = count (mset xs) x"
  by (induction xs) auto

lemma BuildDiscoveredRoutes_result:
  fixes render ss p
  defines "r \<equiv> BuildDiscoveredRoutes render ss p" and "cs \<equiv> candidates_of (effective_prefix p) ss"
  shows "krRoutes r = map rcRoute (unique_candidates cs)"
    and "length (krRoutes r) + length (krSkipped r) = length ss"
    and "krDuplicateHosts r = sort_Strings (sorted_list_of_set {h. count_list (map host_of cs) h > 1})"
proof -
  let ?r0 = "\<lparr>krRoutes = [], krSkipped = [], krDuplicateHosts = [], krSkippedByReason = []\<rparr>"
  let ?sorted = "SliceStable lessCandidate cs"
  let ?hosts = "foldl gm_incr [] (map (\<lambda>c. drtHost (rcRoute c)) ?sorted)"
  obtain r1 where r1: "Build_candidates (effective_prefix p) ss (?r0, []) = (r1, cs)"
    and len1: "krRoutes r1 = []" "length (krSkipped r1) + length cs = length ss"
    using Build_candidates_result [of "effective_prefix p" ss ?r0 "[]"]
    by (cases "Build_candidates (effective_prefix p) ss (?r0, [])") (auto simp: cs_def)
  obtain r2 d where r2: "Build_routes ?hosts ?sorted (r1, []) = (r2, d)"
    by (cases "Build_routes ?hosts ?sorted (r1, [])")
  have hosts: "gm_count ?hosts h = count_list (map host_of cs) h" for h
    by (simp add: gm_count_fold gm_count_def [of "[]"] count_list_mset host_of_def [abs_def])
  have r: "r = r2\<lparr>krDuplicateHosts := sortedKeys d, krSkipped := SliceStable (lessSkipped render) (krSkipped r2)\<rparr>"
    using r1 r2 by (simp add: r_def BuildDiscoveredRoutes_def Let_def effective_prefix_def)
  note res = Build_routes_result [OF r2]
  show "krRoutes r = map rcRoute (unique_candidates cs)"
    using res len1 by (simp add: r hosts unique_candidates_def)
  show "length (krRoutes r) + length (krSkipped r) = length ss"
    using conjunct1 [OF conjunct2 [OF res]] len1 by (simp add: r)
  have "h \<in> host_of ` set cs" if "count_list (map host_of cs) h > 1" for h
    using that count_list_0_iff [of "map host_of cs" h] by (cases "h \<in> host_of ` set cs") auto
  then have "set (map fst d) = {h. count_list (map host_of cs) h > 1}" and "distinct (map fst d)"
    using res by (auto simp: hosts)
  then have "mset (map fst d) = mset (sorted_list_of_set {h. count_list (map host_of cs) h > 1})"
    by (metis List.finite_set distinct_sorted_list_of_set set_eq_iff_mset_eq_distinct set_sorted_list_of_set)
  then show "krDuplicateHosts r = sort_Strings (sorted_list_of_set {h. count_list (map host_of cs) h > 1})"
    by (simp add: r sortedKeys_def sort_Strings_permute [of "map fst d"])
qed

text \<open>A host is kept when exactly one service claims it; the kept hosts are strictly ascending.\<close>

lemma unique_candidates_set:
  "c \<in> set (unique_candidates cs) \<longleftrightarrow> c \<in> set cs \<and> count_list (map host_of cs) (host_of c) = 1"
proof -
  have "count_list (map host_of cs) (host_of c) \<ge> 1" if "c \<in> set cs"
    using that count_list_0_iff [of "map host_of cs" "host_of c"] by (auto simp: Suc_le_eq intro: ccontr)
  then show ?thesis by (auto simp: unique_candidates_def)
qed

lemma distinct_filter_count: "distinct (filter (\<lambda>x. count_list ys x \<le> 1) ys)"
  by (auto simp: distinct_count_atmost_1 count_list_mset le_Suc_eq count_eq_zero_iff)

lemma unique_candidates_sorted: "sorted_wrt (\<lambda>a b. host_of a < host_of b) (unique_candidates cs)"
proof -
  have one: "count_list (map host_of (SliceStable lessCandidate cs)) h = count_list (map host_of cs) h" for h
    by (simp add: count_list_mset)
  have "sorted_wrt (\<lambda>a b. \<not> lessCandidate b a) (SliceStable lessCandidate cs)"
    using candidate_order.sorted_SliceStable by (simp add: sorted_by_def)
  then have le: "sorted_wrt (\<lambda>a b. host_of a \<le> host_of b) (SliceStable lessCandidate cs)"
    by (rule sorted_wrt_mono_rel [rotated]) (auto simp: lessCandidate_def host_of_def split: if_splits)
  have "distinct (map host_of (filter (\<lambda>c. count_list (map host_of xs) (host_of c) \<le> 1) xs))" for xs
  proof -
    have "distinct (filter (\<lambda>x. count_list (map host_of xs) x \<le> 1) (map host_of xs))"
      by (rule distinct_filter_count)
    then show ?thesis by (simp add: filter_map o_def)
  qed
  from this [of "SliceStable lessCandidate cs"] have "distinct (map host_of (unique_candidates cs))"
    by (simp add: unique_candidates_def one)
  moreover have "sorted (map host_of (unique_candidates cs))"
    unfolding unique_candidates_def sorted_map using le by (rule sorted_wrt_filter)
  ultimately have "sorted_wrt (<) (map host_of (unique_candidates cs))" by (simp add: strict_sorted_iff)
  then show ?thesis by (simp add: sorted_wrt_map)
qed

lemma unique_candidates_permute:
  "mset cs = mset cs' \<Longrightarrow> unique_candidates cs = unique_candidates cs'"
proof -
  assume m: "mset cs = mset cs'"
  then have "count_list (map host_of cs) h = count_list (map host_of cs') h" for h
    by (simp add: count_list_mset)
  with candidate_order.SliceStable_permute [OF m] show ?thesis by (simp add: unique_candidates_def)
qed

lemma candidates_of_permute: "mset ss = mset ss' \<Longrightarrow> mset (candidates_of p ss) = mset (candidates_of p ss')"
  by (simp add: candidates_of_def List.map_filter_def)

lemma candidates_of_set:
  "c \<in> set (candidates_of p ss) \<longleftrightarrow> (\<exists>s \<in> set ss. candidate_of p s = Some c)"
  by (force simp: candidates_of_def List.map_filter_def)

section \<open>One service\<close>

lemma k8s_isDNSLabel_iff: "k8s_isDNSLabel s \<longleftrightarrow> valid_label s"
  by (cases "s = []") (auto simp: k8s_isDNSLabel_def valid_label_iff list_ex_iff list_all_iff)

lemma ParseServiceAnnotations_Parsed:
  assumes "ParseServiceAnnotations p s = Parsed r"
  obtains host port hv pv where
    "annotation s p AnnotationEnabled = Some ''true''" "k8s_isDNSLabel (siName s)" "k8s_isDNSLabel (siNamespace s)"
    "annotation s p AnnotationHost = Some hv" "Normalize hv = Inr host"
    "annotation s p AnnotationPort = Some pv" "Atoi (TrimSpace pv) = Some (int port)" "1 \<le> port" "port \<le> 65535"
    "serviceHasPort (siPorts s) (int port)"
    "r = \<lparr>drtHost = host, drtBackend = JoinHostPort (cluster_host s) (Itoa port)\<rparr>"
proof -
  from assms obtain host port hv pv where *: "annotation s p AnnotationEnabled = Some ''true''" "k8s_isDNSLabel (siName s)"
    "k8s_isDNSLabel (siNamespace s)" "annotation s p AnnotationHost = Some hv" "Normalize hv = Inr host"
    "annotation s p AnnotationPort = Some pv" "Atoi (TrimSpace pv) = Some port" "1 \<le> port" "port \<le> 65535"
    "serviceHasPort (siPorts s) port" "r = \<lparr>drtHost = host, drtBackend = JoinHostPort (cluster_host s) (Itoa (nat port))\<rparr>"
    by (auto simp: ParseServiceAnnotations_def not_less split: option.splits if_splits sum.splits)
  then have "int (nat port) = port" by simp
  with * show thesis by (intro that [of hv host pv "nat port"]) auto
qed

lemma cluster_host_dns:
  assumes "k8s_isDNSLabel (siName s)" and "k8s_isDNSLabel (siNamespace s)"
  shows "dns_name (cluster_host s)"
    and "Split (cluster_host s) (CHR ''.'') = [siName s, siNamespace s, ''svc'', ''cluster'', ''local'']"
proof -
  have labels: "valid_label (siName s)" "valid_label (siNamespace s)" using assms by (simp_all add: k8s_isDNSLabel_iff)
  then have dot: "CHR ''.'' \<notin> set (siName s)" "CHR ''.'' \<notin> set (siNamespace s)"
    by (auto simp: valid_label_iff label_char_not_special list_all_iff dest: label_char_not_special)
  have "cluster_host s = siName s @ CHR ''.'' # siNamespace s @ CHR ''.'' # ''svc.cluster.local''"
    by (simp add: cluster_host_def)
  moreover have "Split ''svc.cluster.local'' (CHR ''.'') = [''svc'', ''cluster'', ''local'']" by simp
  ultimately show split: "Split (cluster_host s) (CHR ''.'') = [siName s, siNamespace s, ''svc'', ''cluster'', ''local'']"
    using dot by (simp only: Split_append not_False_eq_True)
  have "length (siName s) \<le> 63" "length (siNamespace s) \<le> 63" using labels by (auto simp: valid_label_iff)
  then have "length (cluster_host s) \<le> MaxHostBytes" by (simp add: cluster_host_def MaxHostBytes_def)
  moreover have "valid_label ''svc''" "valid_label ''cluster''" "valid_label ''local''" by code_simp+
  ultimately show "dns_name (cluster_host s)" using labels by (simp add: dns_name_def split)
qed

section \<open>Properties\<close>

definition asks_for :: "string \<Rightarrow> string \<Rightarrow> ServiceInput \<Rightarrow> bool" where
  \<comment> \<open>the service has complete annotations for the host\<close>
  "asks_for p h s = (case ParseServiceAnnotations p s of Parsed r \<Rightarrow> drtHost r = h | Skipped _ _ \<Rightarrow> False)"

lemma count_candidates:
  "count_list (map host_of (candidates_of p ss)) h = length (filter (asks_for p h) ss)"
  by (induction ss)
     (auto simp: candidates_of_def candidate_of_def map_filter_simps asks_for_def host_of_def split: ParseResult.split)

lemma candidate_of_route:
  "(\<exists>c. candidate_of p s = Some c \<and> rcRoute c = rt) \<longleftrightarrow> ParseServiceAnnotations p s = Parsed rt"
  by (auto simp: candidate_of_def split: ParseResult.splits)

text \<open>C27: what a set of Services yields. The routes are strictly ascending in their host, so no host
  occurs twice. A route is there exactly when some Service has complete annotations for it and no
  other Service asks for the same host. Every Service is accounted for, as a route or as skipped.\<close>

theorem discovered_routes_exact:
  "sorted_wrt (\<lambda>a b. drtHost a < drtHost b) (krRoutes (BuildDiscoveredRoutes render ss p)) \<and>
   (rt \<in> set (krRoutes (BuildDiscoveredRoutes render ss p)) \<longleftrightarrow>
      (\<exists>s \<in> set ss. ParseServiceAnnotations (effective_prefix p) s = Parsed rt) \<and>
      length (filter (asks_for (effective_prefix p) (drtHost rt)) ss) = 1) \<and>
   length (krRoutes (BuildDiscoveredRoutes render ss p)) + length (krSkipped (BuildDiscoveredRoutes render ss p)) = length ss"
proof (intro conjI)
  let ?cs = "candidates_of (effective_prefix p) ss"
  note result = BuildDiscoveredRoutes_result [of render ss p]
  show "sorted_wrt (\<lambda>a b. drtHost a < drtHost b) (krRoutes (BuildDiscoveredRoutes render ss p))"
    using unique_candidates_sorted [of ?cs] by (simp add: result sorted_wrt_map host_of_def)
  show "length (krRoutes (BuildDiscoveredRoutes render ss p)) + length (krSkipped (BuildDiscoveredRoutes render ss p)) = length ss"
    by (rule result)
  have "rt \<in> set (krRoutes (BuildDiscoveredRoutes render ss p)) \<longleftrightarrow>
      (\<exists>c. c \<in> set ?cs \<and> rcRoute c = rt \<and> count_list (map host_of ?cs) (drtHost rt) = 1)"
    by (auto simp: result unique_candidates_set host_of_def)
  also have "\<dots> \<longleftrightarrow> (\<exists>s \<in> set ss. ParseServiceAnnotations (effective_prefix p) s = Parsed rt) \<and>
      length (filter (asks_for (effective_prefix p) (drtHost rt)) ss) = 1"
    unfolding count_candidates candidates_of_set candidate_of_route [symmetric] by blast
  finally show "rt \<in> set (krRoutes (BuildDiscoveredRoutes render ss p)) \<longleftrightarrow>
      (\<exists>s \<in> set ss. ParseServiceAnnotations (effective_prefix p) s = Parsed rt) \<and>
      length (filter (asks_for (effective_prefix p) (drtHost rt)) ss) = 1" .
qed

text \<open>The order in which the API server lists the Services does not matter.\<close>

lemma discovered_routes_order:
  assumes "mset ss = mset ss'"
  shows "krRoutes (BuildDiscoveredRoutes render ss p) = krRoutes (BuildDiscoveredRoutes render ss' p) \<and>
    krDuplicateHosts (BuildDiscoveredRoutes render ss p) = krDuplicateHosts (BuildDiscoveredRoutes render ss' p)"
proof -
  note m = candidates_of_permute [OF assms, of "effective_prefix p"]
  then have "count_list (map host_of (candidates_of (effective_prefix p) ss)) h =
      count_list (map host_of (candidates_of (effective_prefix p) ss')) h" for h
    by (simp add: count_list_mset)
  with unique_candidates_permute [OF m] show ?thesis by (simp add: BuildDiscoveredRoutes_result)
qed

text \<open>A Service can only route to itself. Whatever its annotations say, the backend of the route
  is the cluster address of this very Service with one of its own ports, and the host is canonical;
  nothing in the annotations can point a host at another backend.\<close>

theorem service_routes_to_itself:
  "case ParseServiceAnnotations p s of
     Skipped reason err \<Rightarrow> reason \<in> {ReasonInvalidPrefix, ReasonDisabled, ReasonInvalidServiceName, ReasonInvalidNamespace,
       ReasonMissingHost, ReasonInvalidHost, ReasonMissingPort, ReasonInvalidPort, ReasonPortNotFound}
   | Parsed r \<Rightarrow> annotation s p AnnotationEnabled = Some ''true'' \<and> canonical_host (drtHost r) \<and>
       (\<exists>port. serviceHasPort (siPorts s) (int port) \<and> 1 \<le> port \<and> port \<le> 65535 \<and>
          drtBackend r = siName s @ ''.'' @ siNamespace s @ ''.svc.cluster.local:'' @ Itoa port)"
proof (cases "ParseServiceAnnotations p s")
  case (Skipped reason err)
  then show ?thesis
    by (auto simp: ParseServiceAnnotations_def split: option.splits if_splits sum.splits)
next
  case (Parsed r)
  then show ?thesis
  proof (rule ParseServiceAnnotations_Parsed)
    fix host port hv pv
    assume *: "annotation s p AnnotationEnabled = Some ''true''" "k8s_isDNSLabel (siName s)" "k8s_isDNSLabel (siNamespace s)"
      "Normalize hv = Inr host" "1 \<le> port" "port \<le> 65535" "serviceHasPort (siPorts s) (int port)"
      "r = \<lparr>drtHost = host, drtBackend = JoinHostPort (cluster_host s) (Itoa port)\<rparr>"
    have "CHR '':'' \<notin> set (cluster_host s)"
      using dns_name_host_port_free [OF cluster_host_dns(1) [OF *(2,3)]] by (simp add: host_port_free_def)
    then have "drtBackend r = siName s @ ''.'' @ siNamespace s @ ''.svc.cluster.local:'' @ Itoa port"
      by (simp add: *(8) JoinHostPort_def cluster_host_def)
    with * Parsed show ?thesis by (auto intro: Normalize_canonical)
  qed
qed

end
