(* ===== verification/Discovery.thy ===== *)
theory Discovery
  imports Config Kubernetes
begin

text \<open>
  The merge of configured and discovered routes, \<open>internal/discovery/merge.go\<close>, and the route
  providers of \<open>provider.go\<close>. The main result is that the merged routes of a valid configuration
  are valid again, whatever was discovered.
\<close>

section \<open>Merging\<close>

definition ReasonStaticRoutePrecedence :: string where "ReasonStaticRoutePrecedence = ''static_route_precedence''"
definition ReasonDuplicateDiscovered :: string where "ReasonDuplicateDiscovered = ''duplicate_discovered_host''"
definition ReasonInvalidDiscovered :: string where "ReasonInvalidDiscovered = ''invalid_discovered_route''"
definition merge_ReasonUnknown :: string where "merge_ReasonUnknown = ''unknown''"
definition RouteSourceStatic :: string where "RouteSourceStatic = ''static''"
definition RouteSourceDiscovered :: string where "RouteSourceDiscovered = ''discovered''"

record IgnoredDiscoveredRoute =
  igHost :: string
  igBackend :: string
  igReason :: string
  igErr :: "error option"

record MergeStats =
  msStaticRoutes :: nat
  msDiscoveredRoutes :: nat
  msMergedRoutes :: nat
  msIgnoredDiscoveredRoutes :: nat
  msHasDefaultRoute :: bool
  msIgnoredByReason :: "(string, nat) gomap"

record MergeResult =
  mrRoutes :: "Route list"
  mrIgnored :: "IgnoredDiscoveredRoute list"
  mrStats :: MergeStats

record discoveredCandidate =
  dcHost :: string
  dcBackend :: string

definition addIgnored :: "MergeResult \<Rightarrow> IgnoredDiscoveredRoute \<Rightarrow> MergeResult" where
  "addIgnored r ignored0 =
     (let ignored = (if igReason ignored0 = '''' then ignored0\<lparr>igReason := merge_ReasonUnknown\<rparr> else ignored0)
      in r\<lparr>mrIgnored := mrIgnored r @ [ignored],
           mrStats := (mrStats r)\<lparr>msIgnoredByReason := gm_incr (msIgnoredByReason (mrStats r)) (igReason ignored)\<rparr>\<rparr>)"

definition discovery_isDNSLabel :: "string \<Rightarrow> bool" where
  "discovery_isDNSLabel value =
     (if length value < 1 \<or> length value > 63 then False
      else if list_ex (\<lambda>c. \<not> label_char c) value then False
      else hd value \<noteq> CHR ''-'' \<and> last value \<noteq> CHR ''-'')"

definition validateBackendPort :: "string \<Rightarrow> error option" where
  "validateBackendPort port =
     (if TrimSpace port = '''' then Some [Msg ''must not be empty'']
      else (case Atoi port of
              None \<Rightarrow> Some [Msg ''must be an integer from 1 to 65535'']
            | Some parsed \<Rightarrow> if parsed < 1 \<or> parsed > 65535 then Some [Msg ''must be an integer from 1 to 65535''] else None))"

definition validateServiceDNSBackend :: "string \<Rightarrow> error option" where
  "validateServiceDNSBackend host =
     (let parts = Split host (CHR ''.'') in
      if length parts < 4 then Some [Msg ''must be service.namespace.svc.<cluster-domain>'']
      else if \<not> discovery_isDNSLabel (parts ! 0) \<or> \<not> discovery_isDNSLabel (parts ! 1) then Some [Msg ''service and namespace must be DNS labels'']
      else if parts ! 2 \<noteq> ''svc'' then Some [Msg ''must include svc as the third DNS label'']
      else if list_ex (\<lambda>part. \<not> discovery_isDNSLabel part) (drop 3 parts) then Some [Msg ''cluster domain must be DNS labels'']
      else None)"

definition validateDiscoveredRoute :: "DiscoveredRoute \<Rightarrow> discoveredCandidate result" where
  "validateDiscoveredRoute route =
     (case Normalize (drtHost route) of
        Inl e \<Rightarrow> Inl (Msg ''host'' # e)
      | Inr host \<Rightarrow>
          if TrimSpace (drtBackend route) = '''' then Inl [Msg ''backend must not be empty'']
          else
            (case SplitHostPort (drtBackend route) of
               Inl e \<Rightarrow> Inl (Msg ''backend must be host:port'' # e)
             | Inr (backendHost, port) \<Rightarrow>
                 (case validateBackendPort port of
                    Some e \<Rightarrow> Inl (Msg ''backend port'' # e)
                  | None \<Rightarrow>
                      (case Normalize backendHost of
                         Inl e \<Rightarrow> Inl (Msg ''backend host'' # e)
                       | Inr normalizedBackendHost \<Rightarrow>
                           (case validateServiceDNSBackend normalizedBackendHost of
                              Some e \<Rightarrow> Inl (Msg ''backend host'' # e)
                            | None \<Rightarrow> Inr \<lparr>dcHost = host, dcBackend = JoinHostPort normalizedBackendHost port\<rparr>)))))"

definition lessConfigRoute :: "Route \<Rightarrow> Route \<Rightarrow> bool" where
  "lessConfigRoute left right =
     (if rServerAddress left \<noteq> rServerAddress right then rServerAddress left < rServerAddress right
      else rBackend left < rBackend right)"

definition lessDiscoveredCandidate :: "discoveredCandidate \<Rightarrow> discoveredCandidate \<Rightarrow> bool" where
  "lessDiscoveredCandidate left right =
     (if dcHost left \<noteq> dcHost right then dcHost left < dcHost right else dcBackend left < dcBackend right)"

definition merge_errorString :: "(error \<Rightarrow> string) \<Rightarrow> error option \<Rightarrow> string" where
  "merge_errorString render err = (case err of None \<Rightarrow> '''' | Some e \<Rightarrow> render e)"

definition lessIgnored :: "(error \<Rightarrow> string) \<Rightarrow> IgnoredDiscoveredRoute \<Rightarrow> IgnoredDiscoveredRoute \<Rightarrow> bool" where
  "lessIgnored render left right =
     (if igReason left \<noteq> igReason right then igReason left < igReason right
      else if igHost left \<noteq> igHost right then igHost left < igHost right
      else if igBackend left \<noteq> igBackend right then igBackend left < igBackend right
      else merge_errorString render (igErr left) < merge_errorString render (igErr right))"

fun Merge_aliases :: "string list \<Rightarrow> string list \<Rightarrow> string list \<times> string list" where
  \<comment> \<open>the loop over the aliases: the normalised aliases and the static hosts\<close>
  "Merge_aliases [] staticHosts = ([], staticHosts)"
| "Merge_aliases (alias # aliases) staticHosts =
     (case Normalize alias of
        Inr host \<Rightarrow> (let (as, hs) = Merge_aliases aliases (host # staticHosts) in (host # as, hs))
      | Inl _ \<Rightarrow> (let (as, hs) = Merge_aliases aliases staticHosts in (alias # as, hs)))"

fun Merge_static :: "Route list \<Rightarrow> MergeResult \<times> string list \<Rightarrow> MergeResult \<times> string list" where
  \<comment> \<open>the loop over the static routes\<close>
  "Merge_static [] st = st"
| "Merge_static (route # routes) (result, staticHosts) =
     (let (address, staticHosts1) =
            (case Normalize (rServerAddress route) of
               Inr host \<Rightarrow> (host, host # staticHosts) | Inl _ \<Rightarrow> (rServerAddress route, staticHosts));
          (aliases, staticHosts2) = Merge_aliases (rAliases route) staticHosts1
      in Merge_static routes
           (result\<lparr>mrRoutes := mrRoutes result @
              [route\<lparr>rServerAddress := address, rAliases := aliases, rSource := RouteSourceStatic\<rparr>]\<rparr>, staticHosts2))"

fun Merge_candidates :: "DiscoveredRoute list \<Rightarrow> MergeResult \<times> discoveredCandidate list \<times> (string, nat) gomap \<Rightarrow>
    MergeResult \<times> discoveredCandidate list \<times> (string, nat) gomap" where
  \<comment> \<open>the loop that validates the discovered routes\<close>
  "Merge_candidates [] st = st"
| "Merge_candidates (route # routes) (result, candidates, hostCounts) =
     (case validateDiscoveredRoute route of
        Inl e \<Rightarrow> Merge_candidates routes
          (addIgnored result \<lparr>igHost = drtHost route, igBackend = drtBackend route, igReason = ReasonInvalidDiscovered, igErr = Some e\<rparr>,
           candidates, hostCounts)
      | Inr candidate \<Rightarrow> Merge_candidates routes (result, candidates @ [candidate], gm_incr hostCounts (dcHost candidate)))"

fun Merge_discovered :: "(string, nat) gomap \<Rightarrow> string list \<Rightarrow> discoveredCandidate list \<Rightarrow> MergeResult \<Rightarrow> MergeResult" where
  \<comment> \<open>the loop over the sorted candidates\<close>
  "Merge_discovered hostCounts staticHosts [] result = result"
| "Merge_discovered hostCounts staticHosts (candidate # candidates) result =
     Merge_discovered hostCounts staticHosts candidates
       (if gm_count hostCounts (dcHost candidate) > 1 then
          addIgnored result \<lparr>igHost = dcHost candidate, igBackend = dcBackend candidate, igReason = ReasonDuplicateDiscovered,
            igErr = Some [Msg ''host is discovered more than once'']\<rparr>
        else if dcHost candidate \<in> set staticHosts then
          addIgnored result \<lparr>igHost = dcHost candidate, igBackend = dcBackend candidate, igReason = ReasonStaticRoutePrecedence,
            igErr = Some [Msg ''host is already configured by a static route'']\<rparr>
        else
          result\<lparr>mrRoutes := mrRoutes result @
            [\<lparr>rServerAddress = dcHost candidate, rAliases = [], rBackend = dcBackend candidate, rStatusBackend = '''',
              rStatusOverride = None, rSource = RouteSourceDiscovered\<rparr>]\<rparr>)"

definition MergeRoutes :: "(error \<Rightarrow> string) \<Rightarrow> Route list \<Rightarrow> DiscoveredRoute list \<Rightarrow> DefaultRoute \<Rightarrow> MergeResult" where
  "MergeRoutes render staticRoutes discovered defaultRoute =
     (let result0 = \<lparr>mrRoutes = [], mrIgnored = [],
            mrStats = \<lparr>msStaticRoutes = length staticRoutes, msDiscoveredRoutes = length discovered, msMergedRoutes = 0,
              msIgnoredDiscoveredRoutes = 0, msHasDefaultRoute = (TrimSpace (drBackend defaultRoute) \<noteq> ''''),
              msIgnoredByReason = []\<rparr>\<rparr>;
          (result1, staticHosts) = Merge_static staticRoutes (result0, []);
          (result2, candidates0, hostCounts) = Merge_candidates discovered (result1, [], []);
          candidates = SliceStable lessDiscoveredCandidate candidates0;
          result3 = Merge_discovered hostCounts staticHosts candidates result2;
          routes = SliceStable lessConfigRoute (mrRoutes result3);
          ignored = SliceStable (lessIgnored render) (mrIgnored result3)
      in result3\<lparr>mrRoutes := routes, mrIgnored := ignored,
                 mrStats := (mrStats result3)\<lparr>msMergedRoutes := length routes, msIgnoredDiscoveredRoutes := length ignored\<rparr>\<rparr>)"

section \<open>Providers\<close>

text \<open>A provider answers the routes it holds, or an error; the in-memory one never fails.\<close>

record MemoryProvider =
  mpRoutes :: "DiscoveredRoute list"

definition MemoryProvider_Update :: "MemoryProvider \<Rightarrow> DiscoveredRoute list \<Rightarrow> MemoryProvider" where
  "MemoryProvider_Update p routes = p\<lparr>mpRoutes := routes\<rparr>"

definition NewMemoryProvider :: "DiscoveredRoute list \<Rightarrow> MemoryProvider" where
  "NewMemoryProvider routes = MemoryProvider_Update \<lparr>mpRoutes = []\<rparr> routes"

definition MemoryProvider_Routes :: "MemoryProvider \<Rightarrow> DiscoveredRoute list result" where
  "MemoryProvider_Routes p = Inr (mpRoutes p)"

section \<open>What the loops compute\<close>

definition normal_or :: "string \<Rightarrow> string" where
  "normal_or s = (case Normalize s of Inr host \<Rightarrow> host | Inl _ \<Rightarrow> s)"

definition static_route :: "Route \<Rightarrow> Route" where
  "static_route r = r\<lparr>rServerAddress := normal_or (rServerAddress r), rAliases := map normal_or (rAliases r), rSource := RouteSourceStatic\<rparr>"

definition hosts_of :: "string list \<Rightarrow> string set" where
  "hosts_of xs = {h. \<exists>x \<in> set xs. Normalize x = Inr h}"

definition discovered_route :: "discoveredCandidate \<Rightarrow> Route" where
  "discovered_route c = \<lparr>rServerAddress = dcHost c, rAliases = [], rBackend = dcBackend c, rStatusBackend = '''',
     rStatusOverride = None, rSource = RouteSourceDiscovered\<rparr>"

definition valid_candidate :: "DiscoveredRoute \<Rightarrow> discoveredCandidate option" where
  "valid_candidate d = (case validateDiscoveredRoute d of Inr c \<Rightarrow> Some c | Inl _ \<Rightarrow> None)"

definition valid_candidates :: "DiscoveredRoute list \<Rightarrow> discoveredCandidate list" where
  "valid_candidates ds = List.map_filter valid_candidate ds"

lemma hosts_of_simps [simp]:
  "hosts_of [] = {}" "hosts_of (xs @ ys) = hosts_of xs \<union> hosts_of ys"
  "hosts_of (x # xs) = (case Normalize x of Inr h \<Rightarrow> insert h (hosts_of xs) | Inl _ \<Rightarrow> hosts_of xs)"
  by (auto simp: hosts_of_def split: sum.splits)

lemma Merge_aliases_result:
  "fst (Merge_aliases xs hs) = map normal_or xs \<and> set (snd (Merge_aliases xs hs)) = hosts_of xs \<union> set hs"
  by (induction xs arbitrary: hs) (auto simp: normal_or_def Let_def case_prod_beta split: sum.splits)

lemma Merge_static_result:
  "Merge_static rs (res, hs) = (res', hs') \<Longrightarrow>
     res' = res\<lparr>mrRoutes := mrRoutes res @ map static_route rs\<rparr> \<and> set hs' = hosts_of (all_identities rs) \<union> set hs"
proof (induction rs arbitrary: res hs)
  case (Cons r rs)
  define hs1 where "hs1 = (case Normalize (rServerAddress r) of Inr h \<Rightarrow> h # hs | Inl _ \<Rightarrow> hs)"
  have hs1: "set hs1 = hosts_of [rServerAddress r] \<union> set hs" by (auto simp: hs1_def split: sum.splits)
  let ?m = "Merge_aliases (rAliases r) hs1"
  have "Merge_static rs (res\<lparr>mrRoutes := mrRoutes res @ [static_route r]\<rparr>, snd ?m) = (res', hs')"
    using Cons.prems Merge_aliases_result [of "rAliases r" hs1]
    by (auto simp: Let_def hs1_def static_route_def normal_or_def split: sum.splits prod.splits)
  from Cons.IH [OF this] Merge_aliases_result [of "rAliases r" hs1] hs1 show ?case
    by (auto simp: all_identities_def identities_def split: sum.splits)
qed (simp add: all_identities_def)

lemma addIgnored_simps [simp]:
  "mrRoutes (addIgnored r i) = mrRoutes r" "length (mrIgnored (addIgnored r i)) = Suc (length (mrIgnored r))"
  by (simp_all add: addIgnored_def Let_def)

definition stats_ok :: "MergeResult \<Rightarrow> bool" where
  \<comment> \<open>the counters agree with the ignored routes\<close>
  "stats_ok r \<longleftrightarrow> (\<forall>reason. gm_count (msIgnoredByReason (mrStats r)) reason = length (filter (\<lambda>i. igReason i = reason) (mrIgnored r)))"

lemma stats_ok_addIgnored [simp]: "stats_ok r \<Longrightarrow> stats_ok (addIgnored r i)"
  by (auto simp: stats_ok_def addIgnored_def Let_def gm_count_incr)

lemma stats_ok_routes [simp]: "stats_ok (r\<lparr>mrRoutes := x\<rparr>) = stats_ok r"
  by (simp add: stats_ok_def)

lemma Merge_candidates_result:
  "Merge_candidates ds (r, cs, hc) = (r', cs', hc') \<Longrightarrow>
     cs' = cs @ valid_candidates ds \<and> hc' = foldl gm_incr hc (map dcHost (valid_candidates ds)) \<and>
     mrRoutes r' = mrRoutes r \<and> (stats_ok r \<longrightarrow> stats_ok r') \<and>
     length (mrIgnored r') + length cs' = length (mrIgnored r) + length cs + length ds"
proof (induction ds arbitrary: r cs hc)
  case (Cons d ds)
  show ?case
  proof (cases "validateDiscoveredRoute d")
    case (Inr c)
    have "Merge_candidates ds (r, cs @ [c], gm_incr hc (dcHost c)) = (r', cs', hc')"
      using Cons.prems by (simp add: Inr)
    from Cons.IH [OF this] show ?thesis
      by (auto simp: valid_candidates_def valid_candidate_def Inr map_filter_simps)
  next
    case (Inl e)
    obtain i where "Merge_candidates ds (addIgnored r i, cs, hc) = (r', cs', hc')"
      using Cons.prems by (auto simp: Inl)
    from Cons.IH [OF this] show ?thesis
      by (auto simp: valid_candidates_def valid_candidate_def Inl map_filter_simps)
  qed
qed (simp add: valid_candidates_def map_filter_simps)

lemma Merge_discovered_result:
  "mrRoutes (Merge_discovered hc hs cs r) =
     mrRoutes r @ map discovered_route (filter (\<lambda>c. gm_count hc (dcHost c) \<le> 1 \<and> dcHost c \<notin> set hs) cs) \<and>
   length (mrRoutes (Merge_discovered hc hs cs r)) + length (mrIgnored (Merge_discovered hc hs cs r)) =
     length (mrRoutes r) + length (mrIgnored r) + length cs \<and>
   (stats_ok r \<longrightarrow> stats_ok (Merge_discovered hc hs cs r))"
proof (induction cs arbitrary: r)
  case (Cons c cs)
  show ?case
  proof (cases "gm_count hc (dcHost c) \<le> 1 \<and> dcHost c \<notin> set hs")
    case True
    then have "Merge_discovered hc hs (c # cs) r = Merge_discovered hc hs cs (r\<lparr>mrRoutes := mrRoutes r @ [discovered_route c]\<rparr>)"
      by (auto simp: discovered_route_def)
    with Cons [of "r\<lparr>mrRoutes := mrRoutes r @ [discovered_route c]\<rparr>"] True show ?thesis
      by (auto simp del: Merge_discovered.simps)
  next
    case False
    then obtain i where "Merge_discovered hc hs (c # cs) r = Merge_discovered hc hs cs (addIgnored r i)"
      by (cases "gm_count hc (dcHost c) > 1") auto
    then show ?thesis using Cons [of "addIgnored r i"] False by auto
  qed
qed simp

section \<open>The result of a merge\<close>

lemma lessDiscoveredCandidate_weak: "strict_weak_order lessDiscoveredCandidate"
proof -
  have "lessDiscoveredCandidate = lex_lt dcHost (\<lambda>x y. dcBackend x < dcBackend y)"
    by (auto simp: lessDiscoveredCandidate_def lex_lt_def fun_eq_iff)
  then show ?thesis by (elim ssubst) (intro strict_weak_order_lex strict_weak_order_key)
qed

lemma lessDiscoveredCandidate_total: "x \<noteq> y \<Longrightarrow> lessDiscoveredCandidate x y \<or> lessDiscoveredCandidate y x"
  by (rule ccontr) (auto simp: lessDiscoveredCandidate_def split: if_splits intro: discoveredCandidate.equality)

interpretation discovered_order: strict_total_order lessDiscoveredCandidate
  by (intro strict_total_order.intro lessDiscoveredCandidate_weak strict_total_order_axioms.intro lessDiscoveredCandidate_total)

lemma lessConfigRoute_weak: "strict_weak_order lessConfigRoute"
proof -
  have "lessConfigRoute = lex_lt rServerAddress (\<lambda>x y. rBackend x < rBackend y)"
    by (auto simp: lessConfigRoute_def lex_lt_def fun_eq_iff)
  then show ?thesis by (elim ssubst) (intro strict_weak_order_lex strict_weak_order_key)
qed

interpretation route_order: strict_weak_order lessConfigRoute
  by (rule lessConfigRoute_weak)

lemma lessIgnored_weak: "strict_weak_order (lessIgnored render)"
proof -
  have "lessIgnored render = lex_lt igReason (lex_lt igHost (lex_lt igBackend
      (\<lambda>x y. merge_errorString render (igErr x) < merge_errorString render (igErr y))))"
    by (auto simp: lessIgnored_def lex_lt_def fun_eq_iff)
  then show ?thesis by (elim ssubst) (intro strict_weak_order_lex strict_weak_order_key)
qed

interpretation ignored_order: strict_weak_order "lessIgnored render" for render
  by (rule lessIgnored_weak)

definition kept_candidates :: "Route list \<Rightarrow> DiscoveredRoute list \<Rightarrow> discoveredCandidate list" where
  \<comment> \<open>the valid candidates whose host is discovered once and not configured\<close>
  "kept_candidates rs ds =
     filter (\<lambda>c. count_list (map dcHost (valid_candidates ds)) (dcHost c) \<le> 1 \<and> dcHost c \<notin> hosts_of (all_identities rs))
       (SliceStable lessDiscoveredCandidate (valid_candidates ds))"

lemma MergeRoutes_result:
  fixes render rs ds dr
  defines "m \<equiv> MergeRoutes render rs ds dr"
  shows "mrRoutes m = SliceStable lessConfigRoute (map static_route rs @ map discovered_route (kept_candidates rs ds))"
    and "length (mrRoutes m) + length (mrIgnored m) = length rs + length ds"
    and "stats_ok m"
    and "msMergedRoutes (mrStats m) = length (mrRoutes m)" and "msIgnoredDiscoveredRoutes (mrStats m) = length (mrIgnored m)"
proof -
  define r0 where "r0 = \<lparr>mrRoutes = [], mrIgnored = [],
      mrStats = \<lparr>msStaticRoutes = length rs, msDiscoveredRoutes = length ds, msMergedRoutes = 0,
        msIgnoredDiscoveredRoutes = 0, msHasDefaultRoute = (TrimSpace (drBackend dr) \<noteq> ''''), msIgnoredByReason = []\<rparr>\<rparr>"
  obtain r1 hs where r1: "Merge_static rs (r0, []) = (r1, hs)" by (cases "Merge_static rs (r0, [])")
  obtain r2 cs hc where r2: "Merge_candidates ds (r1, [], []) = (r2, cs, hc)" by (cases "Merge_candidates ds (r1, [], [])")
  define r3 where "r3 = Merge_discovered hc hs (SliceStable lessDiscoveredCandidate cs) r2"
  have m: "m = r3\<lparr>mrRoutes := SliceStable lessConfigRoute (mrRoutes r3), mrIgnored := SliceStable (lessIgnored render) (mrIgnored r3),
      mrStats := (mrStats r3)\<lparr>msMergedRoutes := length (mrRoutes r3), msIgnoredDiscoveredRoutes := length (mrIgnored r3)\<rparr>\<rparr>"
    using r1 r2 by (simp add: m_def MergeRoutes_def Let_def r0_def r3_def)
  have s1: "mrRoutes r1 = map static_route rs" "mrIgnored r1 = []" "stats_ok r1" "set hs = hosts_of (all_identities rs)"
    using Merge_static_result [OF r1] by (simp_all add: r0_def stats_ok_def gm_count_def)
  have s2: "cs = valid_candidates ds" "gm_count hc h = count_list (map dcHost (valid_candidates ds)) h" "mrRoutes r2 = mrRoutes r1"
    "stats_ok r2" "length (mrIgnored r2) + length cs = length ds" for h
    using Merge_candidates_result [OF r2] s1(2,3) by (auto simp: gm_count_fold gm_count_def [of "[]"])
  note s3 = Merge_discovered_result [of hc hs "SliceStable lessDiscoveredCandidate cs" r2, folded r3_def]
  show "mrRoutes m = SliceStable lessConfigRoute (map static_route rs @ map discovered_route (kept_candidates rs ds))"
    using s3 by (simp add: m kept_candidates_def s1 s2)
  show "length (mrRoutes m) + length (mrIgnored m) = length rs + length ds"
    using conjunct1 [OF conjunct2 [OF s3]] s2(5) by (simp add: m s1 s2(3))
  have "stats_ok r3" using s3 s2(4) by simp
  then have "gm_count (msIgnoredByReason (mrStats r3)) reason = size (filter_mset (\<lambda>i. igReason i = reason) (mset (mrIgnored r3)))" for reason
    by (simp add: stats_ok_def flip: mset_filter)
  then show "stats_ok m"
    unfolding stats_ok_def by (metis (no_types, lifting) m MergeResult.select_convs MergeResult.surjective MergeResult.update_convs
      MergeStats.select_convs MergeStats.surjective MergeStats.update_convs mset_SliceStable mset_filter size_mset)
  show "msMergedRoutes (mrStats m) = length (mrRoutes m)" "msIgnoredDiscoveredRoutes (mrStats m) = length (mrIgnored m)"
    by (simp_all add: m)
qed

section \<open>Merged routes are valid\<close>

lemma discovery_isDNSLabel_iff: "discovery_isDNSLabel s \<longleftrightarrow> valid_label s"
  by (cases "s = []") (auto simp: discovery_isDNSLabel_def valid_label_iff list_ex_iff list_all_iff)

lemma Atoi_port:
  assumes "Atoi s = Some n" shows "host_port_free s" and "TrimSpace s = s" and "s \<noteq> []"
proof -
  obtain d where d: "all_digits d" "s = d \<or> s = CHR ''-'' # d \<or> s = CHR ''+'' # d"
  proof -
    let ?d = "if take 1 s = ''-'' \<or> take 1 s = ''+'' then drop 1 s else s"
    have "all_digits ?d" using assms by (auto simp: Atoi_def Let_def split: if_splits)
    moreover have "s = ?d \<or> s = CHR ''-'' # ?d \<or> s = CHR ''+'' # ?d" by (cases s) auto
    ultimately show thesis by (rule that)
  qed
  then show "host_port_free s" "s \<noteq> []"
    using all_digits_host_port_free [OF d(1)] by (auto simp: host_port_free_def all_digits_def)
  have "plain_char (CHR ''-'')" "plain_char (CHR ''+'')" by code_simp+
  moreover have "plain_char c" if "c \<in> set d" for c
    using d(1) that by (auto simp: all_digits_def list_all_iff is_digit_def plain_char_def char_le_iff)
  ultimately show "TrimSpace s = s" using d(2) by (intro TrimSpace_plain) auto
qed

lemma first_three: "4 \<le> length xs \<Longrightarrow> xs = xs ! 0 # xs ! 1 # xs ! 2 # drop 3 xs"
proof -
  assume "4 \<le> length xs"
  moreover from this have "xs \<noteq> []" by auto
  ultimately have "xs ! 0 # drop 1 xs = drop 0 xs" "xs ! 1 # drop 2 xs = drop 1 xs" "xs ! 2 # drop 3 xs = drop 2 xs"
    using Cons_nth_drop_Suc [of 0 xs] Cons_nth_drop_Suc [of 1 xs] Cons_nth_drop_Suc [of 2 xs]
    by (simp_all add: numeral_eq_Suc)
  then show ?thesis by simp
qed

lemma validateServiceDNSBackend_labels:
  assumes "validateServiceDNSBackend host = None"
  shows "list_all valid_label (Split host (CHR ''.''))"
proof -
  let ?xs = "Split host (CHR ''.'')"
  have "4 \<le> length ?xs" and parts: "valid_label (?xs ! 0)" "valid_label (?xs ! 1)" "?xs ! 2 = ''svc''" "list_all valid_label (drop 3 ?xs)"
    using assms by (simp_all add: validateServiceDNSBackend_def Let_def discovery_isDNSLabel_iff list_ex_iff list_all_iff not_less split: if_splits)
  moreover have "valid_label ''svc''" by code_simp
  ultimately show ?thesis by (subst first_three) (simp_all only: list.pred_inject)
qed

lemma validateDiscoveredRoute_valid:
  assumes "validateDiscoveredRoute d = Inr c"
  shows "Normalize (drtHost d) = Inr (dcHost c)" and "Normalize (dcHost c) = Inr (dcHost c)"
    and "validateBackend (dcBackend c) = None"
proof -
  obtain host bh port n h where *: "Normalize (drtHost d) = Inr host" "SplitHostPort (drtBackend d) = Inr (bh, port)"
    "Atoi port = Some n" "1 \<le> n" "n \<le> 65535" "Normalize bh = Inr h" "validateServiceDNSBackend h = None"
    "c = \<lparr>dcHost = host, dcBackend = JoinHostPort h port\<rparr>"
    using assms by (auto simp: validateDiscoveredRoute_def validateBackendPort_def not_less split: sum.splits option.splits if_splits)
  show "Normalize (drtHost d) = Inr (dcHost c)" "Normalize (dcHost c) = Inr (dcHost c)"
    using * Normalize_idem by auto
  have dns: "dns_name h"
    using Normalize_canonical [OF *(6)] validateServiceDNSBackend_labels [OF *(7)] by (simp add: canonical_host_def dns_name_def)
  then have "SplitHostPort (dcBackend c) = Inr (h, port)"
    using Atoi_port(1) [OF *(3)] by (simp add: *(8) SplitHostPort_Join dns_name_host_port_free)
  moreover have "TrimSpace h = h" "h \<noteq> []"
    using dns_name_lower_plain [OF dns] dns_name_nonempty [OF dns] by (auto intro!: TrimSpace_plain simp: lower_plain_def)
  ultimately show "validateBackend (dcBackend c) = None"
    using Atoi_port(2,3) [OF *(3)] *(3-5) dns_name_canonical(1) [OF dns] by (simp add: validateBackend_def)
qed

lemma kept_candidates_valid:
  assumes "c \<in> set (kept_candidates rs ds)"
  shows "Normalize (dcHost c) = Inr (dcHost c)" and "validateBackend (dcBackend c) = None"
    and "dcHost c \<notin> hosts_of (all_identities rs)"
proof -
  from assms obtain d where "validateDiscoveredRoute d = Inr c"
    by (auto simp: kept_candidates_def valid_candidates_def valid_candidate_def List.map_filter_def split: sum.splits)
  then show "Normalize (dcHost c) = Inr (dcHost c)" "validateBackend (dcBackend c) = None"
    by (rule validateDiscoveredRoute_valid)+
  show "dcHost c \<notin> hosts_of (all_identities rs)" using assms by (simp add: kept_candidates_def)
qed

lemma kept_candidates_distinct: "distinct (map dcHost (kept_candidates rs ds))"
proof -
  let ?xs = "SliceStable lessDiscoveredCandidate (valid_candidates ds)"
  have "distinct (filter (\<lambda>h. count_list (map dcHost ?xs) h \<le> 1) (map dcHost ?xs))" by (rule distinct_filter_count)
  then have "distinct (filter (\<lambda>h. h \<notin> hosts_of (all_identities rs)) (filter (\<lambda>h. count_list (map dcHost ?xs) h \<le> 1) (map dcHost ?xs)))"
    by (rule distinct_filter)
  moreover have "count_list (map dcHost ?xs) h = count_list (map dcHost (valid_candidates ds)) h" for h
    by (simp add: count_list_mset)
  ultimately show ?thesis
    by (simp add: kept_candidates_def filter_map o_def conj_commute)
qed

lemma routes_wf_permute: "mset rs = mset rs' \<Longrightarrow> routes_wf rs \<longleftrightarrow> routes_wf rs'"
proof -
  assume m: "mset rs = mset rs'"
  then have ids: "mset (all_identities rs) = mset (all_identities rs')"
    by (simp add: all_identities_def mset_concat flip: sum_mset_sum_list)
  have "distinct (map normal (all_identities rs)) \<longleftrightarrow> distinct (map normal (all_identities rs'))"
    using ids by (intro mset_eq_imp_distinct_iff) simp
  moreover have "set (all_identities rs) = set (all_identities rs')" using ids by (metis set_mset_mset)
  moreover have "set rs = set rs'" using m by (metis set_mset_mset)
  ultimately show ?thesis by (simp add: routes_wf_def names_ok_def list_all_iff)
qed

lemma names_ok_normal_or:
  "names_ok xs \<Longrightarrow> map normal_or xs = map normal xs \<and> names_ok (map normal xs) \<and> map normal (map normal xs) = map normal xs"
  by (induction xs) (auto simp: normal_or_def normal_def is_ok_iff Normalize_idem)

lemma all_identities_simps [simp]:
  "all_identities (xs @ ys) = all_identities xs @ all_identities ys"
  "all_identities (map static_route rs) = map normal_or (all_identities rs)"
  "all_identities (map discovered_route cs) = map dcHost cs"
  by (simp_all add: all_identities_def identities_def static_route_def discovered_route_def map_concat o_def concat_map_singleton)

lemma merged_routes_wf:
  assumes "routes_wf rs" shows "routes_wf (mrRoutes (MergeRoutes render rs ds dr))"
proof -
  let ?ids = "all_identities rs" and ?kept = "kept_candidates rs ds"
  from assms have rs: "names_ok ?ids" "distinct (map normal ?ids)" "list_all route_wf rs" by (auto simp: routes_wf_def)
  note ids = names_ok_normal_or [OF rs(1)]
  have kept: "names_ok (map dcHost ?kept)" "map normal (map dcHost ?kept) = map dcHost ?kept"
    using kept_candidates_valid(1) by (fastforce simp: names_ok_def list_all_iff normal_def)+
  have "set (map normal ?ids) \<subseteq> hosts_of ?ids"
    using names_ok_mem [OF rs(1)] by (auto simp: hosts_of_def)
  moreover have "set (map dcHost ?kept) \<inter> hosts_of ?ids = {}" using kept_candidates_valid(3) by auto
  ultimately have "set (map normal ?ids) \<inter> set (map dcHost ?kept) = {}" by blast
  then have "distinct (map normal ?ids @ map dcHost ?kept)"
    using rs(2) kept_candidates_distinct [of rs ds] by (simp only: distinct_append)
  then have "distinct (map normal (map normal_or ?ids @ map dcHost ?kept))" using ids kept(2) by (simp only: map_append)
  moreover have "list_all route_wf (map static_route rs)" using rs(3) by (auto simp: list_all_iff static_route_def route_wf_def)
  moreover have "list_all route_wf (map discovered_route ?kept)"
    using kept_candidates_valid(2) by (auto simp: list_all_iff route_wf_def discovered_route_def validateStatusOverride_def)
  ultimately have "routes_wf (map static_route rs @ map discovered_route ?kept)"
    using ids kept by (simp only: routes_wf_def all_identities_simps names_ok_simps list_all_append)
  then show ?thesis
    using routes_wf_permute [OF mset_SliceStable] by (simp only: MergeRoutes_result(1))
qed

lemma valid_candidates_permute: "mset ds = mset ds' \<Longrightarrow> mset (valid_candidates ds) = mset (valid_candidates ds')"
  by (simp add: valid_candidates_def List.map_filter_def)

lemma kept_candidates_permute: "mset ds = mset ds' \<Longrightarrow> kept_candidates rs ds = kept_candidates rs ds'"
proof -
  assume "mset ds = mset ds'"
  then have m: "mset (valid_candidates ds) = mset (valid_candidates ds')" by (rule valid_candidates_permute)
  then have "count_list (map dcHost (valid_candidates ds)) h = count_list (map dcHost (valid_candidates ds')) h" for h
    by (simp add: count_list_mset)
  with discovered_order.SliceStable_permute [OF m] show ?thesis by (simp add: kept_candidates_def)
qed

text \<open>A candidate is kept when exactly one discovered route asks for its host and none is configured.\<close>

definition offers :: "string \<Rightarrow> DiscoveredRoute \<Rightarrow> bool" where
  "offers h d = (case validateDiscoveredRoute d of Inr c \<Rightarrow> dcHost c = h | Inl _ \<Rightarrow> False)"

lemma count_valid_candidates:
  "count_list (map dcHost (valid_candidates ds)) h = length (filter (offers h) ds)"
  by (induction ds) (auto simp: valid_candidates_def valid_candidate_def map_filter_simps offers_def split: sum.split)

lemma kept_candidates_set:
  "c \<in> set (kept_candidates rs ds) \<longleftrightarrow>
     (\<exists>d \<in> set ds. validateDiscoveredRoute d = Inr c) \<and> length (filter (offers (dcHost c)) ds) = 1 \<and>
     dcHost c \<notin> hosts_of (all_identities rs)"
proof -
  have "c \<in> set (valid_candidates ds) \<longleftrightarrow> (\<exists>d \<in> set ds. validateDiscoveredRoute d = Inr c)"
    by (force simp: valid_candidates_def valid_candidate_def List.map_filter_def split: sum.splits)
  moreover have "length (filter (offers (dcHost c)) ds) \<noteq> 0" if "d \<in> set ds" "validateDiscoveredRoute d = Inr c" for d
    using that by (auto simp: offers_def filter_empty_conv intro!: bexI [of _ d])
  ultimately show ?thesis
    by (auto simp: kept_candidates_def count_valid_candidates le_Suc_eq)
qed

lemma distinct_key_once: "distinct (map f xs) \<Longrightarrow> h \<in> f ` set xs \<Longrightarrow> length (filter (\<lambda>x. f x = h) xs) = 1"
  by (induction xs) (auto simp: filter_empty_conv rev_image_eqI)

section \<open>Annotated Services\<close>

text \<open>What the annotations of a Service yield passes the checks of the merge unchanged.\<close>

lemma annotated_route_valid:
  assumes "ParseServiceAnnotations p s = Parsed r"
  shows "validateDiscoveredRoute r = Inr \<lparr>dcHost = drtHost r, dcBackend = drtBackend r\<rparr>"
  using assms
proof (rule ParseServiceAnnotations_Parsed)
  fix host port hv pv
  assume *: "k8s_isDNSLabel (siName s)" "k8s_isDNSLabel (siNamespace s)" "Normalize hv = Inr host" "1 \<le> port" "port \<le> 65535"
    "r = \<lparr>drtHost = host, drtBackend = JoinHostPort (cluster_host s) (Itoa port)\<rparr>"
  note host = cluster_host_dns [OF *(1,2)]
  have "Atoi (Itoa port) = Some (int port)" using *(5) by (intro Atoi_Itoa) simp
  note port = this Atoi_port [OF this]
  have split: "SplitHostPort (JoinHostPort (cluster_host s) (Itoa port)) = Inr (cluster_host s, Itoa port)"
    using port(2) host(1) by (simp add: SplitHostPort_Join dns_name_host_port_free)
  have labels: "discovery_isDNSLabel ''svc''" "discovery_isDNSLabel ''cluster''" "discovery_isDNSLabel ''local''" by code_simp+
  have svc: "validateServiceDNSBackend (cluster_host s) = None"
    using *(1,2) labels by (simp add: validateServiceDNSBackend_def host(2) discovery_isDNSLabel_iff k8s_isDNSLabel_iff numeral_eq_Suc)
  have "TrimSpace (JoinHostPort (cluster_host s) (Itoa port)) \<noteq> ''''"
  proof -
    have "\<forall>c \<in> set (JoinHostPort (cluster_host s) (Itoa port)). plain_char c"
      using dns_name_lower_plain [OF host(1)] Itoa_digits [of port]
      by (auto simp: JoinHostPort_def lower_plain_def all_digits_def list_all_iff is_digit_def plain_char_def char_le_iff)
    then show ?thesis by (simp add: TrimSpace_plain JoinHostPort_def)
  qed
  with * split port svc dns_name_canonical(1) [OF host(1)] Normalize_idem show ?thesis
    by (simp add: validateDiscoveredRoute_def validateBackendPort_def)
qed

section \<open>Properties\<close>

text \<open>C11: what a merge yields. Every configured route is there, with its names normalised. A discovered
  route is there exactly when it is valid, no other valid discovered route has its host, and no
  configured name has it: the configuration always wins. The routes are sorted, every route given is
  merged or reported as ignored, and the counters agree with the report.\<close>

theorem merged_routes_exact:
  "sorted_by lessConfigRoute (mrRoutes (MergeRoutes render rs ds dr)) \<and>
   (rt \<in> set (mrRoutes (MergeRoutes render rs ds dr)) \<longleftrightarrow>
      rt \<in> static_route ` set rs \<or>
      (\<exists>d \<in> set ds. \<exists>c. validateDiscoveredRoute d = Inr c \<and> rt = discovered_route c \<and>
         length (filter (offers (dcHost c)) ds) = 1 \<and> dcHost c \<notin> hosts_of (all_identities rs))) \<and>
   length (mrRoutes (MergeRoutes render rs ds dr)) + length (mrIgnored (MergeRoutes render rs ds dr)) = length rs + length ds \<and>
   stats_ok (MergeRoutes render rs ds dr)"
proof (intro conjI)
  note result = MergeRoutes_result [of render rs ds dr]
  show "sorted_by lessConfigRoute (mrRoutes (MergeRoutes render rs ds dr))"
    by (simp add: result(1) route_order.sorted_SliceStable)
  have "rt \<in> set (mrRoutes (MergeRoutes render rs ds dr)) \<longleftrightarrow>
      rt \<in> static_route ` set rs \<or> (\<exists>c \<in> set (kept_candidates rs ds). rt = discovered_route c)"
    by (auto simp: result(1))
  also have "\<dots> \<longleftrightarrow> rt \<in> static_route ` set rs \<or>
      (\<exists>d \<in> set ds. \<exists>c. validateDiscoveredRoute d = Inr c \<and> rt = discovered_route c \<and>
         length (filter (offers (dcHost c)) ds) = 1 \<and> dcHost c \<notin> hosts_of (all_identities rs))"
    unfolding Bex_def kept_candidates_set by blast
  finally show "rt \<in> set (mrRoutes (MergeRoutes render rs ds dr)) \<longleftrightarrow> \<dots>" .
qed (rule MergeRoutes_result)+

text \<open>The merged routes do not depend on the order in which the routes were discovered.\<close>

theorem merged_routes_order:
  assumes "mset ds = mset ds'"
  shows "mrRoutes (MergeRoutes render rs ds dr) = mrRoutes (MergeRoutes render rs ds' dr)"
  using kept_candidates_permute [OF assms, of rs] by (simp add: MergeRoutes_result(1))

theorem merged_routes_order_witness:
  "mrRoutes (MergeRoutes (\<lambda>_. '''') [] [\<lparr>drtHost = ''a'', drtBackend = ''''\<rparr>, \<lparr>drtHost = ''b'', drtBackend = ''''\<rparr>] \<lparr>drBackend = '''', drMode = ''''\<rparr>) =
   mrRoutes (MergeRoutes (\<lambda>_. '''') [] [\<lparr>drtHost = ''b'', drtBackend = ''''\<rparr>, \<lparr>drtHost = ''a'', drtBackend = ''''\<rparr>] \<lparr>drBackend = '''', drMode = ''''\<rparr>)"
  by (rule merged_routes_order) simp

text \<open>From the annotations to the merged routes. The route of a Service that is alone in asking for
  its host is merged as its annotations give it, unless the host is configured: the checks of the
  merge refuse nothing that the discovery let through.\<close>

theorem annotated_routes_merged:
  "set (mrRoutes (MergeRoutes render rs (krRoutes (BuildDiscoveredRoutes render' ss p)) dr)) =
     static_route ` set rs \<union>
     (\<lambda>r. discovered_route \<lparr>dcHost = drtHost r, dcBackend = drtBackend r\<rparr>) `
       {r \<in> set (krRoutes (BuildDiscoveredRoutes render' ss p)). drtHost r \<notin> hosts_of (all_identities rs)}"
proof -
  let ?ds = "krRoutes (BuildDiscoveredRoutes render' ss p)"
  let ?c = "\<lambda>r. \<lparr>dcHost = drtHost r, dcBackend = drtBackend r\<rparr>"
  have valid: "validateDiscoveredRoute d = Inr (?c d)" if "d \<in> set ?ds" for d
  proof -
    from that obtain s c where "candidate_of (effective_prefix p) s = Some c" "rcRoute c = d"
      by (auto simp: BuildDiscoveredRoutes_result(1) unique_candidates_set candidates_of_set)
    then have "ParseServiceAnnotations (effective_prefix p) s = Parsed d" by (subst candidate_of_route [symmetric]) blast
    then show ?thesis by (rule annotated_route_valid)
  qed
  have "distinct (map drtHost ?ds)"
  proof -
    have "distinct (map host_of (unique_candidates (candidates_of (effective_prefix p) ss)))"
      using unique_candidates_sorted [of "candidates_of (effective_prefix p) ss"] strict_sorted_iff sorted_wrt_map [of "(<)" host_of] by blast
    then show ?thesis by (simp add: BuildDiscoveredRoutes_result(1) host_of_def [abs_def] o_def)
  qed
  then have one: "length (filter (\<lambda>d. drtHost d = h) ?ds) = 1" if "h \<in> drtHost ` set ?ds" for h
    using that by (rule distinct_key_once)
  have "filter (offers h) ?ds = filter (\<lambda>d. drtHost d = h) ?ds" for h
    by (rule filter_cong) (simp_all add: offers_def valid)
  with one have once: "length (filter (offers (drtHost d)) ?ds) = 1" if "d \<in> set ?ds" for d using that by auto
  have "(\<exists>d \<in> set ?ds. validateDiscoveredRoute d = Inr c) \<longleftrightarrow> (\<exists>d \<in> set ?ds. c = ?c d)" for c
    using valid by auto
  then have "set (kept_candidates rs ?ds) = ?c ` {r \<in> set ?ds. drtHost r \<notin> hosts_of (all_identities rs)}"
    unfolding set_eq_iff kept_candidates_set image_iff using once by (simp add: Bex_def) fastforce
  then show ?thesis by (auto simp: MergeRoutes_result(1))
qed

end
