(* ===== verification/Router.thy ===== *)
theory Router
  imports Discovery
begin

text \<open>
  The routing table of \<open>internal/router/router.go\<close>: it is built from the routes of a configuration
  and answers the backend of a requested server address. The main result is that a table exists
  exactly for a valid configuration and then selects the one route that claims the address.
\<close>

section \<open>The table\<close>

definition MatchKindCanonical :: string where "MatchKindCanonical = ''canonical''"
definition MatchKindAlias :: string where "MatchKindAlias = ''alias''"
definition MatchKindDefault :: string where "MatchKindDefault = ''default''"
definition RouteSourceDefault :: string where "RouteSourceDefault = ''default''"

record routeEntry =
  reRoute :: Route
  reMatchKind :: string

record Router =
  roRoutes :: "(string, routeEntry) gomap"
  roDefaultBackend :: string
  roUnknownHostPolicy :: string

record Selection =
  slBackend :: string
  slStatusBackend :: string
  slMatchedBy :: string
  slMatchKind :: string
  slRouteSource :: string
  slCanonicalServerAddress :: string
  slStatusOverride :: "StatusOverride option"

definition cloneStatusOverride :: "StatusOverride option \<Rightarrow> StatusOverride option" where
  \<comment> \<open>a copy: the values of the model are not shared\<close>
  "cloneStatusOverride ov = (case ov of None \<Rightarrow> None | Some cloned \<Rightarrow> Some cloned)"

fun New_aliases :: "Route \<Rightarrow> string list \<Rightarrow> (string, routeEntry) gomap \<Rightarrow> (string, routeEntry) gomap result" where
  "New_aliases route [] m = Inr m"
| "New_aliases route (alias # aliases) m =
     (case Normalize alias of
        Inl e \<Rightarrow> Inl e
      | Inr normalizedAlias \<Rightarrow>
          New_aliases route aliases (gm_set m normalizedAlias \<lparr>reRoute = route, reMatchKind = MatchKindAlias\<rparr>))"

definition New_entry :: "string \<Rightarrow> Route \<Rightarrow> Route" where
  \<comment> \<open>the route as the table holds it\<close>
  "New_entry normalized route =
     route\<lparr>rServerAddress := normalized,
           rSource := (if rSource route = '''' then RouteSourceStatic else rSource route),
           rStatusOverride := cloneStatusOverride (rStatusOverride route)\<rparr>"

fun New_routes :: "Route list \<Rightarrow> (string, routeEntry) gomap \<Rightarrow> (string, routeEntry) gomap result" where
  "New_routes [] m = Inr m"
| "New_routes (route # routes) m =
     (case Normalize (rServerAddress route) of
        Inl e \<Rightarrow> Inl e
      | Inr normalized \<Rightarrow>
          (let route' = New_entry normalized route in
           case New_aliases route' (rAliases route')
                  (gm_set m normalized \<lparr>reRoute = route', reMatchKind = MatchKindCanonical\<rparr>) of
             Inl e \<Rightarrow> Inl e
           | Inr m' \<Rightarrow> New_routes routes m'))"

definition Router_New ::
    "env \<Rightarrow> ((string \<times> VoiceBackend) list \<Rightarrow> (string \<times> VoiceBackend) list) \<Rightarrow> Config \<Rightarrow> Router result" where
  "Router_New v ord cfg =
     (case Validate v ord cfg of
        (Some e, _) \<Rightarrow> Inl e
      | (None, _) \<Rightarrow>
          (case New_routes (cRoutes cfg) [] of
             Inl e \<Rightarrow> Inl e
           | Inr routes \<Rightarrow> Inr \<lparr>roRoutes = routes, roDefaultBackend = drBackend (cDefaultRoute cfg),
               roUnknownHostPolicy = cUnknownHostPolicy cfg\<rparr>))"

definition Select :: "Router \<Rightarrow> string \<Rightarrow> Selection result" where
  "Select r serverAddress =
     (case Normalize serverAddress of
        Inl e \<Rightarrow> Inl (ErrInvalidServerAddress # e)
      | Inr address \<Rightarrow>
          (case gm_get (roRoutes r) address of
             Some entry \<Rightarrow>
               (let route = reRoute entry in
                Inr \<lparr>slBackend = rBackend route, slStatusBackend = rStatusBackend route, slMatchedBy = ''route'',
                     slMatchKind = reMatchKind entry, slRouteSource = rSource route,
                     slCanonicalServerAddress = rServerAddress route,
                     slStatusOverride = cloneStatusOverride (rStatusOverride route)\<rparr>)
           | None \<Rightarrow>
               if roUnknownHostPolicy r = UnknownHostDefault \<and> roDefaultBackend r \<noteq> '''' then
                 Inr \<lparr>slBackend = roDefaultBackend r, slStatusBackend = '''', slMatchedBy = ''default'',
                      slMatchKind = MatchKindDefault, slRouteSource = RouteSourceDefault,
                      slCanonicalServerAddress = '''', slStatusOverride = None\<rparr>
               else Inl [ErrNoRoute]))"

section \<open>Lookups\<close>

lemma cloneStatusOverride_id [simp]: "cloneStatusOverride ov = ov"
  by (simp add: cloneStatusOverride_def split: option.split)

lemma New_entry_simps [simp]:
  "rAliases (New_entry h r) = rAliases r" "rBackend (New_entry h r) = rBackend r" "rServerAddress (New_entry h r) = h"
  "rStatusBackend (New_entry h r) = rStatusBackend r" "rStatusOverride (New_entry h r) = rStatusOverride r"
  by (simp_all add: New_entry_def)

lemma New_aliases_get:
  assumes "names_ok as"
  shows "\<exists>m'. New_aliases r as m = Inr m' \<and>
    (\<forall>h. gm_get m' h = (if h \<in> normal ` set as then Some \<lparr>reRoute = r, reMatchKind = MatchKindAlias\<rparr> else gm_get m h))"
  using assms
proof (induction as arbitrary: m)
  case (Cons a as)
  from Cons.prems have a: "Normalize a = Inr (normal a)" by (intro names_ok_mem [of "a # as"]) auto
  from Cons.prems have "names_ok as" by simp
  from Cons.IH [OF this, of "gm_set m (normal a) \<lparr>reRoute = r, reMatchKind = MatchKindAlias\<rparr>"] show ?case
    by (auto simp: a)
qed simp

definition match_kind :: "Route \<Rightarrow> string \<Rightarrow> string" where
  "match_kind r h = (if normal (rServerAddress r) = h then MatchKindCanonical else MatchKindAlias)"

definition claims_host :: "string \<Rightarrow> Route \<Rightarrow> bool" where
  "claims_host h r \<longleftrightarrow> h \<in> normal ` set (identities r)"

definition table_entry :: "string \<Rightarrow> Route \<Rightarrow> routeEntry" where
  "table_entry h r = \<lparr>reRoute = New_entry (normal (rServerAddress r)) r, reMatchKind = match_kind r h\<rparr>"

lemma New_routes_get:
  assumes "names_ok (all_identities rts)" and "distinct (map normal (all_identities rts))"
  shows "\<exists>m'. New_routes rts m = Inr m' \<and>
    (\<forall>h. gm_get m' h = (case List.find (claims_host h) rts of Some r \<Rightarrow> Some (table_entry h r) | None \<Rightarrow> gm_get m h))"
  using assms
proof (induction rts arbitrary: m)
  case (Cons r rts)
  have ids: "all_identities (r # rts) = rServerAddress r # rAliases r @ all_identities rts"
    by (simp add: all_identities_def identities_def)
  then have ok: "names_ok (rAliases r)" "names_ok (all_identities rts)" "Normalize (rServerAddress r) = Inr (normal (rServerAddress r))"
    using Cons.prems(1) by (auto simp: normal_def is_ok_iff)
  have "all_identities (r # rts) = identities r @ all_identities rts" by (simp add: all_identities_def)
  with Cons.prems(2) have sep: "distinct (map normal (identities r))" "distinct (map normal (all_identities rts))"
    "normal ` set (identities r) \<inter> normal ` set (all_identities rts) = {}"
    by (simp_all only: map_append distinct_append set_map)
  have dist: "distinct (map normal (all_identities rts))" "normal (rServerAddress r) \<notin> normal ` set (rAliases r)"
    using sep(1,2) by (simp_all add: identities_def)
  have apart: "\<And>h. claims_host h r \<Longrightarrow> h \<notin> normal ` set (all_identities rts)"
    using sep(3) unfolding claims_host_def by blast
  let ?r = "New_entry (normal (rServerAddress r)) r"
  obtain m1 where m1: "New_aliases ?r (rAliases r) (gm_set m (normal (rServerAddress r)) \<lparr>reRoute = ?r, reMatchKind = MatchKindCanonical\<rparr>) = Inr m1"
    and get1: "\<And>h. gm_get m1 h = (if h \<in> normal ` set (rAliases r) then Some \<lparr>reRoute = ?r, reMatchKind = MatchKindAlias\<rparr>
        else gm_get (gm_set m (normal (rServerAddress r)) \<lparr>reRoute = ?r, reMatchKind = MatchKindCanonical\<rparr>) h)"
    using New_aliases_get [OF ok(1)] by blast
  obtain m2 where m2: "New_routes rts m1 = Inr m2"
    and get2: "\<And>h. gm_get m2 h = (case List.find (claims_host h) rts of Some r \<Rightarrow> Some (table_entry h r) | None \<Rightarrow> gm_get m1 h)"
    using Cons.IH [OF ok(2) dist(1)] by blast
  have "gm_get m2 h = (case List.find (claims_host h) (r # rts) of Some r \<Rightarrow> Some (table_entry h r) | None \<Rightarrow> gm_get m h)" for h
  proof (cases "claims_host h r")
    case True
    have "normal ` set (identities r') \<subseteq> normal ` set (all_identities rts)" if "r' \<in> set rts" for r'
      using that by (intro image_mono) (auto simp: all_identities_def)
    then have "\<not> claims_host h r'" if "r' \<in> set rts" for r'
      using apart [OF True] that unfolding claims_host_def by blast
    then have "List.find (claims_host h) rts = None" by (simp add: find_None_iff)
    moreover have "gm_get m1 h = Some (table_entry h r)"
      using True dist(2) by (auto simp: get1 claims_host_def identities_def table_entry_def match_kind_def)
    ultimately show ?thesis using True by (simp add: get2)
  next
    case False
    then show ?thesis by (auto simp: get2 get1 claims_host_def identities_def split: option.split)
  qed
  with m1 m2 ok(3) show ?case by simp
qed simp

text \<open>What a table has to answer, from the routes of the configuration.\<close>

definition select_spec :: "Config \<Rightarrow> string \<Rightarrow> Selection result" where
  "select_spec cfg s =
     (case Normalize s of
        Inl e \<Rightarrow> Inl (ErrInvalidServerAddress # e)
      | Inr h \<Rightarrow>
          (case List.find (claims_host h) (cRoutes cfg) of
             Some r \<Rightarrow> Inr \<lparr>slBackend = rBackend r, slStatusBackend = rStatusBackend r, slMatchedBy = ''route'',
               slMatchKind = match_kind r h, slRouteSource = (if rSource r = '''' then RouteSourceStatic else rSource r),
               slCanonicalServerAddress = normal (rServerAddress r), slStatusOverride = rStatusOverride r\<rparr>
           | None \<Rightarrow>
               if cUnknownHostPolicy cfg = UnknownHostDefault \<and> drBackend (cDefaultRoute cfg) \<noteq> '''' then
                 Inr \<lparr>slBackend = drBackend (cDefaultRoute cfg), slStatusBackend = '''', slMatchedBy = ''default'',
                   slMatchKind = MatchKindDefault, slRouteSource = RouteSourceDefault, slCanonicalServerAddress = '''',
                   slStatusOverride = None\<rparr>
               else Inl [ErrNoRoute]))"

lemma Router_New_spec:
  assumes "Validate v ord cfg = (None, cfg')"
  shows "\<exists>r. Router_New v ord cfg = Inr r \<and> (\<forall>s. Select r s = select_spec cfg s)"
proof -
  have "routes_wf (cRoutes cfg)" using Validate_parts(12) [OF assms] .
  then obtain m where "New_routes (cRoutes cfg) [] = Inr m"
    and "\<And>h. gm_get m h = (case List.find (claims_host h) (cRoutes cfg) of Some r \<Rightarrow> Some (table_entry h r) | None \<Rightarrow> None)"
    using New_routes_get [of "cRoutes cfg" "[]"] by (auto simp: routes_wf_def split: option.split)
  with assms show ?thesis
    by (auto simp: Router_New_def Select_def select_spec_def table_entry_def New_entry_def split: sum.split option.split)
qed

section \<open>Properties\<close>

text \<open>C10: the routing table. A table is refused exactly when the configuration is invalid, with the
  error of the validation. Otherwise it answers every requested address: an address that is not one
  is refused as such; an address some route claims, by its server address or an alias, gets the
  backends of that route; any other address gets the default backend where the policy allows it, and
  \<open>ErrNoRoute\<close> where not.\<close>

theorem router_selects:
  "case Router_New v ord cfg of
     Inl e \<Rightarrow> fst (Validate v ord cfg) = Some e
   | Inr r \<Rightarrow> fst (Validate v ord cfg) = None \<and> Select r s = select_spec cfg s"
proof (cases "fst (Validate v ord cfg)")
  case (Some e)
  then show ?thesis by (auto simp: Router_New_def split: prod.split option.split)
next
  case None
  then obtain cfg' where "Validate v ord cfg = (None, cfg')" by (cases "Validate v ord cfg") auto
  with Router_New_spec [OF this] show ?thesis by auto
qed

end
