(* ===== verification/Metrics.thy ===== *)
theory Metrics
  imports Config Kubernetes
begin

text \<open>
  The metrics recorder of \<open>internal/metrics/recorder.go\<close>. The Prometheus client library is not part
  of the sources, so a recorder is the sequence of the calls it has made to that library: which
  collector, with which label values, and which operation. The library panics on a collector that is
  registered twice and on a call whose label values do not fit the collector; the main result is that
  neither happens.
\<close>

section \<open>Label values\<close>

definition ConnectionResultAccepted :: string where "ConnectionResultAccepted = ''accepted''"
definition ConnectionResultClosed :: string where "ConnectionResultClosed = ''closed''"
definition ConnectionResultDenied :: string where "ConnectionResultDenied = ''denied''"
definition ConnectionResultFailed :: string where "ConnectionResultFailed = ''failed''"
definition ReasonBackendClose :: string where "ReasonBackendClose = ''backend_close''"
definition ReasonBackendDialFailed :: string where "ReasonBackendDialFailed = ''backend_dial_failed''"
definition ReasonBackendDialTimeout :: string where "ReasonBackendDialTimeout = ''backend_dial_timeout''"
definition ReasonClientClose :: string where "ReasonClientClose = ''client_close''"
definition ReasonClientDenied :: string where "ReasonClientDenied = ''client_denied''"
definition ReasonContextCancelled :: string where "ReasonContextCancelled = ''context_cancelled''"
definition ReasonHandshakeMalformed :: string where "ReasonHandshakeMalformed = ''handshake_malformed''"
definition ReasonHandshakeTimeout :: string where "ReasonHandshakeTimeout = ''handshake_timeout''"
definition ReasonInitialWriteFailed :: string where "ReasonInitialWriteFailed = ''initial_write_failed''"
definition ReasonRouteDenied :: string where "ReasonRouteDenied = ''route_denied''"
definition ReasonRateLimited :: string where "ReasonRateLimited = ''rate_limited''"
definition ReasonSuccess :: string where "ReasonSuccess = ''success''"
definition metrics_ReasonUnknown :: string where "metrics_ReasonUnknown = ''unknown''"
definition RouteDecisionDefault :: string where "RouteDecisionDefault = ''default''"
definition RouteDecisionDenied :: string where "RouteDecisionDenied = ''denied''"
definition RouteDecisionMatched :: string where "RouteDecisionMatched = ''matched''"
definition FallbackStateLogin :: string where "FallbackStateLogin = ''login''"
definition FallbackStateStatus :: string where "FallbackStateStatus = ''status''"
definition ReloadResultFailed :: string where "ReloadResultFailed = ''failed''"
definition ReloadResultSuccess :: string where "ReloadResultSuccess = ''success''"
definition KubernetesWatchRestartReasonListFailed :: string where "KubernetesWatchRestartReasonListFailed = ''list_failed''"
definition KubernetesWatchRestartReasonWatchClosed :: string where "KubernetesWatchRestartReasonWatchClosed = ''watch_closed''"
definition KubernetesWatchRestartReasonWatchError :: string where "KubernetesWatchRestartReasonWatchError = ''watch_error''"
definition KubernetesWatchRestartReasonWatchSetupFailed :: string where "KubernetesWatchRestartReasonWatchSetupFailed = ''watch_setup_failed''"
definition KubernetesWatchRestartReasonUnknown :: string where "KubernetesWatchRestartReasonUnknown = ''unknown''"
definition KubernetesDiscoveryErrorReasonInClusterConfigFailed :: string where "KubernetesDiscoveryErrorReasonInClusterConfigFailed = ''incluster_config_failed''"
definition KubernetesDiscoveryErrorReasonInitialListFailed :: string where "KubernetesDiscoveryErrorReasonInitialListFailed = ''initial_list_failed''"
definition KubernetesDiscoveryErrorReasonNamespaceResolutionFailed :: string where "KubernetesDiscoveryErrorReasonNamespaceResolutionFailed = ''namespace_resolution_failed''"
definition KubernetesDiscoveryErrorReasonRebuildFailed :: string where "KubernetesDiscoveryErrorReasonRebuildFailed = ''rebuild_failed''"
definition KubernetesDiscoveryErrorReasonWatchClosed :: string where "KubernetesDiscoveryErrorReasonWatchClosed = ''watch_closed''"
definition KubernetesDiscoveryErrorReasonWatchError :: string where "KubernetesDiscoveryErrorReasonWatchError = ''watch_error''"
definition KubernetesDiscoveryErrorReasonWatchSetupFailed :: string where "KubernetesDiscoveryErrorReasonWatchSetupFailed = ''watch_setup_failed''"
definition KubernetesDiscoveryErrorReasonUnknown :: string where "KubernetesDiscoveryErrorReasonUnknown = ''unknown''"
definition UDPPacketDirectionClientToBackend :: string where "UDPPacketDirectionClientToBackend = ''client_to_backend''"
definition UDPPacketDirectionBackendToClient :: string where "UDPPacketDirectionBackendToClient = ''backend_to_client''"
definition UDPPacketResultForwarded :: string where "UDPPacketResultForwarded = ''forwarded''"
definition UDPPacketResultDroppedSessionLimit :: string where "UDPPacketResultDroppedSessionLimit = ''dropped_session_limit''"
definition UDPPacketResultDroppedReadError :: string where "UDPPacketResultDroppedReadError = ''dropped_read_error''"
definition UDPPacketResultDroppedWriteError :: string where "UDPPacketResultDroppedWriteError = ''dropped_write_error''"
definition UDPSessionCloseReasonIdleTimeout :: string where "UDPSessionCloseReasonIdleTimeout = ''idle_timeout''"
definition UDPSessionCloseReasonBackendError :: string where "UDPSessionCloseReasonBackendError = ''backend_error''"
definition UDPSessionCloseReasonShutdown :: string where "UDPSessionCloseReasonShutdown = ''shutdown''"
definition VoiceChatPacketDirectionClientToBackend :: string where "VoiceChatPacketDirectionClientToBackend = ''client_to_backend''"
definition VoiceChatPacketDirectionBackendToClient :: string where "VoiceChatPacketDirectionBackendToClient = ''backend_to_client''"
definition VoiceChatPacketResultForwarded :: string where "VoiceChatPacketResultForwarded = ''forwarded''"
definition VoiceChatPacketResultDroppedUnknownSession :: string where "VoiceChatPacketResultDroppedUnknownSession = ''dropped_unknown_session''"
definition VoiceChatPacketResultDroppedExpiredRegistration :: string where "VoiceChatPacketResultDroppedExpiredRegistration = ''dropped_expired_registration''"
definition VoiceChatPacketResultDroppedMalformed :: string where "VoiceChatPacketResultDroppedMalformed = ''dropped_malformed''"
definition VoiceChatPacketResultDroppedSessionLimit :: string where "VoiceChatPacketResultDroppedSessionLimit = ''dropped_session_limit''"
definition VoiceChatPacketResultDroppedReadError :: string where "VoiceChatPacketResultDroppedReadError = ''dropped_read_error''"
definition VoiceChatPacketResultDroppedWriteError :: string where "VoiceChatPacketResultDroppedWriteError = ''dropped_write_error''"
definition VoiceChatSessionCloseReasonIdleTimeout :: string where "VoiceChatSessionCloseReasonIdleTimeout = ''idle_timeout''"
definition VoiceChatSessionCloseReasonBackendError :: string where "VoiceChatSessionCloseReasonBackendError = ''backend_error''"
definition VoiceChatSessionCloseReasonShutdown :: string where "VoiceChatSessionCloseReasonShutdown = ''shutdown''"
definition VoiceChatSessionCloseReasonReassigned :: string where "VoiceChatSessionCloseReasonReassigned = ''reassigned''"
definition VoiceChatSessionCloseReasonRegistrationExpired :: string where "VoiceChatSessionCloseReasonRegistrationExpired = ''registration_expired''"
definition VoiceChatSessionCloseReasonUnregistered :: string where "VoiceChatSessionCloseReasonUnregistered = ''unregistered''"
definition VoiceChatRegistrationResultCreated :: string where "VoiceChatRegistrationResultCreated = ''created''"
definition VoiceChatRegistrationResultReplaced :: string where "VoiceChatRegistrationResultReplaced = ''replaced''"
definition VoiceChatRegistrationResultRefreshed :: string where "VoiceChatRegistrationResultRefreshed = ''refreshed''"
definition VoiceChatRegistrationResultDeleted :: string where "VoiceChatRegistrationResultDeleted = ''deleted''"
definition VoiceChatRegistrationResultExpired :: string where "VoiceChatRegistrationResultExpired = ''expired''"
definition VoiceChatRegistrationResultAuthFailed :: string where "VoiceChatRegistrationResultAuthFailed = ''auth_failed''"
definition VoiceChatRegistrationResultMalformed :: string where "VoiceChatRegistrationResultMalformed = ''malformed''"
definition VoiceChatRegistrationResultLimit :: string where "VoiceChatRegistrationResultLimit = ''limit''"
definition VoiceChatRegistrationResultStaleLease :: string where "VoiceChatRegistrationResultStaleLease = ''stale_lease''"
definition VoiceChatRegistrationResultFailed :: string where "VoiceChatRegistrationResultFailed = ''failed''"

section \<open>Collectors\<close>

datatype metric_kind = Counter | Gauge | Histogram

record collector =
  clName :: string
  clKind :: metric_kind
  clLabels :: "string list"

definition connectionsTotal :: collector where
  "connectionsTotal = \<lparr>clName = ''mc_gateway_connections_total'', clKind = Counter, clLabels = [''result'', ''reason'']\<rparr>"
definition backendDialsTotal :: collector where
  "backendDialsTotal = \<lparr>clName = ''mc_gateway_backend_dials_total'', clKind = Counter, clLabels = [''result'', ''reason'']\<rparr>"
definition fallbackResponses :: collector where
  "fallbackResponses = \<lparr>clName = ''mc_gateway_fallback_responses_total'', clKind = Counter, clLabels = [''state'', ''reason'']\<rparr>"
definition reloadTotal :: collector where
  "reloadTotal = \<lparr>clName = ''mc_gateway_reload_total'', clKind = Counter, clLabels = [''result'']\<rparr>"
definition routeDecisionsTotal :: collector where
  "routeDecisionsTotal = \<lparr>clName = ''mc_gateway_route_decisions_total'', clKind = Counter, clLabels = [''result'']\<rparr>"
definition kubernetesWatchRestartsTotal :: collector where
  "kubernetesWatchRestartsTotal = \<lparr>clName = ''mc_gateway_kubernetes_watch_restarts_total'', clKind = Counter, clLabels = [''reason'']\<rparr>"
definition kubernetesDiscoveryErrorsTotal :: collector where
  "kubernetesDiscoveryErrorsTotal = \<lparr>clName = ''mc_gateway_kubernetes_discovery_errors_total'', clKind = Counter, clLabels = [''reason'']\<rparr>"
definition kubernetesSkippedServices :: collector where
  "kubernetesSkippedServices = \<lparr>clName = ''mc_gateway_kubernetes_skipped_services'', clKind = Gauge, clLabels = [''reason'']\<rparr>"
definition udpPacketsTotal :: collector where
  "udpPacketsTotal = \<lparr>clName = ''mc_gateway_udp_packets_total'', clKind = Counter, clLabels = [''direction'', ''result'']\<rparr>"
definition udpBytesTotal :: collector where
  "udpBytesTotal = \<lparr>clName = ''mc_gateway_udp_bytes_total'', clKind = Counter, clLabels = [''direction'']\<rparr>"
definition udpSessions :: collector where
  "udpSessions = \<lparr>clName = ''mc_gateway_udp_sessions'', clKind = Gauge, clLabels = []\<rparr>"
definition udpSessionsCreatedTotal :: collector where
  "udpSessionsCreatedTotal = \<lparr>clName = ''mc_gateway_udp_sessions_created_total'', clKind = Counter, clLabels = []\<rparr>"
definition udpSessionsClosedTotal :: collector where
  "udpSessionsClosedTotal = \<lparr>clName = ''mc_gateway_udp_sessions_closed_total'', clKind = Counter, clLabels = [''reason'']\<rparr>"
definition voicechatPacketsTotal :: collector where
  "voicechatPacketsTotal = \<lparr>clName = ''mc_gateway_voicechat_packets_total'', clKind = Counter, clLabels = [''direction'', ''result'']\<rparr>"
definition voicechatBytesTotal :: collector where
  "voicechatBytesTotal = \<lparr>clName = ''mc_gateway_voicechat_bytes_total'', clKind = Counter, clLabels = [''direction'']\<rparr>"
definition voicechatSessions :: collector where
  "voicechatSessions = \<lparr>clName = ''mc_gateway_voicechat_sessions'', clKind = Gauge, clLabels = []\<rparr>"
definition voicechatSessionsCreatedTotal :: collector where
  "voicechatSessionsCreatedTotal = \<lparr>clName = ''mc_gateway_voicechat_sessions_created_total'', clKind = Counter, clLabels = []\<rparr>"
definition voicechatSessionsClosedTotal :: collector where
  "voicechatSessionsClosedTotal = \<lparr>clName = ''mc_gateway_voicechat_sessions_closed_total'', clKind = Counter, clLabels = [''reason'']\<rparr>"
definition voicechatRegistrations :: collector where
  "voicechatRegistrations = \<lparr>clName = ''mc_gateway_voicechat_registrations'', clKind = Gauge, clLabels = []\<rparr>"
definition voicechatRegistrationEventsTotal :: collector where
  "voicechatRegistrationEventsTotal = \<lparr>clName = ''mc_gateway_voicechat_registration_events_total'', clKind = Counter, clLabels = [''result'']\<rparr>"
definition voicechatBackendSwitchesTotal :: collector where
  "voicechatBackendSwitchesTotal = \<lparr>clName = ''mc_gateway_voicechat_backend_switches_total'', clKind = Counter, clLabels = []\<rparr>"
definition activeConnections :: collector where
  "activeConnections = \<lparr>clName = ''mc_gateway_active_connections'', clKind = Gauge, clLabels = []\<rparr>"
definition configGeneration :: collector where
  "configGeneration = \<lparr>clName = ''mc_gateway_config_generation'', clKind = Gauge, clLabels = []\<rparr>"
definition metric_routes :: collector where
  "metric_routes = \<lparr>clName = ''mc_gateway_routes'', clKind = Gauge, clLabels = []\<rparr>"
definition kubernetesWatchRunning :: collector where
  "kubernetesWatchRunning = \<lparr>clName = ''mc_gateway_kubernetes_watch_running'', clKind = Gauge, clLabels = []\<rparr>"
definition kubernetesLastSuccessfulSyncTime :: collector where
  "kubernetesLastSuccessfulSyncTime = \<lparr>clName = ''mc_gateway_kubernetes_last_successful_sync_timestamp_seconds'', clKind = Gauge, clLabels = []\<rparr>"
definition kubernetesDiscoveredRoutes :: collector where
  "kubernetesDiscoveredRoutes = \<lparr>clName = ''mc_gateway_kubernetes_discovered_routes'', clKind = Gauge, clLabels = []\<rparr>"
definition connectionDuration :: collector where
  "connectionDuration = \<lparr>clName = ''mc_gateway_connection_duration_seconds'', clKind = Histogram, clLabels = []\<rparr>"
definition backendDialDuration :: collector where
  "backendDialDuration = \<lparr>clName = ''mc_gateway_backend_dial_duration_seconds'', clKind = Histogram, clLabels = []\<rparr>"

definition registry :: "collector list" where
  \<comment> \<open>what \<open>NewRecorder\<close> registers\<close>
  "registry = [connectionsTotal, backendDialsTotal, fallbackResponses, reloadTotal, routeDecisionsTotal,
     kubernetesWatchRestartsTotal, kubernetesDiscoveryErrorsTotal, kubernetesSkippedServices,
     udpPacketsTotal, udpBytesTotal, udpSessions, udpSessionsCreatedTotal, udpSessionsClosedTotal,
     voicechatPacketsTotal, voicechatBytesTotal, voicechatSessions, voicechatSessionsCreatedTotal, voicechatSessionsClosedTotal,
     voicechatRegistrations, voicechatRegistrationEventsTotal, voicechatBackendSwitchesTotal,
     activeConnections, configGeneration, metric_routes,
     kubernetesWatchRunning, kubernetesLastSuccessfulSyncTime, kubernetesDiscoveredRoutes, connectionDuration, backendDialDuration]"

section \<open>The recorder\<close>

datatype prom_op = PInc | PDec | PAdd int | PSet int | PObserve int

text \<open>An observed duration is given in nanoseconds; the recorder passes it on in seconds.\<close>

record prom_call =
  pcCollector :: collector
  pcLabels :: "string list"
  pcOp :: prom_op

record Recorder =
  recEnabled :: bool
  recRegistry :: "collector list option"
  recCalls :: "prom_call list"

definition NewRecorder :: "bool \<Rightarrow> Recorder" where
  "NewRecorder enabled =
     (if \<not> enabled then \<lparr>recEnabled = False, recRegistry = None, recCalls = []\<rparr>
      else \<lparr>recEnabled = True, recRegistry = Some registry, recCalls = []\<rparr>)"

definition Registry :: "Recorder \<Rightarrow> collector list option" where
  "Registry r = recRegistry r"

definition prom :: "collector \<Rightarrow> string list \<Rightarrow> prom_op \<Rightarrow> Recorder \<Rightarrow> Recorder" where
  \<comment> \<open>a call of the library: \<open>collector.WithLabelValues(labels...)\<close> and the operation\<close>
  "prom c ls p r = r\<lparr>recCalls := recCalls r @ [\<lparr>pcCollector = c, pcLabels = ls, pcOp = p\<rparr>]\<rparr>"

definition SetConfig :: "Recorder \<Rightarrow> int \<Rightarrow> Config \<Rightarrow> Recorder" where
  "SetConfig r generation cfg =
     (if \<not> recEnabled r then r
      else prom metric_routes [] (PSet (int (length (cRoutes cfg)))) (prom configGeneration [] (PSet generation) r))"

definition ConnectionAccepted :: "Recorder \<Rightarrow> Recorder" where
  "ConnectionAccepted r =
     (if \<not> recEnabled r then r
      else prom activeConnections [] PInc (prom connectionsTotal [ConnectionResultAccepted, metrics_ReasonUnknown] PInc r))"

definition ConnectionFinished :: "Recorder \<Rightarrow> string \<Rightarrow> string \<Rightarrow> int \<Rightarrow> Recorder" where
  "ConnectionFinished r result reason duration =
     (if \<not> recEnabled r then r
      else prom connectionDuration [] (PObserve duration) (prom activeConnections [] PDec (prom connectionsTotal [result, reason] PInc r)))"

definition BackendDialFinished :: "Recorder \<Rightarrow> string \<Rightarrow> string \<Rightarrow> int \<Rightarrow> Recorder" where
  "BackendDialFinished r result reason duration =
     (if \<not> recEnabled r then r
      else prom backendDialDuration [] (PObserve duration) (prom backendDialsTotal [result, reason] PInc r))"

definition FallbackResponse :: "Recorder \<Rightarrow> string \<Rightarrow> string \<Rightarrow> Recorder" where
  "FallbackResponse r state reason = (if \<not> recEnabled r then r else prom fallbackResponses [state, reason] PInc r)"

definition RouteDecision :: "Recorder \<Rightarrow> string \<Rightarrow> Recorder" where
  "RouteDecision r result = (if \<not> recEnabled r then r else prom routeDecisionsTotal [result] PInc r)"

definition Reload :: "Recorder \<Rightarrow> string \<Rightarrow> Recorder" where
  "Reload r result = (if \<not> recEnabled r then r else prom reloadTotal [result] PInc r)"

definition KubernetesWatchRunning :: "Recorder \<Rightarrow> bool \<Rightarrow> Recorder" where
  "KubernetesWatchRunning r running =
     (if \<not> recEnabled r then r
      else if running then prom kubernetesWatchRunning [] (PSet 1) r
      else prom kubernetesWatchRunning [] (PSet 0) r)"

definition KubernetesWatchRestart :: "Recorder \<Rightarrow> string \<Rightarrow> Recorder" where
  "KubernetesWatchRestart r reason = (if \<not> recEnabled r then r else prom kubernetesWatchRestartsTotal [reason] PInc r)"

definition KubernetesDiscoverySync :: "Recorder \<Rightarrow> nat \<Rightarrow> int \<Rightarrow> Recorder" where
  \<comment> \<open>the second argument is the time, in seconds\<close>
  "KubernetesDiscoverySync r discoveredRoutes unix =
     (if \<not> recEnabled r then r
      else prom kubernetesLastSuccessfulSyncTime [] (PSet unix) (prom kubernetesDiscoveredRoutes [] (PSet (int discoveredRoutes)) r))"

definition kubernetesSkippedServiceReasons :: "string list" where
  "kubernetesSkippedServiceReasons =
     [ReasonDisabled, ReasonInvalidPrefix, ReasonInvalidServiceName, ReasonInvalidNamespace, ReasonMissingHost,
      ReasonInvalidHost, ReasonMissingPort, ReasonInvalidPort, ReasonPortNotFound, ReasonDuplicateHost, ReasonUnknown]"

definition KubernetesSkippedServicesByReason :: "Recorder \<Rightarrow> (string, nat) gomap \<Rightarrow> Recorder" where
  "KubernetesSkippedServicesByReason r skippedByReason =
     (if \<not> recEnabled r then r
      else foldl (\<lambda>r reason. prom kubernetesSkippedServices [reason] (PSet (int (gm_count skippedByReason reason))) r)
             r kubernetesSkippedServiceReasons)"

definition KubernetesDiscoveryError :: "Recorder \<Rightarrow> string \<Rightarrow> Recorder" where
  "KubernetesDiscoveryError r reason = (if \<not> recEnabled r then r else prom kubernetesDiscoveryErrorsTotal [reason] PInc r)"

definition UDPPacket :: "Recorder \<Rightarrow> string \<Rightarrow> string \<Rightarrow> nat \<Rightarrow> Recorder" where
  "UDPPacket r direction result bytes =
     (if \<not> recEnabled r then r
      else let r1 = prom udpPacketsTotal [direction, result] PInc r in
        if result = UDPPacketResultForwarded then prom udpBytesTotal [direction] (PAdd (int bytes)) r1 else r1)"

definition UDPSessionCreated :: "Recorder \<Rightarrow> Recorder" where
  "UDPSessionCreated r = (if \<not> recEnabled r then r else prom udpSessions [] PInc (prom udpSessionsCreatedTotal [] PInc r))"

definition UDPSessionClosed :: "Recorder \<Rightarrow> string \<Rightarrow> Recorder" where
  "UDPSessionClosed r reason = (if \<not> recEnabled r then r else prom udpSessions [] PDec (prom udpSessionsClosedTotal [reason] PInc r))"

definition VoiceChatPacket :: "Recorder \<Rightarrow> string \<Rightarrow> string \<Rightarrow> nat \<Rightarrow> Recorder" where
  "VoiceChatPacket r direction result bytes =
     (if \<not> recEnabled r then r
      else let r1 = prom voicechatPacketsTotal [direction, result] PInc r in
        if result = VoiceChatPacketResultForwarded then prom voicechatBytesTotal [direction] (PAdd (int bytes)) r1 else r1)"

definition VoiceChatSessionCreated :: "Recorder \<Rightarrow> Recorder" where
  "VoiceChatSessionCreated r =
     (if \<not> recEnabled r then r else prom voicechatSessions [] PInc (prom voicechatSessionsCreatedTotal [] PInc r))"

definition VoiceChatSessionClosed :: "Recorder \<Rightarrow> string \<Rightarrow> Recorder" where
  "VoiceChatSessionClosed r reason =
     (if \<not> recEnabled r then r else prom voicechatSessions [] PDec (prom voicechatSessionsClosedTotal [reason] PInc r))"

definition VoiceChatRegistrationsSet :: "Recorder \<Rightarrow> nat \<Rightarrow> Recorder" where
  "VoiceChatRegistrationsSet r n = (if \<not> recEnabled r then r else prom voicechatRegistrations [] (PSet (int n)) r)"

definition VoiceChatRegistrationEvent :: "Recorder \<Rightarrow> string \<Rightarrow> Recorder" where
  "VoiceChatRegistrationEvent r result = (if \<not> recEnabled r then r else prom voicechatRegistrationEventsTotal [result] PInc r)"

definition VoiceChatBackendSwitch :: "Recorder \<Rightarrow> Recorder" where
  "VoiceChatBackendSwitch r = (if \<not> recEnabled r then r else prom voicechatBackendSwitchesTotal [] PInc r)"

section \<open>Calls the library accepts\<close>

text \<open>
  What the library documents: a collector is registered once, \<open>WithLabelValues\<close> takes as many
  values as the collector has labels, a counter only goes up, a histogram only observes.
\<close>

fun op_fits :: "metric_kind \<Rightarrow> prom_op \<Rightarrow> bool" where
  "op_fits Counter PInc = True"
| "op_fits Counter (PAdd n) = (0 \<le> n)"
| "op_fits Gauge (PObserve _) = False"
| "op_fits Gauge _ = True"
| "op_fits Histogram (PObserve _) = True"
| "op_fits _ _ = False"

definition call_ok :: "prom_call \<Rightarrow> bool" where
  "call_ok c \<longleftrightarrow> pcCollector c \<in> set registry \<and> length (pcLabels c) = length (clLabels (pcCollector c)) \<and>
     op_fits (clKind (pcCollector c)) (pcOp c)"

definition recorder_ok :: "Recorder \<Rightarrow> bool" where
  "recorder_ok r \<longleftrightarrow> list_all call_ok (recCalls r) \<and>
     recRegistry r = (if recEnabled r then Some registry else None) \<and> (recEnabled r \<or> recCalls r = [])"

lemmas collector_defs =
  connectionsTotal_def backendDialsTotal_def fallbackResponses_def reloadTotal_def routeDecisionsTotal_def
  kubernetesWatchRestartsTotal_def kubernetesDiscoveryErrorsTotal_def kubernetesSkippedServices_def udpPacketsTotal_def
  udpBytesTotal_def udpSessions_def udpSessionsCreatedTotal_def udpSessionsClosedTotal_def voicechatPacketsTotal_def
  voicechatBytesTotal_def voicechatSessions_def voicechatSessionsCreatedTotal_def voicechatSessionsClosedTotal_def
  voicechatRegistrations_def voicechatRegistrationEventsTotal_def voicechatBackendSwitchesTotal_def activeConnections_def
  configGeneration_def metric_routes_def kubernetesWatchRunning_def kubernetesLastSuccessfulSyncTime_def
  kubernetesDiscoveredRoutes_def connectionDuration_def backendDialDuration_def

lemmas recorder_defs =
  SetConfig_def ConnectionAccepted_def ConnectionFinished_def BackendDialFinished_def FallbackResponse_def RouteDecision_def
  Reload_def KubernetesWatchRunning_def KubernetesWatchRestart_def KubernetesDiscoverySync_def KubernetesDiscoveryError_def
  UDPPacket_def UDPSessionCreated_def UDPSessionClosed_def VoiceChatPacket_def VoiceChatSessionCreated_def
  VoiceChatSessionClosed_def VoiceChatRegistrationsSet_def VoiceChatRegistrationEvent_def VoiceChatBackendSwitch_def

lemma prom_simps [simp]:
  "recEnabled (prom c ls p r) = recEnabled r" "recRegistry (prom c ls p r) = recRegistry r"
  by (simp_all add: prom_def)

lemma prom_ok:
  "recorder_ok r \<Longrightarrow> recEnabled r \<Longrightarrow> c \<in> set registry \<Longrightarrow> length ls = length (clLabels c) \<Longrightarrow> op_fits (clKind c) p \<Longrightarrow>
     recorder_ok (prom c ls p r)"
  by (auto simp: recorder_ok_def prom_def call_ok_def)

lemma NewRecorder_ok [simp]: "recorder_ok (NewRecorder en)" "recEnabled (NewRecorder en) = en"
  by (auto simp: recorder_ok_def NewRecorder_def)

lemma registry_set:
  "set registry = {connectionsTotal, backendDialsTotal, fallbackResponses, reloadTotal, routeDecisionsTotal,
     kubernetesWatchRestartsTotal, kubernetesDiscoveryErrorsTotal, kubernetesSkippedServices, udpPacketsTotal, udpBytesTotal,
     udpSessions, udpSessionsCreatedTotal, udpSessionsClosedTotal, voicechatPacketsTotal, voicechatBytesTotal,
     voicechatSessions, voicechatSessionsCreatedTotal, voicechatSessionsClosedTotal, voicechatRegistrations,
     voicechatRegistrationEventsTotal, voicechatBackendSwitchesTotal, activeConnections, configGeneration, metric_routes,
     kubernetesWatchRunning, kubernetesLastSuccessfulSyncTime, kubernetesDiscoveredRoutes, connectionDuration, backendDialDuration}"
  by (simp add: registry_def)

lemma collector_shape [simp]:
  "length (clLabels connectionsTotal) = 2" "length (clLabels backendDialsTotal) = 2" "length (clLabels fallbackResponses) = 2"
  "length (clLabels reloadTotal) = 1" "length (clLabels routeDecisionsTotal) = 1" "length (clLabels kubernetesWatchRestartsTotal) = 1"
  "length (clLabels kubernetesDiscoveryErrorsTotal) = 1" "length (clLabels kubernetesSkippedServices) = 1"
  "length (clLabels udpPacketsTotal) = 2" "length (clLabels udpBytesTotal) = 1" "clLabels udpSessions = []"
  "clLabels udpSessionsCreatedTotal = []" "length (clLabels udpSessionsClosedTotal) = 1" "length (clLabels voicechatPacketsTotal) = 2"
  "length (clLabels voicechatBytesTotal) = 1" "clLabels voicechatSessions = []" "clLabels voicechatSessionsCreatedTotal = []"
  "length (clLabels voicechatSessionsClosedTotal) = 1" "clLabels voicechatRegistrations = []"
  "length (clLabels voicechatRegistrationEventsTotal) = 1" "clLabels voicechatBackendSwitchesTotal = []"
  "clLabels activeConnections = []" "clLabels configGeneration = []" "clLabels metric_routes = []" "clLabels kubernetesWatchRunning = []"
  "clLabels kubernetesLastSuccessfulSyncTime = []" "clLabels kubernetesDiscoveredRoutes = []" "clLabels connectionDuration = []"
  "clLabels backendDialDuration = []"
  by (simp_all add: collector_defs)

lemma collector_kind [simp]:
  "clKind connectionsTotal = Counter" "clKind backendDialsTotal = Counter" "clKind fallbackResponses = Counter"
  "clKind reloadTotal = Counter" "clKind routeDecisionsTotal = Counter" "clKind kubernetesWatchRestartsTotal = Counter"
  "clKind kubernetesDiscoveryErrorsTotal = Counter" "clKind kubernetesSkippedServices = Gauge"
  "clKind udpPacketsTotal = Counter" "clKind udpBytesTotal = Counter" "clKind udpSessions = Gauge"
  "clKind udpSessionsCreatedTotal = Counter" "clKind udpSessionsClosedTotal = Counter" "clKind voicechatPacketsTotal = Counter"
  "clKind voicechatBytesTotal = Counter" "clKind voicechatSessions = Gauge" "clKind voicechatSessionsCreatedTotal = Counter"
  "clKind voicechatSessionsClosedTotal = Counter" "clKind voicechatRegistrations = Gauge"
  "clKind voicechatRegistrationEventsTotal = Counter" "clKind voicechatBackendSwitchesTotal = Counter"
  "clKind activeConnections = Gauge" "clKind configGeneration = Gauge" "clKind metric_routes = Gauge" "clKind kubernetesWatchRunning = Gauge"
  "clKind kubernetesLastSuccessfulSyncTime = Gauge" "clKind kubernetesDiscoveredRoutes = Gauge" "clKind connectionDuration = Histogram"
  "clKind backendDialDuration = Histogram"
  by (simp_all add: collector_defs)

lemma skipped_loop:
  "recEnabled r \<Longrightarrow> recorder_ok r \<Longrightarrow>
     recorder_ok (foldl (\<lambda>r reason. prom kubernetesSkippedServices [reason] (PSet (f reason)) r) r xs) \<and>
     recEnabled (foldl (\<lambda>r reason. prom kubernetesSkippedServices [reason] (PSet (f reason)) r) r xs)"
  by (induction xs arbitrary: r) (simp_all add: registry_set prom_ok)

lemma recorder_enabled [simp]:
  "recEnabled (SetConfig r g cfg) = recEnabled r" "recEnabled (ConnectionAccepted r) = recEnabled r"
  "recEnabled (ConnectionFinished r s t d) = recEnabled r" "recEnabled (BackendDialFinished r s t d) = recEnabled r"
  "recEnabled (FallbackResponse r s t) = recEnabled r" "recEnabled (RouteDecision r s) = recEnabled r"
  "recEnabled (Reload r s) = recEnabled r" "recEnabled (KubernetesWatchRunning r b) = recEnabled r"
  "recEnabled (KubernetesWatchRestart r s) = recEnabled r" "recEnabled (KubernetesDiscoverySync r n u) = recEnabled r"
  "recEnabled (KubernetesDiscoveryError r s) = recEnabled r" "recEnabled (UDPPacket r s t n) = recEnabled r"
  "recEnabled (UDPSessionCreated r) = recEnabled r" "recEnabled (UDPSessionClosed r s) = recEnabled r"
  "recEnabled (VoiceChatPacket r s t n) = recEnabled r" "recEnabled (VoiceChatSessionCreated r) = recEnabled r"
  "recEnabled (VoiceChatSessionClosed r s) = recEnabled r" "recEnabled (VoiceChatRegistrationsSet r n) = recEnabled r"
  "recEnabled (VoiceChatRegistrationEvent r s) = recEnabled r" "recEnabled (VoiceChatBackendSwitch r) = recEnabled r"
  by (simp_all add: recorder_defs Let_def)

lemma recorder_ok_ops [inv_intros]:
  "recorder_ok r \<Longrightarrow> recorder_ok (SetConfig r g cfg)" "recorder_ok r \<Longrightarrow> recorder_ok (ConnectionAccepted r)"
  "recorder_ok r \<Longrightarrow> recorder_ok (ConnectionFinished r s t d)" "recorder_ok r \<Longrightarrow> recorder_ok (BackendDialFinished r s t d)"
  "recorder_ok r \<Longrightarrow> recorder_ok (FallbackResponse r s t)" "recorder_ok r \<Longrightarrow> recorder_ok (RouteDecision r s)"
  "recorder_ok r \<Longrightarrow> recorder_ok (Reload r s)" "recorder_ok r \<Longrightarrow> recorder_ok (KubernetesWatchRunning r b)"
  "recorder_ok r \<Longrightarrow> recorder_ok (KubernetesWatchRestart r s)" "recorder_ok r \<Longrightarrow> recorder_ok (KubernetesDiscoverySync r n u)"
  "recorder_ok r \<Longrightarrow> recorder_ok (KubernetesDiscoveryError r s)" "recorder_ok r \<Longrightarrow> recorder_ok (UDPPacket r s t n)"
  "recorder_ok r \<Longrightarrow> recorder_ok (UDPSessionCreated r)" "recorder_ok r \<Longrightarrow> recorder_ok (UDPSessionClosed r s)"
  "recorder_ok r \<Longrightarrow> recorder_ok (VoiceChatPacket r s t n)" "recorder_ok r \<Longrightarrow> recorder_ok (VoiceChatSessionCreated r)"
  "recorder_ok r \<Longrightarrow> recorder_ok (VoiceChatSessionClosed r s)" "recorder_ok r \<Longrightarrow> recorder_ok (VoiceChatRegistrationsSet r n)"
  "recorder_ok r \<Longrightarrow> recorder_ok (VoiceChatRegistrationEvent r s)" "recorder_ok r \<Longrightarrow> recorder_ok (VoiceChatBackendSwitch r)"
  "recorder_ok r \<Longrightarrow> recorder_ok (KubernetesSkippedServicesByReason r m)"
  by (auto simp: recorder_defs KubernetesSkippedServicesByReason_def Let_def registry_set intro!: prom_ok conjunct1 [OF skipped_loop])

section \<open>Gauges\<close>

fun gauge_step :: "collector \<Rightarrow> int \<Rightarrow> prom_call \<Rightarrow> int" where
  "gauge_step c n \<lparr>pcCollector = c', pcLabels = ls, pcOp = p\<rparr> =
     (if c' \<noteq> c then n else (case p of PInc \<Rightarrow> n + 1 | PDec \<Rightarrow> n - 1 | PAdd k \<Rightarrow> n + k | PSet k \<Rightarrow> k | PObserve _ \<Rightarrow> n))"

definition gauge :: "collector \<Rightarrow> Recorder \<Rightarrow> int" where
  \<comment> \<open>the value of an unlabelled gauge after the calls of a recorder\<close>
  "gauge c r = foldl (gauge_step c) 0 (recCalls r)"

lemma gauge_NewRecorder [simp]: "gauge c (NewRecorder en) = 0"
  by (simp add: gauge_def NewRecorder_def)

lemma gauge_prom [simp]:
  "gauge c (prom c' ls p r) =
     (if c' \<noteq> c then gauge c r
      else (case p of PInc \<Rightarrow> gauge c r + 1 | PDec \<Rightarrow> gauge c r - 1 | PAdd k \<Rightarrow> gauge c r + k | PSet k \<Rightarrow> k | PObserve _ \<Rightarrow> gauge c r))"
  by (simp add: gauge_def prom_def split: prom_op.split)

section \<open>Properties\<close>

datatype recorder_event =
    EvSetConfig int Config | EvConnectionAccepted | EvConnectionFinished string string int
  | EvBackendDialFinished string string int | EvFallbackResponse string string | EvRouteDecision string | EvReload string
  | EvWatchRunning bool | EvWatchRestart string | EvDiscoverySync nat int | EvSkippedByReason "(string, nat) gomap"
  | EvDiscoveryError string | EvUDPPacket string string nat | EvUDPSessionCreated | EvUDPSessionClosed string
  | EvVoicePacket string string nat | EvVoiceSessionCreated | EvVoiceSessionClosed string | EvVoiceRegistrations nat
  | EvVoiceRegistration string | EvVoiceBackendSwitch

fun record_event :: "Recorder \<Rightarrow> recorder_event \<Rightarrow> Recorder" where
  "record_event r (EvSetConfig g cfg) = SetConfig r g cfg"
| "record_event r EvConnectionAccepted = ConnectionAccepted r"
| "record_event r (EvConnectionFinished s t d) = ConnectionFinished r s t d"
| "record_event r (EvBackendDialFinished s t d) = BackendDialFinished r s t d"
| "record_event r (EvFallbackResponse s t) = FallbackResponse r s t"
| "record_event r (EvRouteDecision s) = RouteDecision r s"
| "record_event r (EvReload s) = Reload r s"
| "record_event r (EvWatchRunning b) = KubernetesWatchRunning r b"
| "record_event r (EvWatchRestart s) = KubernetesWatchRestart r s"
| "record_event r (EvDiscoverySync n u) = KubernetesDiscoverySync r n u"
| "record_event r (EvSkippedByReason m) = KubernetesSkippedServicesByReason r m"
| "record_event r (EvDiscoveryError s) = KubernetesDiscoveryError r s"
| "record_event r (EvUDPPacket s t n) = UDPPacket r s t n"
| "record_event r EvUDPSessionCreated = UDPSessionCreated r"
| "record_event r (EvUDPSessionClosed s) = UDPSessionClosed r s"
| "record_event r (EvVoicePacket s t n) = VoiceChatPacket r s t n"
| "record_event r EvVoiceSessionCreated = VoiceChatSessionCreated r"
| "record_event r (EvVoiceSessionClosed s) = VoiceChatSessionClosed r s"
| "record_event r (EvVoiceRegistrations n) = VoiceChatRegistrationsSet r n"
| "record_event r (EvVoiceRegistration s) = VoiceChatRegistrationEvent r s"
| "record_event r EvVoiceBackendSwitch = VoiceChatBackendSwitch r"

lemma record_event_ok: "recorder_ok r \<Longrightarrow> recorder_ok (record_event r e)"
  by (cases e) (auto intro: inv_intros)

lemma registry_names: "distinct (map clName registry)"
  by code_simp

text \<open>The metrics never panic. No collector is registered twice, and whatever is recorded, in
  whatever order, every call names a registered collector, gives as many label values as it has
  labels, and fits its kind; a recorder that is not enabled makes no call at all.\<close>

theorem recorder_calls_fit:
  "distinct (map clName registry) \<and> recorder_ok (foldl record_event (NewRecorder en) evs)"
proof -
  have "recorder_ok (foldl record_event r evs)" if "recorder_ok r" for r
    using that by (induction evs arbitrary: r) (simp_all add: record_event_ok)
  then show ?thesis using registry_names by simp
qed

end
