(* ===== verification/Varint.thy ===== *)
theory Varint
  imports GoRead
begin

text \<open>
  Variable-length 32-bit integers: \<open>internal/mcproto/varint.go\<close>, and the two other readers the
  sources have for the same encoding, \<open>readVarInt\<close> of \<open>internal/voicechat/udp.go\<close> and of
  \<open>internal/availability/monitor.go\<close>. Values are \<open>int32\<close>, so \<open>32 word\<close> read as two's
  complement (\<open>sint\<close>).
\<close>

type_synonym int32 = "32 word"

definition MaxVarIntBytes :: nat where
  "MaxVarIntBytes = 5"

section \<open>Reading\<close>

text \<open>
  \<open>ReadByte\<close> of \<open>byteReader\<close>; a \<open>bytes.Reader\<close>, which has its own, answers the same.
\<close>

definition ReadByte :: "reader \<Rightarrow> byte result \<times> reader" where
  "ReadByte r = (case ReadFull r 1 of
     (Inl e, r') \<Rightarrow> (Inl e, r')
   | (Inr b, r') \<Rightarrow> (Inr (hd b), r'))"

text \<open>The value bits a byte contributes at position \<open>i\<close>: \<open>int32(b & 0x7f) << (7 * i)\<close>.\<close>

definition group :: "byte \<Rightarrow> nat \<Rightarrow> int32" where
  "group b i = push_bit (7 * i) (ucast (b AND 0x7f))"

text \<open>The loop of \<open>ReadVarInt\<close> from index \<open>i\<close>, with the value and the raw bytes so far.\<close>

function ReadVarInt_loop :: "nat \<Rightarrow> int32 \<Rightarrow> bytes \<Rightarrow> reader \<Rightarrow> int32 result \<times> bytes \<times> reader" where
  "ReadVarInt_loop i v raw r =
     (if i < MaxVarIntBytes then
        (case ReadByte r of
           (Inl e, r') \<Rightarrow> (Inl e, raw, r')
         | (Inr b, r') \<Rightarrow>
             (if b AND 0x80 = 0 then (Inr (v OR group b i), raw @ [b], r')
              else ReadVarInt_loop (Suc i) (v OR group b i) (raw @ [b]) r'))
      else (Inl [ErrVarIntTooLong], raw, r))"
  by pat_completeness auto
termination
  by (relation "measure (\<lambda>(i, v, raw, r). MaxVarIntBytes - i)") auto

declare ReadVarInt_loop.simps [simp del]

definition ReadVarInt :: "reader \<Rightarrow> int32 result \<times> bytes \<times> reader" where
  "ReadVarInt r = ReadVarInt_loop 0 0 [] r"

text \<open>\<open>fmt.Errorf("read varint: %w", err)\<close> adds text only: the wrapped chain is the same.\<close>

definition readVarIntFromReader :: "reader \<Rightarrow> int32 result \<times> bytes \<times> reader" where
  "readVarIntFromReader r =
     (case ReadVarInt r of
        (Inl e, raw, r') \<Rightarrow> (Inl e, raw, r')
      | (Inr v, raw, r') \<Rightarrow> (Inr v, raw, r'))"

section \<open>Writing\<close>

function WriteVarInt :: "int32 \<Rightarrow> bytes" where
  "WriteVarInt value =
     (let temp = ucast (value AND 0x7f) :: byte; value' = drop_bit 7 value
      in if value' \<noteq> 0 then (temp OR 0x80) # WriteVarInt value' else [temp])"
  by pat_completeness auto

lemma drop_bit_7_less: "drop_bit 7 (v :: int32) \<noteq> 0 \<Longrightarrow> unat (drop_bit 7 v) < unat v"
proof -
  assume "drop_bit 7 v \<noteq> 0"
  then have "unat v \<noteq> 0" by (auto simp: unat_eq_0)
  then have "unat v div 2 ^ 7 < unat v" by simp
  then show ?thesis by (simp add: drop_bit_eq_div unat_div)
qed

termination WriteVarInt
  by (relation "measure unat") (auto simp: drop_bit_7_less)

declare WriteVarInt.simps [simp del]

section \<open>The other two readers\<close>

text \<open>
  \<open>voicechat.readVarInt\<close> reads from a slice, refuses negative values and returns the number of
  bytes used. \<open>availability.readVarInt\<close> ranges over the slice and gives up at index 5.
\<close>

function voice_readVarInt_loop :: "nat \<Rightarrow> int32 \<Rightarrow> bytes \<Rightarrow> (int \<times> nat) result" where
  "voice_readVarInt_loop i v data =
     (if i < 5 then
        (if i \<ge> length data then Inl [ErrTruncatedPacket]
         else let b = data ! i; v' = v OR group b i in
           if b AND 0x80 = 0 then
             (if sint v' < 0 then Inl [ErrInvalidLength] else Inr (sint v', i + 1))
           else voice_readVarInt_loop (Suc i) v' data)
      else Inl [ErrInvalidLength])"
  by pat_completeness auto
termination
  by (relation "measure (\<lambda>(i, v, data). 5 - i)") auto

declare voice_readVarInt_loop.simps [simp del]

definition voice_readVarInt :: "bytes \<Rightarrow> (int \<times> nat) result" where
  "voice_readVarInt data = voice_readVarInt_loop 0 0 data"

fun avail_readVarInt_loop :: "nat \<Rightarrow> int32 \<Rightarrow> bytes \<Rightarrow> (int32 \<times> nat) result" where
  "avail_readVarInt_loop i v [] = Inl [Msg ''truncated varint'']"
| "avail_readVarInt_loop i v (b # bs) =
     (if i = 5 then Inl [Msg ''varint too long'']
      else if b AND 0x80 = 0 then Inr (v OR group b i, i + 1)
      else avail_readVarInt_loop (Suc i) (v OR group b i) bs)"

definition avail_readVarInt :: "bytes \<Rightarrow> (int32 \<times> nat) result" where
  "avail_readVarInt data = avail_readVarInt_loop 0 0 data"

section \<open>Lemmas\<close>

lemma ReadByte_Cons [simp]: "ReadByte (r\<lparr>rdata := b # s\<rparr>) = (Inr b, r\<lparr>rdata := s\<rparr>)"
  by (simp add: ReadByte_def ReadFull_def)

lemma ReadByte_Nil: "rdata r = [] \<Longrightarrow> ReadByte r = (Inl (rend r), r)"
  by (cases r) (simp add: ReadByte_def ReadFull_def)

lemma ReadByte_cases:
  "ReadByte r = (case rdata r of [] \<Rightarrow> (Inl (rend r), r) | b # s \<Rightarrow> (Inr b, r\<lparr>rdata := s\<rparr>))"
  by (cases r; cases "rdata r") (auto simp: ReadByte_def ReadFull_def)

lemma readVarIntFromReader_eq [simp]: "readVarIntFromReader r = ReadVarInt r"
  by (auto simp: readVarIntFromReader_def split: prod.splits sum.splits)

lemma mask_7: "(0x7f :: 'a::len word) = mask 7"
  by (simp add: mask_eq_exp_minus_1)

lemma bit_0x80: "bit (0x80 :: byte) n \<longleftrightarrow> n = 7"
proof -
  have "(0x80 :: byte) = 2 ^ 7" by simp
  then show ?thesis by (simp only: bit_exp_iff) auto
qed

lemma temp_bit: "bit (ucast ((v :: int32) AND 0x7f) :: byte) n \<longleftrightarrow> n < 7 \<and> bit v n"
  unfolding mask_7 by (auto simp: bit_simps)

lemma and_0x80_iff: "(b :: byte) AND 0x80 = 0 \<longleftrightarrow> \<not> bit b 7"
proof
  assume "b AND 0x80 = 0"
  then have "\<not> bit (b AND 0x80) 7" by simp
  then show "\<not> bit b 7" by (simp only: bit_and_iff bit_0x80) simp
next
  assume "\<not> bit b 7"
  then show "b AND 0x80 = 0" by (intro bit_word_eqI) (auto simp only: bit_and_iff bit_0x80 bit_0_eq bot_apply bot_bool_def)
qed

lemma bit_group: "bit (ucast ((b :: byte) AND 0x7f) :: int32) n \<longleftrightarrow> n < 7 \<and> bit b n"
  unfolding mask_7 by (auto simp: bit_simps)

lemma group_temp:
  "group (ucast (v AND 0x7f)) i = push_bit (7 * i) (v AND mask 7)"
  "group (ucast (v AND 0x7f) OR 0x80) i = push_bit (7 * i) (v AND mask 7)"
proof -
  have "(ucast ((ucast (v AND 0x7f) :: byte) AND 0x7f) :: int32) = v AND mask 7"
    by (rule bit_word_eqI) (auto simp only: bit_group temp_bit bit_and_iff bit_mask_iff possible_bit_word)
  then show "group (ucast (v AND 0x7f)) i = push_bit (7 * i) (v AND mask 7)"
    by (simp only: group_def)
  have "(ucast (((ucast (v AND 0x7f) :: byte) OR 0x80) AND 0x7f) :: int32) = v AND mask 7"
    by (rule bit_word_eqI) (auto simp only: bit_group temp_bit bit_or_iff bit_0x80 bit_and_iff bit_mask_iff possible_bit_word)
  then show "group (ucast (v AND 0x7f) OR 0x80) i = push_bit (7 * i) (v AND mask 7)"
    by (simp only: group_def)
qed

lemma temp_more:
  "((ucast ((v :: int32) AND 0x7f) :: byte) OR 0x80) AND 0x80 \<noteq> 0"
  "(ucast ((v :: int32) AND 0x7f) :: byte) AND 0x80 = 0"
  by (simp_all only: and_0x80_iff bit_or_iff temp_bit bit_0x80) simp_all

lemma low_high_bits: "(v AND mask 7) OR push_bit 7 (drop_bit 7 v) = (v :: int32)"
proof (rule bit_word_eqI)
  fix n :: nat
  assume "n < LENGTH(32)"
  then show "bit ((v AND mask 7) OR push_bit 7 (drop_bit 7 v)) n = bit v n"
    by (cases "n < 7") (auto simp: bit_simps)
qed

lemma low_bits_small: "drop_bit 7 v = 0 \<Longrightarrow> v AND mask 7 = (v :: int32)"
  using low_high_bits [of v] by simp

lemma small_bound: "i < 4 \<Longrightarrow> unat (v :: int32) < 2 ^ (32 - 7 * i) \<Longrightarrow> unat (drop_bit 7 v) < 2 ^ (32 - 7 * Suc i)"
proof -
  assume "i < 4" and v: "unat v < 2 ^ (32 - 7 * i)"
  then have "(2 :: nat) ^ (32 - 7 * i) = 2 ^ (32 - 7 * Suc i) * 2 ^ 7"
    by (simp only: power_add [symmetric]) simp
  with v have "unat v div 2 ^ 7 < 2 ^ (32 - 7 * Suc i)"
    by (simp add: less_mult_imp_div_less)
  then show ?thesis by (simp add: drop_bit_eq_div unat_div)
qed

lemma drop_bit_7_big: "drop_bit 7 (v :: int32) \<noteq> 0 \<Longrightarrow> 2 ^ 7 \<le> unat v"
proof (rule ccontr)
  assume n: "drop_bit 7 v \<noteq> 0" and "\<not> 2 ^ 7 \<le> unat v"
  then have "unat (drop_bit 7 v) = 0" by (simp add: drop_bit_eq_div unat_div)
  with n show False by (simp add: unat_eq_0)
qed

lemma ReadVarInt_loop_Write:
  "i < 5 \<Longrightarrow> unat v < 2 ^ (32 - 7 * i) \<Longrightarrow>
     ReadVarInt_loop i acc raw (r\<lparr>rdata := WriteVarInt v @ s\<rparr>) =
       (Inr (acc OR push_bit (7 * i) v), raw @ WriteVarInt v, r\<lparr>rdata := s\<rparr>)"
proof (induction v arbitrary: i acc raw rule: WriteVarInt.induct)
  case (1 v)
  show ?case
  proof (cases "drop_bit 7 v = 0")
    case True
    then show ?thesis
      using "1.prems"
      by (simp add: WriteVarInt.simps [of v] ReadVarInt_loop.simps [of i] MaxVarIntBytes_def
          group_temp temp_more low_bits_small)
  next
    case False
    have "i < 4"
    proof (rule ccontr)
      assume "\<not> i < 4"
      with "1.prems" have "unat v < 2 ^ 4" by (simp add: less_Suc_eq numeral_eq_Suc)
      with drop_bit_7_big [OF False] show False by simp
    qed
    have split: "push_bit (7 * i) (v AND mask 7) OR push_bit (7 * Suc i) (drop_bit 7 v) = push_bit (7 * i) v"
    proof -
      have "push_bit (7 * Suc i) (drop_bit 7 v) = push_bit (7 * i) (push_bit 7 (drop_bit 7 v))"
        by (simp add: add.commute)
      then show ?thesis by (metis low_high_bits push_bit_or)
    qed
    have "ReadVarInt_loop (Suc i) (acc OR push_bit (7 * i) (v AND mask 7))
        (raw @ [ucast (v AND 0x7f) OR 0x80]) (r\<lparr>rdata := WriteVarInt (drop_bit 7 v) @ s\<rparr>) =
      (Inr ((acc OR push_bit (7 * i) (v AND mask 7)) OR push_bit (7 * Suc i) (drop_bit 7 v)),
       (raw @ [ucast (v AND 0x7f) OR 0x80]) @ WriteVarInt (drop_bit 7 v), r\<lparr>rdata := s\<rparr>)"
      using \<open>i < 4\<close> False small_bound [OF \<open>i < 4\<close> "1.prems"(2)]
      by (intro "1.IH" [OF refl refl]) simp_all
    with False \<open>i < 4\<close> split show ?thesis
      by (simp add: WriteVarInt.simps [of v] ReadVarInt_loop.simps [of i] MaxVarIntBytes_def
          group_temp temp_more Let_def or.assoc)
  qed
qed

lemma unat_int32_less: "unat (v :: int32) < 2 ^ 32"
  using unsigned_less [of v] by simp

lemma ReadVarInt_Write:
  "ReadVarInt (r\<lparr>rdata := WriteVarInt v @ s\<rparr>) = (Inr v, WriteVarInt v, r\<lparr>rdata := s\<rparr>)"
  using ReadVarInt_loop_Write [where i = 0 and v = v and acc = 0 and raw = "[]" and r = r and s = s] unat_int32_less [of v]
  by (simp add: ReadVarInt_def)

lemma WriteVarInt_length_le: "unat v < 2 ^ (7 * Suc k) \<Longrightarrow> length (WriteVarInt v) \<le> Suc k"
proof (induction v arbitrary: k rule: WriteVarInt.induct)
  case (1 v)
  show ?case
  proof (cases "drop_bit 7 v = 0")
    case True
    then show ?thesis by (simp add: WriteVarInt.simps [of v])
  next
    case False
    with "1.prems" drop_bit_7_big [OF False] obtain j where k: "k = Suc j" by (cases k) auto
    have "unat (drop_bit 7 v) < 2 ^ (7 * Suc j)"
      using "1.prems" k by (simp add: drop_bit_eq_div unat_div less_mult_imp_div_less power_add)
    with "1.IH" False have "length (WriteVarInt (drop_bit 7 v)) \<le> Suc j" by simp
    with False k show ?thesis by (simp add: WriteVarInt.simps [of v])
  qed
qed

lemma WriteVarInt_length: "1 \<le> length (WriteVarInt v)" "length (WriteVarInt v) \<le> MaxVarIntBytes"
proof -
  show "1 \<le> length (WriteVarInt v)" by (simp add: WriteVarInt.simps [of v] Let_def)
  have "unat v < 2 ^ (7 * Suc 4)" using unat_int32_less [of v] by simp
  then show "length (WriteVarInt v) \<le> MaxVarIntBytes"
    using WriteVarInt_length_le [of v 4] by (simp add: MaxVarIntBytes_def)
qed

lemma WriteVarInt_not_Nil [simp]: "WriteVarInt v \<noteq> []"
  using WriteVarInt_length(1) [of v] by auto

text \<open>A read consumes a prefix of the stream, of one to five bytes, and leaves the rest.\<close>

lemma ReadVarInt_loop_consumes:
  "ReadVarInt_loop i v raw r = (Inr w, raw', r') \<Longrightarrow>
     \<exists>p. raw' = raw @ p \<and> rdata r = p @ rdata r' \<and> p \<noteq> [] \<and> i + length p \<le> MaxVarIntBytes \<and>
         (\<forall>q s. ReadVarInt_loop i v raw (q\<lparr>rdata := p @ s\<rparr>) = (Inr w, raw', q\<lparr>rdata := s\<rparr>))"
proof (induction i v raw r rule: ReadVarInt_loop.induct)
  case (1 i v raw r)
  from "1.prems" have i: "i < MaxVarIntBytes"
    by (rule contrapos_pp) (simp add: ReadVarInt_loop.simps [of i])
  with "1.prems" obtain b s where data: "rdata r = b # s"
    by (cases "rdata r") (auto simp: ReadVarInt_loop.simps [of i] ReadByte_cases)
  have RB: "ReadByte r = (Inr b, r\<lparr>rdata := s\<rparr>)" by (simp add: ReadByte_cases data)
  have step: "ReadVarInt_loop i v raw (q\<lparr>rdata := b # t\<rparr>) =
      (if b AND 0x80 = 0 then (Inr (v OR group b i), raw @ [b], q\<lparr>rdata := t\<rparr>)
       else ReadVarInt_loop (Suc i) (v OR group b i) (raw @ [b]) (q\<lparr>rdata := t\<rparr>))" for q t
    using i by (simp add: ReadVarInt_loop.simps [of i])
  have "r\<lparr>rdata := b # s\<rparr> = r" using data by simp
  note first = step [where q = r and t = s, unfolded this]
  show ?case
  proof (cases "b AND 0x80 = 0")
    case True
    with "1.prems" first have "w = v OR group b i \<and> raw' = raw @ [b] \<and> r' = r\<lparr>rdata := s\<rparr>" by auto
    with i data step True show ?thesis by (intro exI [of _ "[b]"]) simp
  next
    case False
    with "1.prems" first have "ReadVarInt_loop (Suc i) (v OR group b i) (raw @ [b]) (r\<lparr>rdata := s\<rparr>) = (Inr w, raw', r')"
      by simp
    from "1.IH" [OF i RB [symmetric] refl False this] obtain p where
      "raw' = (raw @ [b]) @ p" "s = p @ rdata r'" "Suc i + length p \<le> MaxVarIntBytes"
      "\<And>q t. ReadVarInt_loop (Suc i) (v OR group b i) (raw @ [b]) (q\<lparr>rdata := p @ t\<rparr>) = (Inr w, raw', q\<lparr>rdata := t\<rparr>)"
      by auto
    with data step False show ?thesis by (intro exI [of _ "b # p"]) simp
  qed
qed

lemma ReadVarInt_consumes:
  assumes "ReadVarInt r = (Inr v, raw, r')"
  shows "rdata r = raw @ rdata r'" and "raw \<noteq> []" and "length raw \<le> MaxVarIntBytes"
    and "ReadVarInt (q\<lparr>rdata := raw @ s\<rparr>) = (Inr v, raw, q\<lparr>rdata := s\<rparr>)"
  using ReadVarInt_loop_consumes assms unfolding ReadVarInt_def by fastforce+

interpretation varint: raw_parser ReadVarInt
  by unfold_locales (simp add: ReadVarInt_consumes)

section \<open>Agreement of the three readers\<close>

lemma avail_loop_agrees:
  "i \<le> 5 \<Longrightarrow>
   (case avail_readVarInt_loop i v data of
      Inr (w, n) \<Rightarrow> \<exists>raw' r'. ReadVarInt_loop i v raw (bytes_NewReader data) = (Inr w, raw @ raw', r') \<and> n = i + length raw'
    | Inl _ \<Rightarrow> \<exists>e raw' r'. ReadVarInt_loop i v raw (bytes_NewReader data) = (Inl e, raw', r'))"
proof (induction i v data arbitrary: raw rule: avail_readVarInt_loop.induct)
  case (1 i v)
  then show ?case
    by (simp add: ReadVarInt_loop.simps [of i] bytes_NewReader_def ReadByte_cases)
next
  case (2 i v b bs)
  show ?case
  proof (cases "i = 5")
    case True
    then show ?thesis by (simp add: ReadVarInt_loop.simps [of 5] MaxVarIntBytes_def)
  next
    case False
    with "2.prems" have i: "i < 5" by simp
    show ?thesis
    proof (cases "b AND 0x80 = 0")
      case True
      with i show ?thesis
        by (simp add: ReadVarInt_loop.simps [of i] MaxVarIntBytes_def bytes_NewReader_def ReadByte_cases)
    next
      case more: False
      have "ReadVarInt_loop i v raw (bytes_NewReader (b # bs)) =
          ReadVarInt_loop (Suc i) (v OR group b i) (raw @ [b]) (bytes_NewReader bs)"
        using i more by (simp add: ReadVarInt_loop.simps [of i] MaxVarIntBytes_def bytes_NewReader_def ReadByte_cases)
      moreover have "avail_readVarInt_loop i v (b # bs) = avail_readVarInt_loop (Suc i) (v OR group b i) bs"
        using i more by simp
      ultimately show ?thesis
        using "2.IH" [of "raw @ [b]"] i more by (fastforce split: sum.splits prod.splits)
    qed
  qed
qed

lemma voice_loop_agrees:
  "i \<le> 5 \<Longrightarrow> length pre = i \<Longrightarrow>
   voice_readVarInt_loop i v (pre @ data) =
     (case avail_readVarInt_loop i v data of
        Inr (w, n) \<Rightarrow> if sint w < 0 then Inl [ErrInvalidLength] else Inr (sint w, n)
      | Inl _ \<Rightarrow> if i + length data < 5 then Inl [ErrTruncatedPacket] else Inl [ErrInvalidLength])"
proof (induction i v data arbitrary: pre rule: avail_readVarInt_loop.induct)
  case (1 i v)
  then show ?case by (simp add: voice_readVarInt_loop.simps [of i])
next
  case (2 i v b bs)
  show ?case
  proof (cases "i = 5")
    case True
    then show ?thesis by (simp add: voice_readVarInt_loop.simps [of 5])
  next
    case False
    with "2.prems" have i: "i < 5" by simp
    have nth: "(pre @ b # bs) ! i = b" using "2.prems" by (simp add: nth_append)
    show ?thesis
    proof (cases "b AND 0x80 = 0")
      case True
      with i nth "2.prems" show ?thesis by (simp add: voice_readVarInt_loop.simps [of i] Let_def)
    next
      case more: False
      with i nth "2.prems" have "voice_readVarInt_loop i v (pre @ b # bs) =
          voice_readVarInt_loop (Suc i) (v OR group b i) ((pre @ [b]) @ bs)"
        by (simp add: voice_readVarInt_loop.simps [of i] Let_def)
      with "2.IH" [of "pre @ [b]"] i more "2.prems" show ?thesis by simp
    qed
  qed
qed

lemma avail_readVarInt_agrees:
  "(\<exists>r'. ReadVarInt (bytes_NewReader data) = (Inr v, take n data, r') \<and> n \<le> length data)
     \<longleftrightarrow> avail_readVarInt data = Inr (v, n)"
proof
  assume "avail_readVarInt data = Inr (v, n)"
  with avail_loop_agrees [where i = 0 and v = 0 and data = data and raw = "[]"] obtain raw r' where
    R: "ReadVarInt (bytes_NewReader data) = (Inr v, raw, r')" "n = length raw"
    by (auto simp: avail_readVarInt_def ReadVarInt_def)
  from ReadVarInt_consumes(1) [OF R(1)] have "data = raw @ rdata r'" by (simp add: bytes_NewReader_def)
  with R show "\<exists>r'. ReadVarInt (bytes_NewReader data) = (Inr v, take n data, r') \<and> n \<le> length data" by auto
next
  assume "\<exists>r'. ReadVarInt (bytes_NewReader data) = (Inr v, take n data, r') \<and> n \<le> length data"
  then obtain r' where R: "ReadVarInt (bytes_NewReader data) = (Inr v, take n data, r')" "n \<le> length data" by blast
  with avail_loop_agrees [where i = 0 and v = 0 and data = data and raw = "[]"] show "avail_readVarInt data = Inr (v, n)"
    by (auto simp: avail_readVarInt_def ReadVarInt_def split: sum.splits prod.splits)
qed

lemma voice_readVarInt_agrees:
  "voice_readVarInt data =
     (case avail_readVarInt data of
        Inr (w, n) \<Rightarrow> if sint w < 0 then Inl [ErrInvalidLength] else Inr (sint w, n)
      | Inl _ \<Rightarrow> if length data < 5 then Inl [ErrTruncatedPacket] else Inl [ErrInvalidLength])"
  using voice_loop_agrees [where i = 0 and pre = "[]" and v = 0 and data = data] by (simp add: voice_readVarInt_def avail_readVarInt_def)

lemma avail_readVarInt_Write [simp]: "avail_readVarInt (WriteVarInt v @ s) = Inr (v, length (WriteVarInt v))"
proof -
  have "ReadVarInt (bytes_NewReader (WriteVarInt v @ s)) = (Inr v, WriteVarInt v, bytes_NewReader s)"
    using ReadVarInt_Write [where r = "bytes_NewReader []" and v = v and s = s] by (simp add: bytes_NewReader_def)
  then show ?thesis
    by (subst avail_readVarInt_agrees [symmetric]) (auto intro: exI [of _ "bytes_NewReader s"])
qed

lemma voice_readVarInt_Write:
  "0 \<le> sint v \<Longrightarrow> voice_readVarInt (WriteVarInt v @ s) = Inr (sint v, length (WriteVarInt v))"
  by (simp add: voice_readVarInt_agrees)

section \<open>Properties\<close>

text \<open>Every \<open>int32\<close> is written in one to five bytes, and reading them back, with anything after
  them in the stream, gives the value, exactly these bytes as the raw form, and leaves the rest.\<close>

theorem varint_round_trip:
  "ReadVarInt (r\<lparr>rdata := WriteVarInt v @ s\<rparr>) = (Inr v, WriteVarInt v, r\<lparr>rdata := s\<rparr>) \<and>
   1 \<le> length (WriteVarInt v) \<and> length (WriteVarInt v) \<le> MaxVarIntBytes"
  using ReadVarInt_Write WriteVarInt_length by auto

text \<open>The three decoders of the repository agree. On any bytes \<open>availability.readVarInt\<close> answers
  a value and a width exactly when \<open>mcproto.ReadVarInt\<close> reads that value from that many bytes, and
  \<open>voicechat.readVarInt\<close> answers the same value and width unless it is negative.\<close>

theorem varint_readers_agree:
  "((\<exists>r'. ReadVarInt (bytes_NewReader data) = (Inr v, take n data, r') \<and> n \<le> length data)
      \<longleftrightarrow> avail_readVarInt data = Inr (v, n)) \<and>
   (voice_readVarInt data = Inr (i, n) \<longleftrightarrow>
      0 \<le> i \<and> (\<exists>w. sint w = i \<and> avail_readVarInt data = Inr (w, n)))"
proof (intro conjI)
  show "(\<exists>r'. ReadVarInt (bytes_NewReader data) = (Inr v, take n data, r') \<and> n \<le> length data)
      \<longleftrightarrow> avail_readVarInt data = Inr (v, n)"
    by (rule avail_readVarInt_agrees)
  show "voice_readVarInt data = Inr (i, n) \<longleftrightarrow>
      0 \<le> i \<and> (\<exists>w. sint w = i \<and> avail_readVarInt data = Inr (w, n))"
    by (auto simp: voice_readVarInt_agrees split: sum.split if_splits)
qed

end
