(* ===== verification/Mcproto.thy ===== *)
theory Mcproto
  imports Varint Hostaddr
begin

text \<open>
  The Minecraft packets of \<open>internal/mcproto\<close>: the handshake (\<open>handshake.go\<close>), the login start
  and login disconnect packets (\<open>login.go\<close>) and the status packets (\<open>status.go\<close>), with the part of
  \<open>encoding/json\<close> that \<open>json.Marshal\<close> of the status and chat structures uses.
\<close>

section \<open>Limits and the handshake record\<close>

definition HandshakePacketID :: int32 where "HandshakePacketID = 0x00"
definition NextStateStatus :: int32 where "NextStateStatus = 1"
definition NextStateLogin :: int32 where "NextStateLogin = 2"
definition NextStateTransfer :: int32 where "NextStateTransfer = 3"

lemmas next_states = NextStateStatus_def NextStateLogin_def NextStateTransfer_def

record Limits =
  MaxPacketLength :: int32
  MaxServerAddressBytes :: int32

definition DefaultLimits :: Limits where
  "DefaultLimits = \<lparr>MaxPacketLength = 2048, MaxServerAddressBytes = 255\<rparr>"

record Handshake =
  ProtocolVersion :: int32
  ServerAddress :: string
  ServerPort :: "16 word"
  NextState :: int32

definition RouteAddress :: "Handshake \<Rightarrow> string" where
  "RouteAddress h = (case Normalize (ServerAddress h) of Inl _ \<Rightarrow> '''' | Inr n \<Rightarrow> n)"

section \<open>Fields\<close>

definition readString :: "reader \<Rightarrow> int32 \<Rightarrow> string result \<times> reader" where
  "readString r maxBytes =
     (case readVarIntFromReader r of
        (Inl e, _, r1) \<Rightarrow> (Inl e, r1)
      | (Inr len, _, r1) \<Rightarrow>
          if sint len < 0 \<or> sint len > sint maxBytes then (Inl [Msg ''length exceeds limit''], r1)
          else (case ReadFull r1 (nat (sint len)) of
                  (Inl e, r2) \<Rightarrow> (Inl e, r2)
                | (Inr buf, r2) \<Rightarrow>
                    if utf8_Valid buf then (Inr (string_of buf), r2)
                    else (Inl [Msg ''not valid utf-8''], r2)))"

definition Uint16 :: "bytes \<Rightarrow> 16 word" where
  \<comment> \<open>\<open>binary.BigEndian.Uint16\<close>\<close>
  "Uint16 b = push_bit 8 (ucast (b ! 0)) OR ucast (b ! 1)"

definition PutUint16 :: "16 word \<Rightarrow> bytes" where
  "PutUint16 v = [ucast (drop_bit 8 v), ucast v]"

definition EncodeString :: "string \<Rightarrow> bytes" where
  "EncodeString value = (let raw = bytes_of value in WriteVarInt (of_nat (length raw)) @ raw)"

definition PutUint64 :: "64 word \<Rightarrow> bytes" where
  "PutUint64 v = map (\<lambda>i. ucast (drop_bit (8 * (7 - i)) v)) [0..<8]"

definition EncodeLong :: "64 word \<Rightarrow> bytes" where
  "EncodeLong value = PutUint64 value"

section \<open>The handshake packet\<close>

text \<open>
  \<open>%w: ...: %w\<close> wraps both errors, so the chain is the malformed-handshake sentinel followed by the
  chain of the cause.
\<close>

definition ParseHandshakePayload_tail :: "int32 \<Rightarrow> string \<Rightarrow> reader \<Rightarrow> Handshake result" where
  \<comment> \<open>from the port on\<close>
  "ParseHandshakePayload_tail protocolVersion serverAddress r =
     (case ReadFull r 2 of
        (Inl e, _) \<Rightarrow> Inl (ErrMalformedHandshake # e)
      | (Inr portRaw, r1) \<Rightarrow>
          (case readVarIntFromReader r1 of
             (Inl e, _, _) \<Rightarrow> Inl (ErrMalformedHandshake # e)
           | (Inr nextState, _, r2) \<Rightarrow>
               if nextState \<noteq> NextStateStatus \<and> nextState \<noteq> NextStateLogin \<and> nextState \<noteq> NextStateTransfer
               then Inl [ErrUnsupportedNextState]
               else if rdata r2 \<noteq> [] then Inl [ErrMalformedHandshake]
               else Inr \<lparr>ProtocolVersion = protocolVersion, ServerAddress = serverAddress,
                         ServerPort = Uint16 portRaw, NextState = nextState\<rparr>))"

definition ParseHandshakePayload :: "bytes \<Rightarrow> Limits \<Rightarrow> Handshake result" where
  "ParseHandshakePayload payload limits =
     (let maxAddr = (if sint (MaxServerAddressBytes limits) \<le> 0
                     then MaxServerAddressBytes DefaultLimits else MaxServerAddressBytes limits) in
      case readVarIntFromReader (bytes_NewReader payload) of
        (Inl e, _, _) \<Rightarrow> Inl (ErrMalformedHandshake # e)
      | (Inr packetID, _, r1) \<Rightarrow>
          if packetID \<noteq> HandshakePacketID then Inl [ErrMalformedHandshake]
          else
            (case readVarIntFromReader r1 of
               (Inl e, _, _) \<Rightarrow> Inl (ErrMalformedHandshake # e)
             | (Inr protocolVersion, _, r2) \<Rightarrow>
                 (case readString r2 maxAddr of
                    (Inl e, _) \<Rightarrow> Inl (ErrMalformedHandshake # e)
                  | (Inr serverAddress, r3) \<Rightarrow>
                      if TrimSpace serverAddress = '''' then Inl [ErrMalformedHandshake]
                      else (case Normalize serverAddress of
                              Inl e \<Rightarrow> Inl (ErrMalformedHandshake # e)
                            | Inr _ \<Rightarrow> ParseHandshakePayload_tail protocolVersion serverAddress r3))))"

text \<open>
  The second component is the returned raw bytes; on a short read it is the length bytes and the
  payload buffer as far as it was filled, the rest still zero.
\<close>

definition ReadHandshake :: "reader \<Rightarrow> Limits \<Rightarrow> Handshake result \<times> bytes \<times> reader" where
  "ReadHandshake r limits0 =
     (let limits1 = (if sint (MaxPacketLength limits0) \<le> 0
                     then limits0\<lparr>MaxPacketLength := MaxPacketLength DefaultLimits\<rparr> else limits0);
          limits = (if sint (MaxServerAddressBytes limits1) \<le> 0
                    then limits1\<lparr>MaxServerAddressBytes := MaxServerAddressBytes DefaultLimits\<rparr> else limits1) in
      case readVarIntFromReader r of
        (Inl e, lengthRaw, r1) \<Rightarrow> (Inl e, lengthRaw, r1)
      | (Inr packetLength, lengthRaw, r1) \<Rightarrow>
          if sint packetLength \<le> 0 \<or> sint packetLength > sint (MaxPacketLength limits)
          then (Inl [ErrPacketTooLarge], lengthRaw, r1)
          else let n = nat (sint packetLength) in
            (case ReadFull r1 n of
               (Inl e, r2) \<Rightarrow> (Inl e, lengthRaw @ rdata r1 @ replicate (n - length (rdata r1)) 0, r2)
             | (Inr payload, r2) \<Rightarrow> (ParseHandshakePayload payload limits, lengthRaw @ payload, r2)))"

section \<open>Packets\<close>

definition ReadPacket :: "reader \<Rightarrow> int32 \<Rightarrow> (int32 \<times> bytes) result \<times> reader" where
  "ReadPacket r maxPacketLength0 =
     (let maxPacketLength = (if sint maxPacketLength0 \<le> 0 then MaxPacketLength DefaultLimits else maxPacketLength0) in
      case readVarIntFromReader r of
        (Inl e, _, r1) \<Rightarrow> (Inl e, r1)
      | (Inr packetLength, _, r1) \<Rightarrow>
          if sint packetLength \<le> 0 \<or> sint packetLength > sint maxPacketLength
          then (Inl [ErrPacketTooLarge], r1)
          else
            (case ReadFull r1 (nat (sint packetLength)) of
               (Inl e, r2) \<Rightarrow> (Inl e, r2)
             | (Inr payload, r2) \<Rightarrow>
                 (case readVarIntFromReader (bytes_NewReader payload) of
                    (Inl e, _, _) \<Rightarrow> (Inl e, r2)
                  | (Inr packetID, _, reader) \<Rightarrow>
                      (Inr (packetID, drop (length payload - length (rdata reader)) payload), r2))))"

definition BuildPacket :: "int32 \<Rightarrow> bytes list \<Rightarrow> bytes" where
  "BuildPacket packetID flds =
     (let payload = foldl (\<lambda>acc field. acc @ field) (WriteVarInt packetID) flds
      in WriteVarInt (of_nat (length payload)) @ payload)"

section \<open>Status and login packets\<close>

definition StatusRequestPacketID :: int32 where "StatusRequestPacketID = 0x00"
definition StatusResponsePacketID :: int32 where "StatusResponsePacketID = 0x00"
definition StatusPingPacketID :: int32 where "StatusPingPacketID = 0x01"
definition StatusPongPacketID :: int32 where "StatusPongPacketID = 0x01"

record StatusVersion =
  svName :: string
  svProtocol :: int

record StatusPlayers =
  spMax :: int
  spOnline :: int

record StatusChatComponent =
  ccText :: string

record StatusResponse =
  srVersion :: StatusVersion
  srPlayers :: StatusPlayers
  srDescription :: StatusChatComponent

text \<open>
  \<open>json.Marshal\<close>: a string is quoted byte by byte (\<open>appendString\<close> with HTML escaping on), an
  invalid UTF-8 byte becomes the escape of U+FFFD and the two line separators U+2028 and U+2029 are escaped.
  \<open>utf8_len\<close> is the width of the rune at the head of a string, 0 when it is not valid there.
\<close>

definition utf8_len :: "bytes \<Rightarrow> nat" where
  "utf8_len s =
     (if s \<noteq> [] \<and> s ! 0 < 0x80 then 1
      else if 2 \<le> length s \<and> s ! 0 \<ge> 0xC2 \<and> s ! 0 \<le> 0xDF \<and> utf8_Valid (take 2 s) then 2
      else if 3 \<le> length s \<and> s ! 0 \<ge> 0xE0 \<and> s ! 0 \<le> 0xEF \<and> utf8_Valid (take 3 s) then 3
      else if 4 \<le> length s \<and> s ! 0 \<ge> 0xF0 \<and> utf8_Valid (take 4 s) then 4
      else 0)"

definition json_byte :: "byte \<Rightarrow> bytes" where
  "json_byte b =
     (if b = 0x5C \<or> b = 0x22 then [0x5C, b]
      else if b = 0x08 then bytes_of (CHR 0x5C # ''b'')
      else if b = 0x0C then bytes_of (CHR 0x5C # ''f'')
      else if b = 0x0A then bytes_of (CHR 0x5C # ''n'')
      else if b = 0x0D then bytes_of (CHR 0x5C # ''r'')
      else if b = 0x09 then bytes_of (CHR 0x5C # ''t'')
      else if b < 0x20 \<or> b = 0x3C \<or> b = 0x3E \<or> b = 0x26 then
        bytes_of (CHR 0x5C # ''u00'') @ bytes_of (hex_Encode [b])
      else [b])"

function json_body :: "bytes \<Rightarrow> bytes" where
  "json_body s =
     (if s = [] then []
      else if hd s < 0x80 then json_byte (hd s) @ json_body (tl s)
      else if utf8_len s = 0 then bytes_of (CHR 0x5C # ''ufffd'') @ json_body (tl s)
      else if take 3 s = [0xE2, 0x80, 0xA8] then bytes_of (CHR 0x5C # ''u2028'') @ json_body (drop 3 s)
      else if take 3 s = [0xE2, 0x80, 0xA9] then bytes_of (CHR 0x5C # ''u2029'') @ json_body (drop 3 s)
      else take (utf8_len s) s @ json_body (drop (utf8_len s) s))"
  by pat_completeness auto
termination
  by (relation "measure length") auto

declare json_body.simps [simp del]

definition json_string :: "string \<Rightarrow> bytes" where
  "json_string s = [0x22] @ json_body (bytes_of s) @ [0x22]"

definition json_int :: "int \<Rightarrow> bytes" where
  "json_int i = bytes_of (if i < 0 then CHR 0x2D # Itoa (nat (- i)) else Itoa (nat i))"

definition json_key :: "string \<Rightarrow> bytes" where
  "json_key k = json_string k @ bytes_of '':''"

definition Marshal_StatusChatComponent :: "StatusChatComponent \<Rightarrow> bytes" where
  "Marshal_StatusChatComponent c = bytes_of ''{'' @ json_key ''text'' @ json_string (ccText c) @ bytes_of ''}''"

definition Marshal_StatusVersion :: "StatusVersion \<Rightarrow> bytes" where
  "Marshal_StatusVersion v =
     bytes_of ''{'' @ json_key ''name'' @ json_string (svName v) @ bytes_of '','' @
     json_key ''protocol'' @ json_int (svProtocol v) @ bytes_of ''}''"

definition Marshal_StatusPlayers :: "StatusPlayers \<Rightarrow> bytes" where
  "Marshal_StatusPlayers p =
     bytes_of ''{'' @ json_key ''max'' @ json_int (spMax p) @ bytes_of '','' @
     json_key ''online'' @ json_int (spOnline p) @ bytes_of ''}''"

definition Marshal_StatusResponse :: "StatusResponse \<Rightarrow> bytes" where
  "Marshal_StatusResponse s =
     bytes_of ''{'' @ json_key ''version'' @ Marshal_StatusVersion (srVersion s) @ bytes_of '','' @
     json_key ''players'' @ Marshal_StatusPlayers (srPlayers s) @ bytes_of '','' @
     json_key ''description'' @ Marshal_StatusChatComponent (srDescription s) @ bytes_of ''}''"

definition BuildStatusResponsePacket :: "StatusResponse \<Rightarrow> bytes" where
  \<comment> \<open>\<open>json.Marshal\<close> of this structure does not fail\<close>
  "BuildStatusResponsePacket status =
     (let raw = Marshal_StatusResponse status;
          field = WriteVarInt (of_nat (length raw)) @ raw
      in BuildPacket StatusResponsePacketID [field])"

definition BuildStatusPongPacket :: "bytes \<Rightarrow> bytes" where
  "BuildStatusPongPacket payload = BuildPacket StatusPongPacketID [payload]"

definition ProtocolMinecraft1211 :: int32 where "ProtocolMinecraft1211 = 767"
definition LoginStartPacketID :: int32 where "LoginStartPacketID = 0x00"
definition LoginDisconnectPacketID :: int32 where "LoginDisconnectPacketID = 0x00"
definition loginUsernameMaxBytes :: int32 where "loginUsernameMaxBytes = 16"
definition loginUUIDBytes :: nat where "loginUUIDBytes = 16"

definition ValidateLoginStartPayload :: "int32 \<Rightarrow> bytes \<Rightarrow> error option" where
  "ValidateLoginStartPayload protocolVersion payload =
     (if protocolVersion \<noteq> ProtocolMinecraft1211 then Some [ErrUnsupportedLoginProtocol]
      else (case readString (bytes_NewReader payload) loginUsernameMaxBytes of
              (Inl e, _) \<Rightarrow> Some (ErrMalformedLoginStart # e)
            | (Inr username, reader) \<Rightarrow>
                if TrimSpace username = '''' then Some [ErrMalformedLoginStart]
                else if length (rdata reader) \<noteq> loginUUIDBytes then Some [ErrMalformedLoginStart]
                else None))"

definition LoginDisconnectPacketIDForProtocol :: "int32 \<Rightarrow> int32 result" where
  "LoginDisconnectPacketIDForProtocol protocolVersion =
     (if protocolVersion \<noteq> ProtocolMinecraft1211 then Inl [ErrUnsupportedLoginProtocol]
      else Inr LoginDisconnectPacketID)"

definition BuildLoginDisconnectPacket :: "int32 \<Rightarrow> string \<Rightarrow> bytes result" where
  "BuildLoginDisconnectPacket protocolVersion message =
     (case LoginDisconnectPacketIDForProtocol protocolVersion of
        Inl e \<Rightarrow> Inl e
      | Inr packetID \<Rightarrow>
          (let raw = Marshal_StatusChatComponent \<lparr>ccText = message\<rparr>;
               field = WriteVarInt (of_nat (length raw)) @ raw
           in Inr (BuildPacket packetID [field])))"

section \<open>Streams\<close>

lemma stream_parser_ReadVarInt: "stream_parser (drop_raw ReadVarInt)"
  by unfold_locales

lemma readString_then:
  "(\<lambda>r. readString r m) =
     then_parse (drop_raw ReadVarInt) (\<lambda>len.
       if sint len < 0 \<or> sint len > sint m then (\<lambda>r. (Inl [Msg ''length exceeds limit''], r))
       else then_parse (\<lambda>r. ReadFull r (nat (sint len)))
              (\<lambda>buf r. (if utf8_Valid buf then Inr (string_of buf) else Inl [Msg ''not valid utf-8''], r)))"
  by (auto simp: readString_def then_parse_def drop_raw_def fun_eq_iff split: prod.split sum.split)

interpretation str: stream_parser "\<lambda>r. readString r m" for m
  unfolding readString_then
  by (intro stream_parser_then stream_parser_ReadVarInt)
     (auto intro!: stream_parser_then stream_parser_ReadFull stream_parser_result)

lemma readString_Inr:
  assumes "readString r m = (Inr s, r')"
  shows "utf8_Valid (bytes_of s)" and "int (length s) \<le> sint m"
  using assms
  by (auto simp: readString_def ReadFull_Inr split: prod.splits sum.splits if_splits)

lemma sint_of_nat_int32: "n < 2 ^ 31 \<Longrightarrow> sint (of_nat n :: int32) = int n"
  by (simp add: signed_of_nat signed_take_bit_int_eq_self)

lemma readString_Encode:
  assumes "utf8_Valid (bytes_of s)" and "int (length s) \<le> sint m"
  shows "readString (r\<lparr>rdata := EncodeString s @ t\<rparr>) m = (Inr s, r\<lparr>rdata := t\<rparr>)"
proof -
  have "sint m < 2 ^ 31" using sint_less [of m] by simp
  with assms(2) have n: "sint (of_nat (length s) :: int32) = int (length s)"
    by (intro sint_of_nat_int32) simp
  have "ReadVarInt (r\<lparr>rdata := EncodeString s @ t\<rparr>) =
      (Inr (of_nat (length s)), WriteVarInt (of_nat (length s)), r\<lparr>rdata := bytes_of s @ t\<rparr>)"
    using ReadVarInt_Write [where r = r and v = "of_nat (length s)" and s = "bytes_of s @ t"]
    by (simp add: EncodeString_def Let_def)
  with n assms show ?thesis by (simp add: readString_def ReadFull_append)
qed

section \<open>The handshake packet\<close>

text \<open>
  What the fields of an accepted handshake satisfy, and the bytes of a handshake as a client writes
  them.
\<close>

definition effective :: "Limits \<Rightarrow> Limits" where
  \<comment> \<open>the limits after the defaults of \<open>ReadHandshake\<close>\<close>
  "effective l =
     \<lparr>MaxPacketLength = (if sint (MaxPacketLength l) \<le> 0 then 2048 else MaxPacketLength l),
      MaxServerAddressBytes = (if sint (MaxServerAddressBytes l) \<le> 0 then 255 else MaxServerAddressBytes l)\<rparr>"

definition handshake_wf :: "Limits \<Rightarrow> Handshake \<Rightarrow> bool" where
  "handshake_wf l h \<longleftrightarrow>
     utf8_Valid (bytes_of (ServerAddress h)) \<and>
     int (length (ServerAddress h)) \<le> sint (MaxServerAddressBytes (effective l)) \<and>
     TrimSpace (ServerAddress h) \<noteq> '''' \<and> is_ok (Normalize (ServerAddress h)) \<and>
     NextState h \<in> {1, 2, 3}"

definition handshake_fields :: "Handshake \<Rightarrow> bytes" where
  "handshake_fields h =
     WriteVarInt (ProtocolVersion h) @ EncodeString (ServerAddress h) @ PutUint16 (ServerPort h) @
     WriteVarInt (NextState h)"

lemma Uint16_Put [simp]: "Uint16 (PutUint16 v) = v"
proof (rule bit_word_eqI)
  fix n :: nat
  assume "n < LENGTH(16)"
  then show "bit (Uint16 (PutUint16 v)) n = bit v n"
    by (cases "n < 8") (auto simp: Uint16_def PutUint16_def bit_simps)
qed

lemma PutUint16_length [simp]: "length (PutUint16 v) = 2"
  by (simp add: PutUint16_def)

lemma max_address_effective:
  "(if sint (MaxServerAddressBytes l) \<le> 0 then MaxServerAddressBytes DefaultLimits else MaxServerAddressBytes l)
     = MaxServerAddressBytes (effective l)"
  by (simp add: effective_def DefaultLimits_def)

lemma ParseHandshakePayload_Inr:
  assumes "ParseHandshakePayload p l = Inr h"
  shows "handshake_wf l h"
proof -
  from assms obtain pv sa r3 r2 where
    s: "readString r2 (MaxServerAddressBytes (effective l)) = (Inr sa, r3)" and
    n: "TrimSpace sa \<noteq> ''''" "is_ok (Normalize sa)" and
    t: "ParseHandshakePayload_tail pv sa r3 = Inr h"
    unfolding ParseHandshakePayload_def Let_def max_address_effective
    by (auto simp: is_ok_def split: prod.splits sum.splits if_splits)
  from t have "ServerAddress h = sa" "NextState h \<in> {1, 2, 3}"
    by (auto simp: ParseHandshakePayload_tail_def next_states split: prod.splits sum.splits if_splits)
  with n readString_Inr [OF s] show ?thesis by (simp add: handshake_wf_def)
qed

lemma ParseHandshakePayload_Inl:
  "ParseHandshakePayload p l = Inl e \<Longrightarrow> errors_Is e ErrMalformedHandshake \<or> e = [ErrUnsupportedNextState]"
  by (auto simp: ParseHandshakePayload_def ParseHandshakePayload_tail_def errors_Is_def Let_def
      split: prod.splits sum.splits if_splits)

lemma ReadVarInt_NewReader:
  "ReadVarInt (bytes_NewReader (WriteVarInt v @ s)) = (Inr v, WriteVarInt v, bytes_NewReader s)"
  using ReadVarInt_Write [where r = "bytes_NewReader []" and v = v and s = s] by (simp add: bytes_NewReader_def)

lemma ParseHandshakePayload_tail_fields:
  assumes "handshake_wf l h"
  shows "ParseHandshakePayload_tail (ProtocolVersion h) (ServerAddress h)
           (bytes_NewReader (PutUint16 (ServerPort h) @ WriteVarInt (NextState h))) = Inr h"
proof -
  have "ReadFull (bytes_NewReader (PutUint16 (ServerPort h) @ WriteVarInt (NextState h))) 2 =
      (Inr (PutUint16 (ServerPort h)), bytes_NewReader (WriteVarInt (NextState h)))"
    using ReadFull_append [where r = "bytes_NewReader []" and b = "PutUint16 (ServerPort h)"]
    by (simp add: bytes_NewReader_def)
  then show ?thesis
    using assms ReadVarInt_NewReader [of "NextState h" "[]"]
    by (auto simp: ParseHandshakePayload_tail_def handshake_wf_def next_states)
qed

lemma ParseHandshakePayload_fields:
  assumes "handshake_wf l h"
  shows "ParseHandshakePayload (WriteVarInt HandshakePacketID @ handshake_fields h) l = Inr h"
proof -
  let ?rest = "PutUint16 (ServerPort h) @ WriteVarInt (NextState h)"
  have "readString (bytes_NewReader (EncodeString (ServerAddress h) @ ?rest)) (MaxServerAddressBytes (effective l)) =
      (Inr (ServerAddress h), bytes_NewReader ?rest)"
    using assms readString_Encode [where r = "bytes_NewReader []" and s = "ServerAddress h" and t = ?rest]
    by (simp add: handshake_wf_def bytes_NewReader_def)
  moreover from assms obtain n where "Normalize (ServerAddress h) = Inr n"
    by (auto simp: handshake_wf_def is_ok_def split: sum.splits)
  ultimately show ?thesis
    using assms ParseHandshakePayload_tail_fields [OF assms]
    by (simp add: ParseHandshakePayload_def Let_def max_address_effective handshake_fields_def
        ReadVarInt_NewReader handshake_wf_def)
qed

lemma ParseHandshakePayload_cong:
  "MaxServerAddressBytes (effective l') = MaxServerAddressBytes (effective l) \<Longrightarrow>
     ParseHandshakePayload p l' = ParseHandshakePayload p l"
  by (simp add: ParseHandshakePayload_def Let_def max_address_effective)

lemma ReadHandshake_effective:
  "ReadHandshake r l =
     (case ReadVarInt r of
        (Inl e, lengthRaw, r1) \<Rightarrow> (Inl e, lengthRaw, r1)
      | (Inr packetLength, lengthRaw, r1) \<Rightarrow>
          if sint packetLength \<le> 0 \<or> sint packetLength > sint (MaxPacketLength (effective l))
          then (Inl [ErrPacketTooLarge], lengthRaw, r1)
          else
            (case ReadFull r1 (nat (sint packetLength)) of
               (Inl e, r2) \<Rightarrow> (Inl e, lengthRaw @ rdata r1 @ replicate (nat (sint packetLength) - length (rdata r1)) 0, r2)
             | (Inr payload, r2) \<Rightarrow> (ParseHandshakePayload payload l, lengthRaw @ payload, r2)))"
proof -
  have "ParseHandshakePayload p (l\<lparr>MaxPacketLength := a\<rparr>) = ParseHandshakePayload p l"
    "sint (MaxServerAddressBytes l) \<le> 0 \<Longrightarrow>
       ParseHandshakePayload p (l\<lparr>MaxPacketLength := a, MaxServerAddressBytes := 255\<rparr>) = ParseHandshakePayload p l"
    "sint (MaxServerAddressBytes l) \<le> 0 \<Longrightarrow>
       ParseHandshakePayload p (l\<lparr>MaxServerAddressBytes := 255\<rparr>) = ParseHandshakePayload p l" for p a
    by (rule ParseHandshakePayload_cong, simp add: effective_def)+
  then show ?thesis
    by (simp add: ReadHandshake_def Let_def effective_def DefaultLimits_def
        split: prod.split sum.split)
qed

lemma ReadHandshake_Inr:
  assumes "ReadHandshake r l = (Inr h, raw, r')"
  obtains lengthRaw payload v where
    "ReadVarInt r = (Inr v, lengthRaw, r\<lparr>rdata := payload @ rdata r'\<rparr>)"
    "raw = lengthRaw @ payload" "rdata r = raw @ rdata r'"
    "sint v = int (length payload)" "payload \<noteq> []" "sint v \<le> sint (MaxPacketLength (effective l))"
    "ParseHandshakePayload payload l = Inr h"
proof -
  from assms obtain v lengthRaw r1 payload where
    v: "ReadVarInt r = (Inr v, lengthRaw, r1)" "0 < sint v" "sint v \<le> sint (MaxPacketLength (effective l))" and
    p: "ReadFull r1 (nat (sint v)) = (Inr payload, r')" "ParseHandshakePayload payload l = Inr h" "raw = lengthRaw @ payload"
    unfolding ReadHandshake_effective by (auto split: prod.splits sum.splits if_splits)
  from p(1) have r1: "length payload = nat (sint v)" "rdata r1 = payload @ rdata r'"
    by (auto simp: ReadFull_Inr)
  from varint.same_end [OF v(1)] r1 have "r1 = r\<lparr>rdata := payload @ rdata r'\<rparr>" by simp
  moreover from varint.takes_raw [OF v(1)] r1 p have "rdata r = raw @ rdata r'" by simp
  moreover from v(2) r1 have "payload \<noteq> []" by auto
  ultimately show thesis using that [of v lengthRaw payload] v p r1 by auto
qed

lemma ReadHandshake_prefix:
  assumes "ReadHandshake r l = (Inr h, raw, r')"
  shows "ReadHandshake (q\<lparr>rdata := raw @ s\<rparr>) l = (Inr h, raw, q\<lparr>rdata := s\<rparr>)"
  using assms
proof (rule ReadHandshake_Inr)
  fix lengthRaw payload v
  assume *: "ReadVarInt r = (Inr v, lengthRaw, r\<lparr>rdata := payload @ rdata r'\<rparr>)" "raw = lengthRaw @ payload"
    "sint v = int (length payload)" "payload \<noteq> []" "sint v \<le> sint (MaxPacketLength (effective l))"
    "ParseHandshakePayload payload l = Inr h"
  have "ReadVarInt (q\<lparr>rdata := raw @ s\<rparr>) = (Inr v, lengthRaw, q\<lparr>rdata := payload @ s\<rparr>)"
    using varint.reparse [OF *(1), where q = q and s = "payload @ s"] *(2) by simp
  with * show ?thesis by (simp add: ReadHandshake_effective ReadFull_append)
qed

interpretation hs: raw_parser "\<lambda>r. ReadHandshake r l" for l
  by unfold_locales (auto elim: ReadHandshake_Inr intro: ReadHandshake_prefix)

lemma ReadHandshake_raw_length:
  assumes "ReadHandshake r l = (Inr h, raw, r')"
  shows "2 \<le> length raw" and "int (length raw) \<le> 5 + sint (MaxPacketLength (effective l))"
proof -
  from assms obtain lengthRaw payload v where *:
    "ReadVarInt r = (Inr v, lengthRaw, r\<lparr>rdata := payload @ rdata r'\<rparr>)" "raw = lengthRaw @ payload"
    "sint v = int (length payload)" "payload \<noteq> []" "sint v \<le> sint (MaxPacketLength (effective l))"
    by (rule ReadHandshake_Inr)
  have "lengthRaw \<noteq> []" "length lengthRaw \<le> 5"
    using ReadVarInt_consumes(2,3) [OF *(1)] by (simp_all add: MaxVarIntBytes_def)
  with * show "2 \<le> length raw" "int (length raw) \<le> 5 + sint (MaxPacketLength (effective l))"
    by (auto simp: Suc_le_eq simp flip: length_greater_0_conv)
qed

lemma BuildPacket_single:
  "BuildPacket pid [f] = WriteVarInt (of_nat (length (WriteVarInt pid @ f))) @ WriteVarInt pid @ f"
  by (simp add: BuildPacket_def Let_def)

lemma BuildPacket_concat: "BuildPacket pid fs = BuildPacket pid [concat fs]"
proof -
  have "foldl (\<lambda>acc field. acc @ field) a fs = a @ concat fs" for a :: bytes
    by (induction fs arbitrary: a) auto
  then show ?thesis by (simp add: BuildPacket_def)
qed

lemma ReadHandshake_fields:
  assumes "handshake_wf l h"
    and "int (length (WriteVarInt HandshakePacketID @ handshake_fields h)) \<le> sint (MaxPacketLength (effective l))"
  shows "ReadHandshake (r\<lparr>rdata := BuildPacket HandshakePacketID [handshake_fields h] @ s\<rparr>) l =
           (Inr h, BuildPacket HandshakePacketID [handshake_fields h], r\<lparr>rdata := s\<rparr>)"
proof -
  let ?p = "WriteVarInt HandshakePacketID @ handshake_fields h"
  let ?n = "of_nat (length ?p) :: int32"
  have "sint (MaxPacketLength (effective l)) < 2 ^ 31" using sint_less [of "MaxPacketLength (effective l)"] by simp
  with assms(2) have "length ?p < 2 ^ 31" by simp
  then have n: "sint ?n = int (length ?p)" by (rule sint_of_nat_int32)
  have "ReadVarInt (r\<lparr>rdata := WriteVarInt ?n @ ?p @ s\<rparr>) = (Inr ?n, WriteVarInt ?n, r\<lparr>rdata := ?p @ s\<rparr>)"
    by (rule ReadVarInt_Write)
  moreover have "ReadFull (r\<lparr>rdata := ?p @ s\<rparr>) (length ?p) = (Inr ?p, r\<lparr>rdata := s\<rparr>)"
    by (simp only: ReadFull_append)
  moreover have "0 < length ?p" by simp
  ultimately show ?thesis
    using assms(2) n ParseHandshakePayload_fields [OF assms(1)]
    by (simp add: ReadHandshake_effective BuildPacket_single del: length_append of_nat_add append_assoc
        flip: append_assoc)
qed

section \<open>Packets\<close>

lemma ReadPacket_Build:
  assumes "int (length (WriteVarInt pid @ concat fs)) \<le> sint m" and "0 < sint m"
  shows "ReadPacket (r\<lparr>rdata := BuildPacket pid fs @ s\<rparr>) m = (Inr (pid, concat fs), r\<lparr>rdata := s\<rparr>)"
proof -
  let ?p = "WriteVarInt pid @ concat fs"
  let ?n = "of_nat (length ?p) :: int32"
  have "sint m < 2 ^ 31" using sint_less [of m] by simp
  with assms(1) have "length ?p < 2 ^ 31" by simp
  then have n: "sint ?n = int (length ?p)" by (rule sint_of_nat_int32)
  have B: "BuildPacket pid fs @ s = WriteVarInt ?n @ ?p @ s"
    by (subst BuildPacket_concat) (simp add: BuildPacket_single)
  have V: "ReadVarInt (r\<lparr>rdata := WriteVarInt ?n @ ?p @ s\<rparr>) = (Inr ?n, WriteVarInt ?n, r\<lparr>rdata := ?p @ s\<rparr>)"
    by (rule ReadVarInt_Write)
  have F: "ReadFull (r\<lparr>rdata := ?p @ s\<rparr>) (nat (sint ?n)) = (Inr ?p, r\<lparr>rdata := s\<rparr>)"
    unfolding n by (simp only: ReadFull_append nat_int)
  have "0 < length ?p" using WriteVarInt_length(1) [of pid] by simp
  with assms n have "\<not> (sint ?n \<le> 0 \<or> sint ?n > sint m)" "\<not> sint m \<le> 0" by linarith+
  then show ?thesis
    unfolding ReadPacket_def Let_def B readVarIntFromReader_eq V
    by (simp only: F prod.case sum.case if_False ReadVarInt_NewReader) simp
qed

text \<open>A packet larger than the limit is refused before its payload is read.\<close>

lemma ReadPacket_too_large:
  assumes "ReadVarInt r = (Inr v, raw, r1)" and "sint m < sint v" and "0 < sint m"
  shows "ReadPacket r m = (Inl [ErrPacketTooLarge], r1)"
  using assms by (simp add: ReadPacket_def)

lemma readString_too_long:
  assumes "sint m < int (length s)" and "length s < 2 ^ 31"
  shows "readString (r\<lparr>rdata := EncodeString s @ t\<rparr>) m = (Inl [Msg ''length exceeds limit''], r\<lparr>rdata := bytes_of s @ t\<rparr>)"
proof -
  have "ReadVarInt (r\<lparr>rdata := EncodeString s @ t\<rparr>) =
      (Inr (of_nat (length s)), WriteVarInt (of_nat (length s)), r\<lparr>rdata := bytes_of s @ t\<rparr>)"
    using ReadVarInt_Write [where r = r and v = "of_nat (length s)" and s = "bytes_of s @ t"]
    by (simp add: EncodeString_def Let_def)
  with assms sint_of_nat_int32 [of "length s"] show ?thesis by (simp add: readString_def)
qed

lemma ValidateLoginStartPayload_Encode:
  assumes "utf8_Valid (bytes_of u)" and "length u < 2 ^ 31"
  shows "ValidateLoginStartPayload ProtocolMinecraft1211 (EncodeString u @ uuid) = None \<longleftrightarrow>
           length u \<le> 16 \<and> TrimSpace u \<noteq> '''' \<and> length uuid = 16"
proof (cases "length u \<le> 16")
  case True
  then have "readString (bytes_NewReader (EncodeString u @ uuid)) loginUsernameMaxBytes = (Inr u, bytes_NewReader uuid)"
    using readString_Encode [OF assms(1), where r = "bytes_NewReader []" and m = loginUsernameMaxBytes and t = uuid]
    by (simp add: bytes_NewReader_def loginUsernameMaxBytes_def)
  with True show ?thesis by (simp add: ValidateLoginStartPayload_def loginUUIDBytes_def)
next
  case False
  then have "readString (bytes_NewReader (EncodeString u @ uuid)) loginUsernameMaxBytes =
      (Inl [Msg ''length exceeds limit''], bytes_NewReader (bytes_of u @ uuid))"
    using readString_too_long [OF _ assms(2), where r = "bytes_NewReader []" and m = loginUsernameMaxBytes and t = uuid]
    by (simp add: bytes_NewReader_def loginUsernameMaxBytes_def)
  with False show ?thesis by (simp add: ValidateLoginStartPayload_def)
qed

section \<open>Properties\<close>

text \<open>C3: a handshake that is accepted was the first bytes of the stream and nothing else was taken:
  the returned raw bytes are exactly the consumed prefix, at most the packet limit and the length
  field. The record is well formed, and whoever receives the raw bytes, followed by any other bytes,
  reads the same handshake from them.\<close>

theorem ReadHandshake_sound:
  assumes "ReadHandshake r l = (Inr h, raw, r')"
  shows "rdata r = raw @ rdata r' \<and> rend r' = rend r \<and>
         int (length raw) \<le> 5 + sint (MaxPacketLength (effective l)) \<and> handshake_wf l h \<and>
         (\<forall>q s. ReadHandshake (q\<lparr>rdata := raw @ s\<rparr>) l = (Inr h, raw, q\<lparr>rdata := s\<rparr>))"
proof -
  from assms obtain payload where "ParseHandshakePayload payload l = Inr h" by (rule ReadHandshake_Inr)
  then have "handshake_wf l h" by (rule ParseHandshakePayload_Inr)
  moreover have "rend r' = rend r" using hs.same_end [OF assms] by (metis reader.select_convs(2) reader.surjective reader.update_convs(1))
  ultimately show ?thesis
    using hs.takes_raw [OF assms] ReadHandshake_raw_length(2) [OF assms] by auto
qed

text \<open>C36: a well-formed handshake within the packet limit, written as \<open>BuildPacket\<close> writes it, is read
  back as it was, whatever follows it in the stream.\<close>

theorem handshake_round_trip:
  assumes "handshake_wf l h"
    and "int (length (WriteVarInt HandshakePacketID @ handshake_fields h)) \<le> sint (MaxPacketLength (effective l))"
  shows "ReadHandshake (r\<lparr>rdata := BuildPacket HandshakePacketID [handshake_fields h] @ s\<rparr>) l =
           (Inr h, BuildPacket HandshakePacketID [handshake_fields h], r\<lparr>rdata := s\<rparr>)"
  using assms by (rule ReadHandshake_fields)

definition sample_handshake :: Handshake where
  "sample_handshake = \<lparr>ProtocolVersion = 767, ServerAddress = ''mc.example.com'', ServerPort = 25565, NextState = 2\<rparr>"

lemma sample_handshake_wf: "handshake_wf DefaultLimits sample_handshake"
proof -
  have d: "dns_name ''mc.example.com''" by code_simp
  moreover have "utf8_Valid (bytes_of ''mc.example.com'')" by code_simp
  moreover have "TrimSpace ''mc.example.com'' = ''mc.example.com''"
    by (rule TrimSpace_plain) code_simp+
  ultimately show ?thesis
    using dns_name_canonical(1) [OF d]
    by (simp add: handshake_wf_def sample_handshake_def effective_def DefaultLimits_def is_ok_def)
qed

lemma sample_handshake_bytes:
  "WriteVarInt HandshakePacketID @ handshake_fields sample_handshake =
     [0, 0xFF, 5, 14, 109, 99, 46, 101, 120, 97, 109, 112, 108, 101, 46, 99, 111, 109, 0x63, 0xDD, 2]"
  by code_simp

theorem handshake_round_trip_witness:
  "fst (ReadHandshake (bytes_NewReader (BuildPacket HandshakePacketID [handshake_fields sample_handshake])) DefaultLimits)
     = Inr sample_handshake"
  using handshake_round_trip [OF sample_handshake_wf, where r = "bytes_NewReader []" and s = "[]"] sample_handshake_bytes
  by (simp add: effective_def DefaultLimits_def bytes_NewReader_def)

theorem ReadHandshake_sound_witness:
  "\<exists>raw r'. ReadHandshake (bytes_NewReader (BuildPacket HandshakePacketID [handshake_fields sample_handshake] @ [1, 2]))
       DefaultLimits = (Inr sample_handshake, raw, r') \<and> handshake_wf DefaultLimits sample_handshake \<and> rend r' = [EOF]"
proof -
  let ?b = "BuildPacket HandshakePacketID [handshake_fields sample_handshake]"
  have "ReadHandshake (bytes_NewReader (?b @ [1, 2])) DefaultLimits = (Inr sample_handshake, ?b, bytes_NewReader [1, 2])"
    using ReadHandshake_fields [OF sample_handshake_wf, where r = "bytes_NewReader []" and s = "[1, 2]"] sample_handshake_bytes
    by (simp add: effective_def DefaultLimits_def bytes_NewReader_def)
  with ReadHandshake_sound [OF this] show ?thesis by simp
qed

text \<open>A handshake payload that is refused is refused as malformed or for its next state, the two
  cases the connection handler counts apart.\<close>

theorem ParseHandshakePayload_errors:
  "case ParseHandshakePayload p l of
     Inl e \<Rightarrow> errors_Is e ErrMalformedHandshake \<or> e = [ErrUnsupportedNextState]
   | Inr h \<Rightarrow> handshake_wf l h"
  using ParseHandshakePayload_Inr ParseHandshakePayload_Inl by (auto split: sum.split)

text \<open>A packet built from any fields is read back as its id and the concatenation of the fields,
  as long as it respects the reader's limit.\<close>

theorem packet_round_trip:
  assumes "int (length (WriteVarInt pid @ concat fs)) \<le> sint m" and "0 < sint m"
  shows "ReadPacket (r\<lparr>rdata := BuildPacket pid fs @ s\<rparr>) m = (Inr (pid, concat fs), r\<lparr>rdata := s\<rparr>)"
  using assms by (rule ReadPacket_Build)

theorem packet_round_trip_witness:
  "ReadPacket (bytes_NewReader (BuildPacket StatusPingPacketID [EncodeLong 7])) 2048 =
     (Inr (StatusPingPacketID, EncodeLong 7), bytes_NewReader [])"
proof -
  have "length (WriteVarInt StatusPingPacketID @ concat [EncodeLong 7]) = 9" by code_simp
  then show ?thesis
    using packet_round_trip [where pid = StatusPingPacketID and fs = "[EncodeLong 7]" and m = 2048
        and r = "bytes_NewReader []" and s = "[]"]
    by (simp add: bytes_NewReader_def)
qed

text \<open>Login start of the supported protocol: a name and the bytes after it are accepted exactly
  when the name has 1 to 16 bytes that are not all blank and 16 bytes, the UUID, follow.\<close>

theorem login_start_accepts:
  assumes "utf8_Valid (bytes_of u)" and "length u < 2 ^ 31"
  shows "ValidateLoginStartPayload ProtocolMinecraft1211 (EncodeString u @ uuid) = None \<longleftrightarrow>
           length u \<le> 16 \<and> TrimSpace u \<noteq> '''' \<and> length uuid = 16"
  using assms by (rule ValidateLoginStartPayload_Encode)

theorem login_start_accepts_witness:
  "ValidateLoginStartPayload ProtocolMinecraft1211 (EncodeString ''Steve'' @ replicate 16 0) = None"
proof -
  have "utf8_Valid (bytes_of ''Steve'')" by code_simp
  moreover have "TrimSpace ''Steve'' = ''Steve''" by (rule TrimSpace_plain) code_simp+
  ultimately show ?thesis using login_start_accepts [of "''Steve''" "replicate 16 0"] by simp
qed

end
