(* ===== verification/Http.thy ===== *)
theory Http
  imports Mcproto GoSort
begin

text \<open>
  What the sources use of \<open>net/http\<close>: requests with their headers, and a client, which is a
  parameter that answers a request with the status code of the response or an error. The second part
  models \<open>internal/scaler/webhook.go\<close>, the notification that a backend is about to be used.
\<close>

section \<open>Requests\<close>

text \<open>
  \<open>http.Header.Set\<close> stores one value under the canonical form of a name
  (\<open>textproto.CanonicalMIMEHeaderKey\<close>): the first letter and the letters after a hyphen in upper
  case, the others in lower case; a name with a byte that no token has is kept as it is.
\<close>

definition upper_char :: "char \<Rightarrow> char" where
  "upper_char c = (if CHR ''a'' \<le> c \<and> c \<le> CHR ''z'' then char_of ((of_char c :: nat) - 32) else c)"

definition token_char :: "char \<Rightarrow> bool" where
  "token_char c \<longleftrightarrow> (CHR ''a'' \<le> c \<and> c \<le> CHR ''z'') \<or> (CHR ''A'' \<le> c \<and> c \<le> CHR ''Z'') \<or>
     (CHR ''0'' \<le> c \<and> c \<le> CHR ''9'') \<or> c \<in> set (''!#$%&*+-.^_|~'' @ [CHR 0x27, CHR 0x60])"

fun canonical_name :: "bool \<Rightarrow> string \<Rightarrow> string" where
  "canonical_name upper [] = []"
| "canonical_name upper (c # cs) =
     (if upper then upper_char c else lower_char c) # canonical_name (c = CHR ''-'') cs"

definition CanonicalMIMEHeaderKey :: "string \<Rightarrow> string" where
  "CanonicalMIMEHeaderKey s = (if list_all token_char s then canonical_name True s else s)"

type_synonym header = "(string, string) gomap"

definition Header_Set :: "header \<Rightarrow> string \<Rightarrow> string \<Rightarrow> header" where
  "Header_Set h name value = gm_set h (CanonicalMIMEHeaderKey name) value"

record http_request =
  rqMethod :: string
  rqURL :: string
  rqHeader :: header
  rqBody :: bytes

text \<open>
  The client: \<open>NewRequest\<close> checks a URL, \<open>Do\<close> sends a request. The status code is an integer; a
  response has been read in full or not at all.
\<close>

record http_client =
  hcCheckURL :: "string \<Rightarrow> error option"
  hcDo :: "http_request \<Rightarrow> int result"

section \<open>The scaler webhook\<close>

record scaler_Config =
  scEnabled :: bool
  scURL :: string
  scTimeout :: int
  scHeaders :: "(string, string) gomap"

record Event =
  evBackend :: string
  evServerAddress :: string
  evNextState :: int32

record scaler_Client =
  sclConfig :: scaler_Config

definition scaler_New :: "scaler_Config \<Rightarrow> scaler_Client" where
  "scaler_New config = \<lparr>sclConfig = config\<rparr>"

definition Marshal_Event :: "Event \<Rightarrow> bytes" where
  "Marshal_Event e =
     bytes_of ''{'' @ json_key ''backend'' @ json_string (evBackend e) @ bytes_of '','' @
     json_key ''serverAddress'' @ json_string (evServerAddress e) @ bytes_of '','' @
     json_key ''nextState'' @ json_int (sint (evNextState e)) @ bytes_of ''}''"

definition Notify_request :: "((string \<times> string) list \<Rightarrow> (string \<times> string) list) \<Rightarrow> scaler_Config \<Rightarrow> Event \<Rightarrow> http_request" where
  \<comment> \<open>the request; \<open>ord\<close> is the order in which the loop visits the configured headers\<close>
  "Notify_request ord cfg event =
     \<lparr>rqMethod = ''POST'', rqURL = scURL cfg,
      rqHeader = foldl (\<lambda>h (name, value). Header_Set h name value)
        (Header_Set [] ''Content-Type'' ''application/json'') (ord (scHeaders cfg)),
      rqBody = Marshal_Event event\<rparr>"

definition Notify :: "http_client \<Rightarrow> ((string \<times> string) list \<Rightarrow> (string \<times> string) list) \<Rightarrow> scaler_Client \<Rightarrow> Event \<Rightarrow>
    error option \<times> http_request list" where
  \<comment> \<open>the error and the requests sent\<close>
  "Notify http ord c event =
     (if \<not> scEnabled (sclConfig c) then (None, [])
      else
        (case hcCheckURL http (scURL (sclConfig c)) of
           Some e \<Rightarrow> (Some e, [])
         | None \<Rightarrow>
             (let request = Notify_request ord (sclConfig c) event in
              case hcDo http request of
                Inl e \<Rightarrow> (Some e, [request])
              | Inr code \<Rightarrow>
                  if code < 200 \<or> code \<ge> 300 then (Some [Msg ''status error''], [request]) else (None, [request]))))"

lemma Notify_requests: "length (snd (Notify http ord c event)) \<le> (if scEnabled (sclConfig c) then 1 else 0)"
  by (auto simp: Notify_def Let_def split: option.split sum.split)

lemma Notify_body: "rq \<in> set (snd (Notify http ord c event)) \<Longrightarrow> rq = Notify_request ord (sclConfig c) event"
  by (auto simp: Notify_def Let_def split: option.splits sum.splits if_splits)

end
