(* ===== verification/Ratelimit.thy ===== *)
theory Ratelimit
  imports Complex_Main GoNet GoSort
begin

text \<open>
  The per-client connection rate limiter of \<open>internal/ratelimit/limiter.go\<close>: a bounded table of
  token buckets, one for each source address. Times are nanoseconds (\<open>int\<close>); the number of tokens,
  a \<open>float64\<close> in the code, is a rational number, so the rounding of the floating-point refill is not
  modelled. The order in which a \<open>range\<close> loop visits the table is the argument \<open>ord\<close>.
\<close>

section \<open>The limiter\<close>

record rl_Config =
  rlEnabled :: bool
  rlConnectionsPerSecond :: rat
  rlBurst :: int
  rlIdleTimeout :: int
  rlMaxEntries :: int

record rl_entry =
  tokens :: rat
  lastRefill :: int
  lastSeen :: int

type_synonym buckets = "(addr, rl_entry) gomap"

record Limiter =
  lcfg :: rl_Config
  entries :: buckets

definition Limiter_New :: "rl_Config \<Rightarrow> Limiter" where
  "Limiter_New cfg = \<lparr>lcfg = cfg, entries = []\<rparr>"

definition Seconds :: "int \<Rightarrow> rat" where
  "Seconds d = of_int d / 1000000000"

definition deleteExpired :: "Limiter \<Rightarrow> int \<Rightarrow> Limiter" where
  "deleteExpired l now =
     l\<lparr>entries := gm_keep (\<lambda>addr current. \<not> (now - lastSeen current \<ge> rlIdleTimeout (lcfg l))) (entries l)\<rparr>"

fun deleteOldest_scan :: "buckets \<Rightarrow> addr \<Rightarrow> int \<Rightarrow> addr \<times> int" where
  "deleteOldest_scan [] oldestAddr oldest = (oldestAddr, oldest)"
| "deleteOldest_scan ((addr, current) # es) oldestAddr oldest =
     (if IsValid oldestAddr \<and> \<not> lastSeen current < oldest then deleteOldest_scan es oldestAddr oldest
      else deleteOldest_scan es addr (lastSeen current))"

definition deleteOldest :: "(buckets \<Rightarrow> buckets) \<Rightarrow> Limiter \<Rightarrow> Limiter" where
  "deleteOldest ord l =
     (let (oldestAddr, oldest) = deleteOldest_scan (ord (entries l)) AddrZero 0 in
      if IsValid oldestAddr then l\<lparr>entries := gm_del (entries l) oldestAddr\<rparr> else l)"

definition refill :: "rl_Config \<Rightarrow> rl_entry \<Rightarrow> int \<Rightarrow> rl_entry" where
  \<comment> \<open>the refill and the new \<open>lastSeen\<close>\<close>
  "refill cfg current now =
     (let elapsed = Seconds (now - lastRefill current);
          current1 = (if elapsed > 0
            then current\<lparr>tokens := min (of_int (rlBurst cfg)) (tokens current + elapsed * rlConnectionsPerSecond cfg),
                         lastRefill := now\<rparr>
            else current)
      in current1\<lparr>lastSeen := now\<rparr>)"

definition allowAt :: "(buckets \<Rightarrow> buckets) \<Rightarrow> Limiter \<Rightarrow> addr \<Rightarrow> int \<Rightarrow> bool \<times> Limiter" where
  "allowAt ord l0 addr now =
     (let l1 = deleteExpired l0 now;
          (current0, l2) =
            (case gm_get (entries l1) addr of
               Some current \<Rightarrow> (current, l1)
             | None \<Rightarrow>
                 (\<lparr>tokens = of_int (rlBurst (lcfg l1)), lastRefill = now, lastSeen = 0\<rparr>,
                  if int (gm_len (entries l1)) \<ge> rlMaxEntries (lcfg l1) then deleteOldest ord l1 else l1));
          current = refill (lcfg l2) current0 now
      in if tokens current < 1
         then (False, l2\<lparr>entries := gm_set (entries l2) addr current\<rparr>)
         else (True, l2\<lparr>entries := gm_set (entries l2) addr (current\<lparr>tokens := tokens current - 1\<rparr>)\<rparr>))"

definition Allow :: "(buckets \<Rightarrow> buckets) \<Rightarrow> Limiter \<Rightarrow> addr \<Rightarrow> int \<Rightarrow> bool \<times> Limiter" where
  "Allow ord l addr now =
     (if \<not> rlEnabled (lcfg l) \<or> \<not> IsValid addr then (\<not> rlEnabled (lcfg l), l)
      else allowAt ord l (Unmap addr) now)"

section \<open>The table\<close>

lemma deleteOldest_scan_min:
  "(\<forall>(a, e) \<in> set es. IsValid a) \<Longrightarrow> deleteOldest_scan es oa t = (oa', t') \<Longrightarrow>
     (IsValid oa \<and> oa' = oa \<and> t' = t \<or> (\<exists>e. (oa', e) \<in> set es \<and> t' = lastSeen e)) \<and>
     (IsValid oa \<longrightarrow> t' \<le> t) \<and> (\<forall>(a, e) \<in> set es. t' \<le> lastSeen e) \<or> (es = [] \<and> oa' = oa \<and> t' = t)"
proof (induction es oa t rule: deleteOldest_scan.induct)
  case (2 addr current es oa t)
  then show ?case by (force split: if_splits)
qed simp

text \<open>The table holds valid, unmapped addresses, each with at most \<open>burst\<close> tokens.\<close>

definition cfg_wf :: "rl_Config \<Rightarrow> bool" where
  \<comment> \<open>what \<open>validateClientRateLimit\<close> guarantees of an enabled limiter\<close>
  "cfg_wf c \<longleftrightarrow> 0 < rlConnectionsPerSecond c \<and> 1 \<le> rlBurst c \<and> 0 < rlIdleTimeout c \<and> 1 \<le> rlMaxEntries c"

definition entry_wf :: "rl_Config \<Rightarrow> int \<Rightarrow> rl_entry \<Rightarrow> bool" where
  "entry_wf c now e \<longleftrightarrow> 0 \<le> tokens e \<and> tokens e \<le> of_int (rlBurst c) \<and>
     lastRefill e \<le> lastSeen e \<and> lastSeen e \<le> now"

definition limiter_inv :: "int \<Rightarrow> Limiter \<Rightarrow> bool" where
  "limiter_inv now l \<longleftrightarrow> cfg_wf (lcfg l) \<and> gm_wf (entries l) \<and> int (gm_len (entries l)) \<le> rlMaxEntries (lcfg l) \<and>
     (\<forall>a e. gm_get (entries l) a = Some e \<longrightarrow> IsValid a \<and> Unmap a = a \<and> entry_wf (lcfg l) now e)"

lemma deleteOldest_Some:
  assumes "limiter_inv now l" and "range_order ord" and "entries l \<noteq> []"
  obtains a e where "deleteOldest ord l = l\<lparr>entries := gm_del (entries l) a\<rparr>" "gm_get (entries l) a = Some e"
    "\<And>b f. gm_get (entries l) b = Some f \<Longrightarrow> lastSeen e \<le> lastSeen f"
proof -
  have wf: "gm_wf (entries l)" using assms(1) by (simp add: limiter_inv_def)
  have "IsValid b" if "(b, f) \<in> set (entries l)" for b f
    using assms(1) gm_in_get [OF wf] that by (auto simp: limiter_inv_def)
  then have valid: "\<forall>(b, f) \<in> set (ord (entries l)). IsValid b"
    using assms(2) by (auto simp: range_order_set)
  obtain a t where scan: "deleteOldest_scan (ord (entries l)) AddrZero 0 = (a, t)"
    by (cases "deleteOldest_scan (ord (entries l)) AddrZero 0")
  from deleteOldest_scan_min [OF valid scan] assms(2,3) obtain e where
    e: "(a, e) \<in> set (entries l)" "t = lastSeen e" "\<forall>(b, f) \<in> set (entries l). lastSeen e \<le> lastSeen f"
    by (auto simp: range_order_set range_order_Nil IsValid_def)
  with valid assms(2) have "IsValid a" by (auto simp: range_order_set)
  with scan have "deleteOldest ord l = l\<lparr>entries := gm_del (entries l) a\<rparr>" by (simp add: deleteOldest_def)
  moreover have "gm_get (entries l) a = Some e" using gm_in_get [OF wf] e(1) by simp
  moreover have "lastSeen e \<le> lastSeen f" if "gm_get (entries l) b = Some f" for b f
    using e(3) that by (auto dest: gm_get_in)
  ultimately show thesis by (rule that)
qed

section \<open>One attempt\<close>

lemma Seconds_mono: "a \<le> b \<Longrightarrow> Seconds a \<le> Seconds b"
  by (simp add: Seconds_def divide_right_mono)

lemma Seconds_add: "Seconds (a + b) = Seconds a + Seconds b"
  by (simp add: Seconds_def add_divide_distrib)

lemma Seconds_pos [simp]: "0 < Seconds d \<longleftrightarrow> 0 < d" "0 \<le> Seconds d \<longleftrightarrow> 0 \<le> d"
  by (simp_all add: Seconds_def zero_le_divide_iff)

text \<open>The tokens an entry is worth at a time.\<close>

definition worth :: "rl_Config \<Rightarrow> rl_entry \<Rightarrow> int \<Rightarrow> rat" where
  "worth c e now = min (of_int (rlBurst c)) (tokens e + Seconds (now - lastRefill e) * rlConnectionsPerSecond c)"

lemma refill_wf:
  assumes "cfg_wf c" and "entry_wf c t e" and "t \<le> now"
  shows "tokens (refill c e now) = worth c e now" and "lastRefill (refill c e now) = now"
    and "lastSeen (refill c e now) = now" and "0 \<le> worth c e now" and "worth c e now \<le> of_int (rlBurst c)"
proof -
  have le: "lastRefill e \<le> now" using assms by (simp add: entry_wf_def)
  show "tokens (refill c e now) = worth c e now" "lastRefill (refill c e now) = now" "lastSeen (refill c e now) = now"
    using assms le by (cases "lastRefill e = now"; auto simp: refill_def worth_def Let_def entry_wf_def Seconds_def)+
  have "0 \<le> Seconds (now - lastRefill e) * rlConnectionsPerSecond c"
    using assms le by (simp add: cfg_wf_def)
  then show "0 \<le> worth c e now" "worth c e now \<le> of_int (rlBurst c)"
    using assms by (auto simp: worth_def entry_wf_def cfg_wf_def)
qed

lemma worth_later:
  assumes "cfg_wf c" and "t \<le> now"
  shows "worth c e t \<le> worth c e now" "worth c e now \<le> worth c e t + Seconds (now - t) * rlConnectionsPerSecond c"
proof -
  have split: "Seconds (now - lastRefill e) = Seconds (t - lastRefill e) + Seconds (now - t)"
    by (simp add: Seconds_add [symmetric])
  have "0 \<le> Seconds (now - t) * rlConnectionsPerSecond c" using assms by (simp add: cfg_wf_def)
  then show "worth c e t \<le> worth c e now" "worth c e now \<le> worth c e t + Seconds (now - t) * rlConnectionsPerSecond c"
    by (auto simp: worth_def split distrib_right min_def)
qed

text \<open>The entry an attempt starts from: the bucket of the client, unless it is idle for too long.\<close>

definition start_entry :: "Limiter \<Rightarrow> addr \<Rightarrow> int \<Rightarrow> rl_entry" where
  "start_entry l a now =
     (case gm_get (entries l) a of
        Some e \<Rightarrow> if now - lastSeen e \<ge> rlIdleTimeout (lcfg l)
                   then \<lparr>tokens = of_int (rlBurst (lcfg l)), lastRefill = now, lastSeen = 0\<rparr> else e
      | None \<Rightarrow> \<lparr>tokens = of_int (rlBurst (lcfg l)), lastRefill = now, lastSeen = 0\<rparr>)"

definition after_attempt :: "rl_Config \<Rightarrow> rl_entry \<Rightarrow> int \<Rightarrow> rl_entry" where
  "after_attempt c e now =
     (let r = refill c e now in if tokens r < 1 then r else r\<lparr>tokens := tokens r - 1\<rparr>)"

lemma deleteExpired_get:
  "gm_wf (entries l) \<Longrightarrow> gm_get (entries (deleteExpired l now)) a =
     (case gm_get (entries l) a of None \<Rightarrow> None
      | Some e \<Rightarrow> if now - lastSeen e \<ge> rlIdleTimeout (lcfg l) then None else Some e)"
  by (simp add: deleteExpired_def gm_get_keep split: option.split)

lemma deleteExpired_simps [simp]: "lcfg (deleteExpired l now) = lcfg l"
  by (simp add: deleteExpired_def)

lemma deleteOldest_simps [simp]: "lcfg (deleteOldest ord l) = lcfg l"
  by (simp add: deleteOldest_def split: prod.split)

definition table_before :: "(buckets \<Rightarrow> buckets) \<Rightarrow> Limiter \<Rightarrow> addr \<Rightarrow> int \<Rightarrow> Limiter" where
  \<comment> \<open>the table into which the attempt stores its entry\<close>
  "table_before ord l a now =
     (let l1 = deleteExpired l now in
      if gm_get (entries l1) a = None \<and> int (gm_len (entries l1)) \<ge> rlMaxEntries (lcfg l1)
      then deleteOldest ord l1 else l1)"

lemma allowAt_eq:
  assumes "gm_wf (entries l)"
  shows "allowAt ord l a now =
    (1 \<le> tokens (refill (lcfg l) (start_entry l a now) now),
     (table_before ord l a now)\<lparr>entries := gm_set (entries (table_before ord l a now)) a
        (after_attempt (lcfg l) (start_entry l a now) now)\<rparr>)"
proof (cases "gm_get (entries (deleteExpired l now)) a")
  case None
  then have "start_entry l a now = \<lparr>tokens = of_int (rlBurst (lcfg l)), lastRefill = now, lastSeen = 0\<rparr>"
    using assms by (auto simp: deleteExpired_get start_entry_def split: option.splits if_splits)
  with None show ?thesis by (simp add: allowAt_def table_before_def after_attempt_def Let_def not_less)
next
  case (Some e)
  then have "start_entry l a now = e"
    using assms by (auto simp: deleteExpired_get start_entry_def split: option.splits if_splits)
  with Some show ?thesis by (simp add: allowAt_def table_before_def after_attempt_def Let_def not_less)
qed

lemma deleteExpired_inv:
  assumes "limiter_inv t l" and "t \<le> now"
  shows "limiter_inv now (deleteExpired l now)"
proof -
  have wf: "gm_wf (entries l)" using assms by (simp add: limiter_inv_def)
  have "gm_len (entries (deleteExpired l now)) \<le> gm_len (entries l)"
    by (simp add: deleteExpired_def gm_len_keep)
  moreover have "gm_wf (entries (deleteExpired l now))" using wf by (simp add: deleteExpired_def)
  ultimately show ?thesis
    using assms by (fastforce simp: limiter_inv_def deleteExpired_get [OF wf] entry_wf_def
        split: option.splits if_splits)
qed

lemma table_before_inv:
  assumes "limiter_inv t l" and "t \<le> now" and "range_order ord"
  shows "limiter_inv now (table_before ord l a now)" and "lcfg (table_before ord l a now) = lcfg l"
    and "gm_get (entries (table_before ord l a now)) a = None \<Longrightarrow>
           int (gm_len (entries (table_before ord l a now))) < rlMaxEntries (lcfg l)"
proof -
  let ?l1 = "deleteExpired l now"
  have inv: "limiter_inv now ?l1" using assms by (intro deleteExpired_inv)
  show "lcfg (table_before ord l a now) = lcfg l" by (simp add: table_before_def Let_def)
  show "limiter_inv now (table_before ord l a now)"
    and "gm_get (entries (table_before ord l a now)) a = None \<Longrightarrow>
           int (gm_len (entries (table_before ord l a now))) < rlMaxEntries (lcfg l)"
  proof (atomize (full), cases "gm_get (entries ?l1) a = None \<and> int (gm_len (entries ?l1)) \<ge> rlMaxEntries (lcfg l)")
    case True
    with inv have "entries ?l1 \<noteq> []" by (auto simp: limiter_inv_def cfg_wf_def)
    with inv assms(3) obtain b e where d: "deleteOldest ord ?l1 = ?l1\<lparr>entries := gm_del (entries ?l1) b\<rparr>"
      "gm_get (entries ?l1) b = Some e" by (rule deleteOldest_Some)
    have "gm_len (gm_del (entries ?l1) b) < gm_len (entries ?l1)" using d(2) by (rule gm_len_del_Some)
    with True d inv show "limiter_inv now (table_before ord l a now) \<and>
        (gm_get (entries (table_before ord l a now)) a = None \<longrightarrow>
           int (gm_len (entries (table_before ord l a now))) < rlMaxEntries (lcfg l))"
      by (auto simp: table_before_def Let_def limiter_inv_def)
  next
    case False
    with inv show "limiter_inv now (table_before ord l a now) \<and>
        (gm_get (entries (table_before ord l a now)) a = None \<longrightarrow>
           int (gm_len (entries (table_before ord l a now))) < rlMaxEntries (lcfg l))"
      by (auto simp: table_before_def Let_def)
  qed
qed

lemma start_entry_wf:
  assumes "limiter_inv t l" and "t \<le> now"
  shows "entry_wf (lcfg l) now ((start_entry l a now)\<lparr>lastSeen := now\<rparr>)"
  using assms
  by (auto simp: start_entry_def limiter_inv_def entry_wf_def cfg_wf_def split: option.split)
     (meson order_trans)

lemma refill_lastSeen: "refill c (e\<lparr>lastSeen := t\<rparr>) now = refill c e now"
  by (simp add: refill_def Let_def)

lemma worth_lastSeen [simp]: "worth c (e\<lparr>lastSeen := t\<rparr>) now = worth c e now"
  by (simp add: worth_def)

lemma after_attempt_simps:
  assumes "limiter_inv t l" and "t \<le> now"
  shows "tokens (refill (lcfg l) (start_entry l a now) now) = worth (lcfg l) (start_entry l a now) now"
    and "entry_wf (lcfg l) now (after_attempt (lcfg l) (start_entry l a now) now)"
    and "lastRefill (after_attempt (lcfg l) (start_entry l a now) now) = now"
    and "tokens (after_attempt (lcfg l) (start_entry l a now) now) =
      (let w = worth (lcfg l) (start_entry l a now) now in if w < 1 then w else w - 1)"
proof -
  have c: "cfg_wf (lcfg l)" using assms by (simp add: limiter_inv_def)
  note r = refill_wf [OF c start_entry_wf [OF assms] order_refl, unfolded refill_lastSeen worth_lastSeen]
  show "tokens (refill (lcfg l) (start_entry l a now) now) = worth (lcfg l) (start_entry l a now) now" by (rule r)
  show "entry_wf (lcfg l) now (after_attempt (lcfg l) (start_entry l a now) now)"
    "lastRefill (after_attempt (lcfg l) (start_entry l a now) now) = now"
    "tokens (after_attempt (lcfg l) (start_entry l a now) now) =
      (let w = worth (lcfg l) (start_entry l a now) now in if w < 1 then w else w - 1)"
    using r [of a] by (auto simp: after_attempt_def entry_wf_def Let_def)
qed

lemma allowAt_inv:
  assumes "limiter_inv t l" and "t \<le> now" and "range_order ord" and "IsValid a" and "Unmap a = a"
  shows "limiter_inv now (snd (allowAt ord l a now))" and "lcfg (snd (allowAt ord l a now)) = lcfg l"
proof -
  have wf: "gm_wf (entries l)" using assms by (simp add: limiter_inv_def)
  note tb = table_before_inv [OF assms(1-3), of a]
  note aa = after_attempt_simps(2) [OF assms(1,2), of a]
  show "lcfg (snd (allowAt ord l a now)) = lcfg l" by (simp add: allowAt_eq [OF wf] tb)
  show "limiter_inv now (snd (allowAt ord l a now))"
    using tb aa assms(4,5)
    by (auto simp: allowAt_eq [OF wf] limiter_inv_def gm_len_set)
qed

section \<open>Sequences of attempts\<close>

text \<open>An attempt with the order in which its range loop visits the table, its source and its time.\<close>

type_synonym attempt = "(buckets \<Rightarrow> buckets) \<times> addr \<times> int"

fun run_attempts :: "Limiter \<Rightarrow> attempt list \<Rightarrow> Limiter" where
  "run_attempts l [] = l"
| "run_attempts l ((ord, a, now) # evs) = run_attempts (snd (Allow ord l a now)) evs"

fun admitted :: "Limiter \<Rightarrow> attempt list \<Rightarrow> addr \<Rightarrow> nat" where
  \<comment> \<open>how many attempts of a client are admitted\<close>
  "admitted l [] c = 0"
| "admitted l ((ord, a, now) # evs) c =
     (if fst (Allow ord l a now) \<and> Unmap a = c then 1 else 0) + admitted (snd (Allow ord l a now)) evs c"

definition orders_ok :: "attempt list \<Rightarrow> bool" where
  "orders_ok evs \<longleftrightarrow> (\<forall>(ord, a, now) \<in> set evs. range_order ord)"

definition clients :: "attempt list \<Rightarrow> addr set" where
  "clients evs = (\<lambda>(ord, a, now). Unmap a) ` set evs"

definition times :: "attempt list \<Rightarrow> int list" where
  "times evs = map (\<lambda>(ord, a, now). now) evs"

lemma attempt_simps [simp]:
  "clients [] = {}" "clients ((ord, a, now) # evs) = insert (Unmap a) (clients evs)"
  "times [] = []" "times ((ord, a, now) # evs) = now # times evs"
  "orders_ok []" "orders_ok ((ord, a, now) # evs) \<longleftrightarrow> range_order ord \<and> orders_ok evs"
  by (auto simp: clients_def times_def orders_ok_def)

lemma clients_append [simp]: "clients (xs @ ys) = clients xs \<union> clients ys"
  by (simp add: clients_def image_Un)

lemma times_append [simp]: "times (xs @ ys) = times xs @ times ys"
  by (simp add: times_def)

lemma orders_ok_append [simp]: "orders_ok (xs @ ys) \<longleftrightarrow> orders_ok xs \<and> orders_ok ys"
  by (auto simp: orders_ok_def)

lemma Allow_inv:
  assumes "limiter_inv t l" and "t \<le> now" and "range_order ord"
  shows "limiter_inv now (snd (Allow ord l a now))" and "lcfg (snd (Allow ord l a now)) = lcfg l"
proof -
  have "limiter_inv now l"
    using assms by (auto simp: limiter_inv_def entry_wf_def) (meson order_trans)+
  then show "limiter_inv now (snd (Allow ord l a now))" "lcfg (snd (Allow ord l a now)) = lcfg l"
    using allowAt_inv [OF assms, of "Unmap a"] by (auto simp: Allow_def)
qed

lemma run_attempts_inv:
  "limiter_inv t l \<Longrightarrow> orders_ok evs \<Longrightarrow> sorted (t # times evs) \<Longrightarrow>
     limiter_inv (last (t # times evs)) (run_attempts l evs) \<and> lcfg (run_attempts l evs) = lcfg l"
proof (induction evs arbitrary: t l)
  case (Cons ev evs)
  obtain ord a now where ev: "ev = (ord, a, now)" by (cases ev)
  have "limiter_inv now (snd (Allow ord l a now))" "lcfg (snd (Allow ord l a now)) = lcfg l"
    using Cons.prems by (auto simp: ev intro!: Allow_inv)
  with Cons.IH [of now "snd (Allow ord l a now)"] Cons.prems show ?case by (simp add: ev)
qed simp

lemma Limiter_New_inv: "cfg_wf c \<Longrightarrow> limiter_inv t (Limiter_New c)"
  by (simp add: limiter_inv_def Limiter_New_def cfg_wf_def)

text \<open>
  The tokens a client can draw on: a full bucket when the table has none. A bucket that is dropped
  for idleness was full when the time-out is long enough to refill it.
\<close>

definition level :: "Limiter \<Rightarrow> addr \<Rightarrow> int \<Rightarrow> rat" where
  "level l a now = (case gm_get (entries l) a of None \<Rightarrow> of_int (rlBurst (lcfg l)) | Some e \<Rightarrow> worth (lcfg l) e now)"

definition generous :: "rl_Config \<Rightarrow> bool" where
  "generous c \<longleftrightarrow> of_int (rlBurst c) \<le> Seconds (rlIdleTimeout c) * rlConnectionsPerSecond c"

lemma level_le_burst: "level l a now \<le> of_int (rlBurst (lcfg l))"
  by (simp add: level_def worth_def split: option.split)

lemma level_nonneg: "limiter_inv t l \<Longrightarrow> 0 \<le> level l a t"
  using refill_wf(4) [of "lcfg l" t _ t]
  by (auto simp: level_def limiter_inv_def cfg_wf_def split: option.split)

lemma level_later:
  assumes "cfg_wf (lcfg l)" and "t \<le> now"
  shows "level l a now \<le> level l a t + Seconds (now - t) * rlConnectionsPerSecond (lcfg l)"
  using assms worth_later [OF assms] by (auto simp: level_def cfg_wf_def split: option.split)

lemma idle_full:
  assumes "limiter_inv t l" and "generous (lcfg l)" and "gm_get (entries l) a = Some e"
    and "rlIdleTimeout (lcfg l) \<le> now - lastSeen e"
  shows "worth (lcfg l) e now = of_int (rlBurst (lcfg l))"
proof -
  have c: "cfg_wf (lcfg l)" and e: "entry_wf (lcfg l) t e"
    using assms by (auto simp: limiter_inv_def)
  have "Seconds (rlIdleTimeout (lcfg l)) \<le> Seconds (now - lastRefill e)"
    using assms(4) e by (intro Seconds_mono) (auto simp: entry_wf_def)
  then have "of_int (rlBurst (lcfg l)) \<le> Seconds (now - lastRefill e) * rlConnectionsPerSecond (lcfg l)"
    using assms(2) c by (auto simp: generous_def cfg_wf_def intro: order_trans mult_right_mono)
  with e show ?thesis by (simp add: worth_def entry_wf_def)
qed

lemma worth_start:
  assumes "limiter_inv t l" and "t \<le> now" and "generous (lcfg l)"
  shows "worth (lcfg l) (start_entry l a now) now = level l a now"
  using idle_full [OF assms(1,3)]
  by (auto simp: start_entry_def level_def worth_def Seconds_def
      split: option.split)

lemma no_eviction:
  assumes "limiter_inv t l" and "t \<le> now" and "finite S" and "int (card S) \<le> rlMaxEntries (lcfg l)"
    and "dom (gm_get (entries l)) \<subseteq> S" and "a \<in> S"
  shows "table_before ord l a now = deleteExpired l now"
proof -
  let ?m = "entries (deleteExpired l now)"
  have wf: "gm_wf (entries l)" using assms(1) by (simp add: limiter_inv_def)
  have wf': "gm_wf ?m" using deleteExpired_inv [OF assms(1,2)] by (simp add: limiter_inv_def)
  have sub: "dom (gm_get ?m) \<subseteq> S"
    using assms(5) by (auto simp: deleteExpired_get [OF wf] dom_def split: option.splits if_splits)
  have "int (gm_len ?m) < rlMaxEntries (lcfg l)" if "gm_get ?m a = None"
  proof -
    from that sub assms(6) have "dom (gm_get ?m) \<subset> S" by auto
    then have "card (dom (gm_get ?m)) < card S" using assms(3) by (rule psubset_card_mono [rotated])
    with assms(4) show ?thesis by (simp add: gm_len_card [OF wf'])
  qed
  then show ?thesis by (auto simp: table_before_def Let_def)
qed

lemma level_attempt:
  assumes "limiter_inv t l" and "t \<le> now" and "finite S" and "int (card S) \<le> rlMaxEntries (lcfg l)"
    and "dom (gm_get (entries l)) \<subseteq> S" and "a \<in> S" and "generous (lcfg l)"
  shows "level (snd (allowAt ord l a now)) c now =
           level l c now - (if fst (allowAt ord l a now) \<and> a = c then 1 else 0)"
    and "fst (allowAt ord l a now) \<longleftrightarrow> 1 \<le> level l a now"
    and "dom (gm_get (entries (snd (allowAt ord l a now)))) \<subseteq> S"
proof -
  have wf: "gm_wf (entries l)" using assms(1) by (simp add: limiter_inv_def)
  note eq = allowAt_eq [OF wf, of ord a now, unfolded no_eviction [OF assms(1-6)]]
  note aa = after_attempt_simps [OF assms(1,2), of a, unfolded worth_start [OF assms(1,2,7)]]
  show fst: "fst (allowAt ord l a now) \<longleftrightarrow> 1 \<le> level l a now" by (simp add: eq aa)
  show "dom (gm_get (entries (snd (allowAt ord l a now)))) \<subseteq> S"
    using assms(5,6) by (auto simp: eq deleteExpired_get [OF wf] dom_def split: option.splits if_splits)
  show "level (snd (allowAt ord l a now)) c now =
           level l c now - (if fst (allowAt ord l a now) \<and> a = c then 1 else 0)"
  proof (cases "c = a")
    case True
    have "tokens (after_attempt (lcfg l) (start_entry l a now) now) \<le> of_int (rlBurst (lcfg l))"
      using aa(2) by (simp add: entry_wf_def)
    with True show ?thesis
      unfolding fst by (simp add: eq level_def [of "_ \<lparr>entries := _\<rparr>"] worth_def aa Let_def Seconds_def not_le)
  next
    case False
    then show ?thesis
      using idle_full [OF assms(1,7), of c]
      by (auto simp: eq level_def deleteExpired_get [OF wf] split: option.split)
  qed
qed

lemma admitted_bound:
  "limiter_inv t l \<Longrightarrow> rlEnabled (lcfg l) \<Longrightarrow> generous (lcfg l) \<Longrightarrow> finite S \<Longrightarrow>
   int (card S) \<le> rlMaxEntries (lcfg l) \<Longrightarrow> dom (gm_get (entries l)) \<subseteq> S \<Longrightarrow> clients evs \<subseteq> S \<Longrightarrow>
   orders_ok evs \<Longrightarrow> sorted (t # times evs) \<Longrightarrow>
   of_nat (admitted l evs c) \<le>
     level l c t + Seconds (last (t # times evs) - t) * rlConnectionsPerSecond (lcfg l)
   \<and> dom (gm_get (entries (run_attempts l evs))) \<subseteq> S"
proof (induction evs arbitrary: t l)
  case Nil
  then have "0 \<le> level l c t" by (intro level_nonneg)
  with Nil show ?case by (simp add: Seconds_def)
next
  case (Cons ev evs)
  obtain ord a now where ev: "ev = (ord, a, now)" by (cases ev)
  let ?l' = "snd (Allow ord l a now)"
  have now: "t \<le> now" "sorted (now # times evs)" and S: "Unmap a \<in> S" "clients evs \<subseteq> S" and ords: "range_order ord" "orders_ok evs"
    using Cons.prems by (auto simp: ev)
  have inv: "limiter_inv now ?l'" "lcfg ?l' = lcfg l" using Allow_inv [OF Cons.prems(1) now(1) ords(1)] by auto
  have step: "level ?l' c now = level l c now - (if fst (Allow ord l a now) \<and> Unmap a = c then 1 else 0)"
    "dom (gm_get (entries ?l')) \<subseteq> S"
    using level_attempt [OF Cons.prems(1) now(1) Cons.prems(4-6) S(1) Cons.prems(3), of ord] Cons.prems(2,6)
    by (auto simp: Allow_def)
  note IH = Cons.IH [OF inv(1), unfolded inv(2), OF Cons.prems(2-5) step(2) S(2) ords(2) now(2)]
  have "level l c now \<le> level l c t + Seconds (now - t) * rlConnectionsPerSecond (lcfg l)"
    using Cons.prems(1) now(1) by (intro level_later) (auto simp: limiter_inv_def)
  moreover have "Seconds (last (now # times evs) - t) = Seconds (now - t) + Seconds (last (now # times evs) - now)"
    by (simp add: Seconds_add [symmetric])
  ultimately show ?case
    using IH step(1) by (auto simp: ev distrib_right)
qed

section \<open>Properties\<close>


definition sample_limit :: rl_Config where
  "sample_limit = \<lparr>rlEnabled = True, rlConnectionsPerSecond = 1, rlBurst = 3, rlIdleTimeout = 600000000000, rlMaxEntries = 4096\<rparr>"


text \<open>The table is bounded and sound, whatever the clients do: after any sequence of attempts in
  the order of their times it has at most \<open>MaxEntries\<close> buckets, each of a valid, unmapped address and
  with a number of tokens between zero and the burst.\<close>

theorem rate_limit_table_bounded:
  assumes "cfg_wf cfg" and "orders_ok evs" and "sorted (times evs)"
  shows "int (gm_len (entries (run_attempts (Limiter_New cfg) evs))) \<le> rlMaxEntries cfg \<and>
    gm_wf (entries (run_attempts (Limiter_New cfg) evs)) \<and>
    (gm_get (entries (run_attempts (Limiter_New cfg) evs)) a = Some e \<longrightarrow>
       IsValid a \<and> Unmap a = a \<and> 0 \<le> tokens e \<and> tokens e \<le> of_int (rlBurst cfg))"
proof -
  let ?t0 = "hd (times evs @ [0])"
  have srt: "sorted (?t0 # times evs)" using assms(3) by (cases "times evs") auto
  have "limiter_inv (last (?t0 # times evs)) (run_attempts (Limiter_New cfg) evs)"
    "lcfg (run_attempts (Limiter_New cfg) evs) = cfg"
    using run_attempts_inv [OF Limiter_New_inv [OF assms(1)] assms(2) srt] by (auto simp: Limiter_New_def)
  then show ?thesis by (auto simp: limiter_inv_def entry_wf_def)
qed

theorem rate_limit_table_bounded_witness:
  "int (gm_len (entries (run_attempts (Limiter_New sample_limit) [(\<lambda>m. m, Addr4 1, 0), (\<lambda>m. m, Addr4 2, 5)]))) \<le> 4096"
  using rate_limit_table_bounded [of sample_limit "[(\<lambda>m. m, Addr4 1, 0), (\<lambda>m. m, Addr4 2, 5)]"]
  by (simp add: cfg_wf_def sample_limit_def orders_ok_def times_def)

end
