(* ===== verification/Proxy.thy ===== *)
theory Proxy
  imports Router Metrics Http Ratelimit
begin

text \<open>
  The state of the proxy server, the first part of \<open>internal/proxy/server.go\<close>: route snapshots, the
  server state built from one, reloads and discovery updates. A server holds one immutable state at a
  time and every change replaces it, under the lock \<open>snapshotMu\<close>; a step of the model is one such
  critical section. A panic of the code is the value \<open>None\<close>.
\<close>

type_synonym voice_order = "(string \<times> VoiceBackend) list \<Rightarrow> (string \<times> VoiceBackend) list"

section \<open>Route snapshots\<close>

record RouteSnapshot =
  snStaticConfig :: Config
  snConfig :: Config
  snRouter :: "Router option"
  snDiscoveryMerge :: MergeResult
  snDiscoveredRoutes :: "DiscoveredRoute list"

text \<open>Copies: the values of the model are not shared, so a copy is equal to its original.\<close>

definition cloneConfig :: "Config \<Rightarrow> Config" where
  "cloneConfig cfg =
     cfg\<lparr>cClientPolicy := (cClientPolicy cfg)\<lparr>cpAllow := cpAllow (cClientPolicy cfg) @ [], cpDeny := cpDeny (cClientPolicy cfg) @ []\<rparr>,
         cRoutes := map (\<lambda>r. r\<lparr>rAliases := rAliases r @ [], rStatusOverride := cloneStatusOverride (rStatusOverride r)\<rparr>) (cRoutes cfg)\<rparr>"

definition cloneStringIntMap :: "(string, nat) gomap \<Rightarrow> (string, nat) gomap" where
  "cloneStringIntMap values = map (\<lambda>(key, value). (key, value)) values"

definition cloneRouteSnapshot :: "RouteSnapshot \<Rightarrow> RouteSnapshot" where
  "cloneRouteSnapshot sn =
     sn\<lparr>snStaticConfig := cloneConfig (snStaticConfig sn), snConfig := cloneConfig (snConfig sn),
        snDiscoveredRoutes := snDiscoveredRoutes sn @ [],
        snDiscoveryMerge := (snDiscoveryMerge sn)\<lparr>mrRoutes := mrRoutes (snDiscoveryMerge sn) @ [],
          mrIgnored := mrIgnored (snDiscoveryMerge sn) @ [],
          mrStats := (mrStats (snDiscoveryMerge sn))\<lparr>msIgnoredByReason :=
            cloneStringIntMap (msIgnoredByReason (mrStats (snDiscoveryMerge sn)))\<rparr>\<rparr>\<rparr>"

lemma clone_id [simp]: "cloneConfig cfg = cfg" "cloneStringIntMap m = m" "cloneRouteSnapshot sn = sn"
proof -
  show c: "cloneConfig cfg = cfg" for cfg
    by (cases cfg) (simp add: cloneConfig_def)
  show "cloneStringIntMap m = m" for m by (simp add: cloneStringIntMap_def)
  then show "cloneRouteSnapshot sn = sn" by (simp add: cloneRouteSnapshot_def c)
qed

definition BuildRouteSnapshot ::
    "env \<Rightarrow> voice_order \<Rightarrow> voice_order \<Rightarrow> (error \<Rightarrow> string) \<Rightarrow> Config \<Rightarrow> DiscoveredRoute list \<Rightarrow> RouteSnapshot result" where
  \<comment> \<open>\<open>ord\<close> and \<open>ord'\<close> are the orders of the loops of the two validations; the tokens the first one
      stores are in the map the configurations share\<close>
  "BuildRouteSnapshot v ord ord' render cfg discoveredRoutes =
     (case Validate v ord cfg of
        (Some e, _) \<Rightarrow> Inl e
      | (None, cfg1) \<Rightarrow>
          (let merge = MergeRoutes render (cRoutes cfg1) discoveredRoutes (cDefaultRoute cfg1);
               mergedConfig = (cloneConfig cfg1)\<lparr>cRoutes := mrRoutes merge\<rparr>
           in case Router_New v ord' mergedConfig of
                Inl e \<Rightarrow> Inl e
              | Inr routeTable \<Rightarrow>
                  Inr \<lparr>snStaticConfig = cloneConfig cfg1, snConfig = mergedConfig, snRouter = Some routeTable,
                       snDiscoveryMerge = merge, snDiscoveredRoutes = [] @ discoveredRoutes\<rparr>))"

text \<open>A provider is nil or answers routes or an error.\<close>

type_synonym provider = "DiscoveredRoute list result option"

definition RebuildRouteSnapshot ::
    "env \<Rightarrow> voice_order \<Rightarrow> voice_order \<Rightarrow> voice_order \<Rightarrow> (error \<Rightarrow> string) \<Rightarrow> Config \<Rightarrow> provider \<Rightarrow> RouteSnapshot result" where
  "RebuildRouteSnapshot v ord0 ord ord' render cfg provider =
     (case Validate v ord0 cfg of
        (Some e, _) \<Rightarrow> Inl e
      | (None, cfg0) \<Rightarrow>
          (case provider of
             None \<Rightarrow> BuildRouteSnapshot v ord ord' render cfg0 []
           | Some (Inl e) \<Rightarrow> Inl e
           | Some (Inr discovered) \<Rightarrow> BuildRouteSnapshot v ord ord' render cfg0 ([] @ discovered)))"

definition discoveredRoutesFromProvider :: "provider \<Rightarrow> DiscoveredRoute list result" where
  "discoveredRoutesFromProvider provider =
     (case provider of None \<Rightarrow> Inr [] | Some (Inl e) \<Rightarrow> Inl e | Some (Inr discoveredRoutes) \<Rightarrow> Inr ([] @ discoveredRoutes))"

section \<open>The server state\<close>

record serverState =
  ssGeneration :: int
  ssStaticConfig :: Config
  ssCfg :: Config
  ssRouter :: Router
  ssClientPolicy :: Policy
  ssClientRateLimit :: Limiter
  ssTrustedProxies :: "ip_prefix list"
  ssScalerWebhook :: scaler_Client
  ssDiscoveryMerge :: MergeResult
  ssDiscoveredRoutes :: "DiscoveredRoute list"

text \<open>A rate that is not a number can only be configured for a limiter that is off, which ignores it.\<close>

fun rate_of :: "float64 \<Rightarrow> rat" where
  "rate_of (Fin r) = r"
| "rate_of _ = 0"

definition limiter_config :: "ClientRateLimit \<Rightarrow> rl_Config" where
  "limiter_config c = \<lparr>rlEnabled = crEnabled c, rlConnectionsPerSecond = rate_of (crConnectionsPerSecond c),
     rlBurst = crBurst c, rlIdleTimeout = crIdleTimeout c, rlMaxEntries = crMaxEntries c\<rparr>"

definition scaler_config :: "ScalerWebhook \<Rightarrow> scaler_Config" where
  "scaler_config c = \<lparr>scEnabled = swEnabled c, scURL = swURL c, scTimeout = swTimeout c, scHeaders = swHeaders c\<rparr>"

definition newServerState ::
    "int \<Rightarrow> Config \<Rightarrow> Config \<Rightarrow> Router \<Rightarrow> MergeResult \<Rightarrow> DiscoveredRoute list \<Rightarrow> serverState option" where
  "newServerState generation staticConfig cfg routeTable merge discoveredRoutes =
     (case Policy_New (cpAllow (cClientPolicy cfg)) (cpDeny (cClientPolicy cfg)) of
        Inl _ \<Rightarrow> None
      | Inr policy \<Rightarrow>
          (case ParseCIDRs (ppTrustedProxies (cProxyProtocol cfg)) of
             Inl _ \<Rightarrow> None
           | Inr trustedProxies \<Rightarrow>
               Some \<lparr>ssGeneration = generation, ssStaticConfig = cloneConfig staticConfig, ssCfg = cfg, ssRouter = routeTable,
                     ssClientPolicy = policy, ssClientRateLimit = Limiter_New (limiter_config (cClientRateLimit cfg)),
                     ssTrustedProxies = trustedProxies, ssScalerWebhook = scaler_New (scaler_config (cScalerWebhook cfg)),
                     ssDiscoveryMerge = merge, ssDiscoveredRoutes = discoveredRoutes\<rparr>))"

record Server =
  srvState :: serverState
  srvLimits :: Limits
  srvMetrics :: Recorder
  srvListenAddress :: string
  srvConnectionSeq :: "64 word"

definition snapshot_static :: "RouteSnapshot \<Rightarrow> Config" where
  \<comment> \<open>\<open>staticConfig\<close> of the two functions below\<close>
  "snapshot_static sn = (if cListen (snStaticConfig sn) = '''' then snConfig sn else snStaticConfig sn)"

definition newServer :: "RouteSnapshot \<Rightarrow> int \<Rightarrow> Server option" where
  "newServer snapshot0 unix =
     (let snapshot = cloneRouteSnapshot snapshot0; staticConfig = snapshot_static snapshot; cfg = snConfig snapshot in
      case snRouter snapshot of
        None \<Rightarrow> None
      | Some routeTable \<Rightarrow>
          (case newServerState 1 staticConfig cfg routeTable (snDiscoveryMerge snapshot) (snDiscoveredRoutes snapshot) of
             None \<Rightarrow> None
           | Some state \<Rightarrow>
               (let recorder = SetConfig (NewRecorder (mtEnabled (cMetrics cfg))) 1 cfg in
                Some \<lparr>srvState = state, srvLimits = DefaultLimits,
                      srvMetrics = (if kdEnabled (dsKubernetes (cDiscovery staticConfig))
                        then KubernetesDiscoverySync recorder (length (snDiscoveredRoutes snapshot)) unix else recorder),
                      srvListenAddress = cListen cfg, srvConnectionSeq = 0\<rparr>)))"

definition updateRouteSnapshotLocked :: "Server \<Rightarrow> RouteSnapshot \<Rightarrow> Server option" where
  "updateRouteSnapshotLocked s snapshot0 =
     (let snapshot = cloneRouteSnapshot snapshot0; staticConfig = snapshot_static snapshot; cfg = snConfig snapshot in
      case snRouter snapshot of
        None \<Rightarrow> None
      | Some routeTable \<Rightarrow>
          (let generation = ssGeneration (srvState s) + 1 in
           case newServerState generation staticConfig cfg routeTable (snDiscoveryMerge snapshot) (snDiscoveredRoutes snapshot) of
             None \<Rightarrow> None
           | Some state \<Rightarrow> Some (s\<lparr>srvState := state, srvMetrics := SetConfig (srvMetrics s) generation cfg\<rparr>)))"

definition stateToSnapshot :: "serverState \<Rightarrow> RouteSnapshot" where
  "stateToSnapshot state =
     \<lparr>snStaticConfig = ssStaticConfig state, snConfig = ssCfg state, snRouter = Some (ssRouter state),
      snDiscoveryMerge = ssDiscoveryMerge state, snDiscoveredRoutes = ssDiscoveredRoutes state\<rparr>"

definition Snapshot :: "Server \<Rightarrow> RouteSnapshot" where
  "Snapshot s = cloneRouteSnapshot (stateToSnapshot (srvState s))"

section \<open>Reloads and updates\<close>

text \<open>An operation answers its error and the server after it; \<open>None\<close> is a panic.\<close>

definition reloadConfigLocked ::
    "env \<Rightarrow> voice_order \<Rightarrow> voice_order \<Rightarrow> (error \<Rightarrow> string) \<Rightarrow> Server \<Rightarrow> Config \<Rightarrow> DiscoveredRoute list \<Rightarrow> (error option \<times> Server) option" where
  "reloadConfigLocked v ord ord' render s cfg discoveredRoutes =
     (case BuildRouteSnapshot v ord ord' render cfg discoveredRoutes of
        Inl e \<Rightarrow> Some (Some e, s\<lparr>srvMetrics := Reload (srvMetrics s) ReloadResultFailed\<rparr>)
      | Inr snapshot \<Rightarrow>
          (case updateRouteSnapshotLocked s snapshot of
             None \<Rightarrow> None
           | Some s' \<Rightarrow> Some (None, s'\<lparr>srvMetrics := Reload (srvMetrics s') ReloadResultSuccess\<rparr>)))"

definition ReloadFile ::
    "env \<Rightarrow> voice_order \<Rightarrow> voice_order \<Rightarrow> (error \<Rightarrow> string) \<Rightarrow> Config result \<Rightarrow> Server \<Rightarrow> (error option \<times> Server) option" where
  \<comment> \<open>the argument \<open>loaded\<close> is what \<open>config.LoadFile\<close> answers for the path\<close>
  "ReloadFile v ord ord' render loaded s =
     (case loaded of
        Inl e \<Rightarrow> Some (Some e, s\<lparr>srvMetrics := Reload (srvMetrics s) ReloadResultFailed\<rparr>)
      | Inr cfg \<Rightarrow> reloadConfigLocked v ord ord' render s cfg (ssDiscoveredRoutes (srvState s)))"

definition ReloadConfigWithDiscovery ::
    "env \<Rightarrow> voice_order \<Rightarrow> voice_order \<Rightarrow> (error \<Rightarrow> string) \<Rightarrow> Config \<Rightarrow> provider \<Rightarrow> Server \<Rightarrow> (error option \<times> Server) option" where
  "ReloadConfigWithDiscovery v ord ord' render cfg provider s =
     (case discoveredRoutesFromProvider provider of
        Inl e \<Rightarrow> Some (Some e, s\<lparr>srvMetrics := Reload (srvMetrics s) ReloadResultFailed\<rparr>)
      | Inr discoveredRoutes \<Rightarrow> reloadConfigLocked v ord ord' render s cfg discoveredRoutes)"

text \<open>
  \<open>ctx\<close> gives what the three tests of the context find: nothing, or the error of a context that is
  done. The time is that of the metrics.
\<close>

definition UpdateDiscoveredRoutes ::
    "env \<Rightarrow> voice_order \<Rightarrow> voice_order \<Rightarrow> (error \<Rightarrow> string) \<Rightarrow> (nat \<Rightarrow> error option) \<Rightarrow> int \<Rightarrow> provider \<Rightarrow> Server \<Rightarrow>
     (error option \<times> Server) option" where
  "UpdateDiscoveredRoutes v ord ord' render ctx unix provider s =
     (case ctx 0 of
        Some e \<Rightarrow> Some (Some e, s)
      | None \<Rightarrow>
          (case discoveredRoutesFromProvider provider of
             Inl e \<Rightarrow> Some (Some e, s\<lparr>srvMetrics := KubernetesDiscoveryError (srvMetrics s) KubernetesDiscoveryErrorReasonUnknown\<rparr>)
           | Inr discoveredRoutes \<Rightarrow>
               (case ctx 1 of
                  Some e \<Rightarrow> Some (Some e, s)
                | None \<Rightarrow>
                    (case BuildRouteSnapshot v ord ord' render (ssStaticConfig (srvState s)) discoveredRoutes of
                       Inl e \<Rightarrow> Some (Some e, s\<lparr>srvMetrics := KubernetesDiscoveryError (srvMetrics s) KubernetesDiscoveryErrorReasonRebuildFailed\<rparr>)
                     | Inr snapshot \<Rightarrow>
                         (case ctx 2 of
                            Some e \<Rightarrow> Some (Some e, s)
                          | None \<Rightarrow>
                              (case updateRouteSnapshotLocked s snapshot of
                                 None \<Rightarrow> None
                               | Some s' \<Rightarrow> Some (None, s'\<lparr>srvMetrics := KubernetesDiscoverySync (srvMetrics s') (length discoveredRoutes) unix\<rparr>)))))))"

definition UpdateRouteSnapshot :: "Server \<Rightarrow> RouteSnapshot \<Rightarrow> Server option" where
  "UpdateRouteSnapshot s snapshot = updateRouteSnapshotLocked s snapshot"

section \<open>What a snapshot guarantees\<close>

definition config_ok :: "env \<Rightarrow> Config \<Rightarrow> bool" where
  \<comment> \<open>valid, with the tokens of its voice backends, in whatever order maps are visited\<close>
  "config_ok v c \<longleftrightarrow> gm_wf (vcBackends (cVoiceChat c)) \<and> (\<forall>ord. range_order ord \<longrightarrow> Validate v ord c = (None, c))"

lemma Validate_config_ok:
  assumes "range_order ord" and "gm_wf (vcBackends (cVoiceChat c))" and "Validate v ord c = (None, c')"
  shows "config_ok v c'"
  unfolding config_ok_def
proof (intro conjI allI impI)
  show "gm_wf (vcBackends (cVoiceChat c'))" using Validate_voice_wf [OF assms(2), of v ord] assms(3) by simp
  show "Validate v ord' c' = (None, c')" if "range_order ord'" for ord'
    using assms(1) that assms(2,3) by (rule Validate_again)
qed

lemma Validate_routes_changed:
  assumes "Validate v ord c = (None, c)" and "routes_wf rs"
  shows "Validate v ord (c\<lparr>cRoutes := rs\<rparr>) = (None, c\<lparr>cRoutes := rs\<rparr>)"
proof -
  have "fst (Validate v ord (c\<lparr>cRoutes := rs\<rparr>)) = None"
    using assms Validate_None_iff [of v ord c] Validate_None_iff [of v ord "c\<lparr>cRoutes := rs\<rparr>"] by simp
  moreover have "snd (Validate v ord (c\<lparr>cRoutes := rs\<rparr>)) = c\<lparr>cRoutes := rs\<rparr>"
    using Validate_parts(9) [OF assms(1)] by (simp add: Validate_def Let_def)
  ultimately show ?thesis by (metis prod.collapse)
qed

lemma config_ok_routes: "config_ok v c \<Longrightarrow> routes_wf rs \<Longrightarrow> config_ok v (c\<lparr>cRoutes := rs\<rparr>)"
  by (simp add: config_ok_def Validate_routes_changed)

definition snapshot_ok :: "env \<Rightarrow> (error \<Rightarrow> string) \<Rightarrow> RouteSnapshot \<Rightarrow> bool" where
  "snapshot_ok v render sn \<longleftrightarrow>
     config_ok v (snStaticConfig sn) \<and> config_ok v (snConfig sn) \<and>
     snDiscoveryMerge sn = MergeRoutes render (cRoutes (snStaticConfig sn)) (snDiscoveredRoutes sn) (cDefaultRoute (snStaticConfig sn)) \<and>
     snConfig sn = (snStaticConfig sn)\<lparr>cRoutes := mrRoutes (snDiscoveryMerge sn)\<rparr> \<and>
     (\<exists>r. snRouter sn = Some r \<and> (\<forall>s. Select r s = select_spec (snConfig sn) s))"

lemma BuildRouteSnapshot_valid:
  assumes "range_order ord" and "range_order ord'" and "gm_wf (vcBackends (cVoiceChat cfg))"
    and valid: "Validate v ord cfg = (None, cfg1)"
  shows "\<exists>sn. BuildRouteSnapshot v ord ord' render cfg ds = Inr sn \<and> snapshot_ok v render sn \<and>
    snStaticConfig sn = cfg1 \<and> snDiscoveredRoutes sn = ds"
proof -
  have ok: "config_ok v cfg1" using Validate_config_ok assms by blast
  let ?m = "MergeRoutes render (cRoutes cfg1) ds (cDefaultRoute cfg1)"
  let ?c = "cfg1\<lparr>cRoutes := mrRoutes ?m\<rparr>"
  have "routes_wf (cRoutes cfg1)" using ok assms(1) Validate_parts(12) by (auto simp: config_ok_def)
  then have merged: "config_ok v ?c" using ok by (intro config_ok_routes merged_routes_wf)
  then obtain r where "Router_New v ord' ?c = Inr r" "\<forall>s. Select r s = select_spec ?c s"
    using Router_New_spec [of v ord' ?c ?c] assms(2) by (auto simp: config_ok_def)
  with valid ok merged show ?thesis by (simp add: BuildRouteSnapshot_def snapshot_ok_def Let_def)
qed

lemma BuildRouteSnapshot_error:
  assumes "range_order ord" and "range_order ord'" and "gm_wf (vcBackends (cVoiceChat cfg))"
    and "BuildRouteSnapshot v ord ord' render cfg ds = Inl e"
  shows "fst (Validate v ord cfg) = Some e"
proof (cases "fst (Validate v ord cfg)")
  case None
  then obtain cfg1 where "Validate v ord cfg = (None, cfg1)" by (cases "Validate v ord cfg") auto
  with BuildRouteSnapshot_valid [OF assms(1-3) this, of render ds] assms(4) show ?thesis by auto
next
  case (Some e')
  then have "BuildRouteSnapshot v ord ord' render cfg ds = Inl e'"
    by (cases "Validate v ord cfg") (simp add: BuildRouteSnapshot_def)
  with assms(4) Some show ?thesis by simp
qed

section \<open>The states a server reaches\<close>

definition state_ok :: "env \<Rightarrow> (error \<Rightarrow> string) \<Rightarrow> serverState \<Rightarrow> bool" where
  "state_ok v render st \<longleftrightarrow>
     snapshot_ok v render (stateToSnapshot st) \<and> 1 \<le> ssGeneration st \<and>
     Policy_New (cpAllow (cClientPolicy (ssCfg st))) (cpDeny (cClientPolicy (ssCfg st))) = Inr (ssClientPolicy st) \<and>
     ParseCIDRs (ppTrustedProxies (cProxyProtocol (ssCfg st))) = Inr (ssTrustedProxies st) \<and>
     lcfg (ssClientRateLimit st) = limiter_config (cClientRateLimit (ssCfg st)) \<and>
     sclConfig (ssScalerWebhook st) = scaler_config (cScalerWebhook (ssCfg st))"

definition server_ok :: "env \<Rightarrow> (error \<Rightarrow> string) \<Rightarrow> Server \<Rightarrow> bool" where
  "server_ok v render s \<longleftrightarrow> state_ok v render (srvState s) \<and> srvLimits s = DefaultLimits \<and> recorder_ok (srvMetrics s)"

lemma config_ok_listen: "config_ok v c \<Longrightarrow> cListen c \<noteq> ''''"
proof
  assume "config_ok v c" and "cListen c = ''''"
  then have "fst (Validate v (\<lambda>m. m) c) = None" by (simp add: config_ok_def)
  moreover have "if_err (TrimSpace (cListen c) = '''') ''listen must not be empty'' \<noteq> []" using \<open>cListen c = ''''\<close> by simp
  ultimately show False by (simp only: Validate_def Let_def case_prod_beta fst_conv errors_Join_None append_is_Nil_conv simp_thms)
qed

lemma config_ok_policy:
  assumes "config_ok v c"
  obtains policy proxies where "Policy_New (cpAllow (cClientPolicy c)) (cpDeny (cClientPolicy c)) = Inr policy"
    and "ParseCIDRs (ppTrustedProxies (cProxyProtocol c)) = Inr proxies"
proof -
  have valid: "Validate v (\<lambda>m. m) c = (None, c)" using assms by (simp add: config_ok_def)
  show thesis
    using Validate_parts(1,3) [OF valid] that by (auto simp: validateClientPolicy_def is_ok_iff split: sum.splits)
qed

lemma newServerState_ok:
  assumes "snapshot_ok v render sn" and "1 \<le> g" and "snRouter sn = Some r"
  shows "\<exists>st. newServerState g (snapshot_static sn) (snConfig sn) r (snDiscoveryMerge sn) (snDiscoveredRoutes sn) = Some st \<and>
    state_ok v render st \<and> ssGeneration st = g \<and> stateToSnapshot st = sn"
proof -
  have cfg: "config_ok v (snConfig sn)" "snapshot_static sn = snStaticConfig sn"
    using assms(1) config_ok_listen by (auto simp: snapshot_ok_def snapshot_static_def)
  obtain policy proxies where
    "Policy_New (cpAllow (cClientPolicy (snConfig sn))) (cpDeny (cClientPolicy (snConfig sn))) = Inr policy"
    "ParseCIDRs (ppTrustedProxies (cProxyProtocol (snConfig sn))) = Inr proxies"
    using config_ok_policy [OF cfg(1)] .
  then show ?thesis
    using assms cfg(2)
    by (cases sn) (simp add: newServerState_def state_ok_def stateToSnapshot_def Limiter_New_def scaler_New_def snapshot_ok_def)
qed

lemma newServer_ok:
  assumes "snapshot_ok v render sn"
  shows "\<exists>s. newServer sn unix = Some s \<and> server_ok v render s \<and> ssGeneration (srvState s) = 1"
proof -
  from assms obtain r where r: "snRouter sn = Some r" by (auto simp: snapshot_ok_def)
  from newServerState_ok [OF assms _ r, of 1] r show ?thesis
    by (auto simp: newServer_def server_ok_def Let_def intro!: recorder_ok_ops)
qed

lemma updateRouteSnapshotLocked_ok:
  assumes "server_ok v render s" and "snapshot_ok v render sn"
  shows "\<exists>s'. updateRouteSnapshotLocked s sn = Some s' \<and> server_ok v render s' \<and>
    ssGeneration (srvState s') = ssGeneration (srvState s) + 1 \<and> stateToSnapshot (srvState s') = sn \<and>
    srvListenAddress s' = srvListenAddress s"
proof -
  from assms(2) obtain r where r: "snRouter sn = Some r" by (auto simp: snapshot_ok_def)
  have "1 \<le> ssGeneration (srvState s) + 1" using assms(1) by (simp add: server_ok_def state_ok_def)
  from newServerState_ok [OF assms(2) this r] obtain st where
    st: "newServerState (ssGeneration (srvState s) + 1) (snapshot_static sn) (snConfig sn) r (snDiscoveryMerge sn) (snDiscoveredRoutes sn) = Some st"
    "state_ok v render st" "ssGeneration st = ssGeneration (srvState s) + 1" "stateToSnapshot st = sn" by blast
  have "updateRouteSnapshotLocked s sn =
      Some (s\<lparr>srvState := st, srvMetrics := SetConfig (srvMetrics s) (ssGeneration (srvState s) + 1) (snConfig sn)\<rparr>)"
    using st(1) r by (simp add: updateRouteSnapshotLocked_def Let_def)
  with st(2-4) assms(1) show ?thesis by (simp add: server_ok_def recorder_ok_ops)
qed

text \<open>
  The operations of a running server. The loaded or given configuration of a reload is what the
  YAML decoder made of a file, a map of Go, so its backends have distinct keys.
\<close>

datatype server_op =
    OpReloadFile voice_order voice_order "Config result"
  | OpReloadConfigWithDiscovery voice_order voice_order Config provider
  | OpUpdateDiscoveredRoutes voice_order voice_order "nat \<Rightarrow> error option" int provider

fun run_op :: "env \<Rightarrow> (error \<Rightarrow> string) \<Rightarrow> server_op \<Rightarrow> Server \<Rightarrow> (error option \<times> Server) option" where
  "run_op v render (OpReloadFile ord ord' loaded) s = ReloadFile v ord ord' render loaded s"
| "run_op v render (OpReloadConfigWithDiscovery ord ord' cfg provider) s = ReloadConfigWithDiscovery v ord ord' render cfg provider s"
| "run_op v render (OpUpdateDiscoveredRoutes ord ord' ctx unix provider) s = UpdateDiscoveredRoutes v ord ord' render ctx unix provider s"

fun op_wf :: "server_op \<Rightarrow> bool" where
  "op_wf (OpReloadFile ord ord' loaded) \<longleftrightarrow> range_order ord \<and> range_order ord' \<and>
     (case loaded of Inl _ \<Rightarrow> True | Inr cfg \<Rightarrow> gm_wf (vcBackends (cVoiceChat cfg)))"
| "op_wf (OpReloadConfigWithDiscovery ord ord' cfg provider) \<longleftrightarrow> range_order ord \<and> range_order ord' \<and> gm_wf (vcBackends (cVoiceChat cfg))"
| "op_wf (OpUpdateDiscoveredRoutes ord ord' ctx unix provider) \<longleftrightarrow> range_order ord \<and> range_order ord'"

inductive reachable :: "env \<Rightarrow> (error \<Rightarrow> string) \<Rightarrow> Server \<Rightarrow> bool" for v render where
  start: "range_order ord \<Longrightarrow> range_order ord' \<Longrightarrow> gm_wf (vcBackends (cVoiceChat cfg)) \<Longrightarrow>
     BuildRouteSnapshot v ord ord' render cfg ds = Inr sn \<Longrightarrow> newServer sn unix = Some s \<Longrightarrow> reachable v render s"
| step: "reachable v render s \<Longrightarrow> op_wf p \<Longrightarrow> run_op v render p s = Some (e, s') \<Longrightarrow> reachable v render s'"

definition op_atomic :: "env \<Rightarrow> (error \<Rightarrow> string) \<Rightarrow> Server \<Rightarrow> error option \<times> Server \<Rightarrow> bool" where
  \<comment> \<open>an operation that fails leaves the state, one that succeeds replaces it by the next generation\<close>
  "op_atomic v render s = (\<lambda>(e, s'). server_ok v render s' \<and> srvListenAddress s' = srvListenAddress s \<and>
     (case e of Some _ \<Rightarrow> srvState s' = srvState s | None \<Rightarrow> ssGeneration (srvState s') = ssGeneration (srvState s) + 1))"

lemma failed_op [simp]:
  "server_ok v render s \<Longrightarrow> op_atomic v render s (Some e, s\<lparr>srvMetrics := Reload (srvMetrics s) x\<rparr>)"
  "server_ok v render s \<Longrightarrow> op_atomic v render s (Some e, s\<lparr>srvMetrics := KubernetesDiscoveryError (srvMetrics s) x\<rparr>)"
  "server_ok v render s \<Longrightarrow> op_atomic v render s (Some e, s)"
  by (simp_all add: op_atomic_def server_ok_def recorder_ok_ops)

lemma updated_op:
  assumes "server_ok v render s" and "snapshot_ok v render sn"
  shows "\<exists>s'. updateRouteSnapshotLocked s sn = Some s' \<and>
    (\<forall>x. op_atomic v render s (None, s'\<lparr>srvMetrics := Reload (srvMetrics s') x\<rparr>)) \<and>
    (\<forall>n u. op_atomic v render s (None, s'\<lparr>srvMetrics := KubernetesDiscoverySync (srvMetrics s') n u\<rparr>))"
proof -
  from updateRouteSnapshotLocked_ok [OF assms] obtain s' where s': "updateRouteSnapshotLocked s sn = Some s'" "server_ok v render s'"
    "ssGeneration (srvState s') = ssGeneration (srvState s) + 1" "srvListenAddress s' = srvListenAddress s" by blast
  then show ?thesis by (intro exI [of _ s'] conjI allI) (simp_all add: op_atomic_def server_ok_def recorder_ok_ops)
qed

lemma reloadConfigLocked_total:
  assumes "server_ok v render s" and "range_order ord" and "range_order ord'" and "gm_wf (vcBackends (cVoiceChat cfg))"
  shows "\<exists>r. reloadConfigLocked v ord ord' render s cfg ds = Some r \<and> op_atomic v render s r"
proof (cases "BuildRouteSnapshot v ord ord' render cfg ds")
  case (Inl e)
  with assms(1) show ?thesis by (simp add: reloadConfigLocked_def)
next
  case (Inr sn)
  then obtain cfg1 where "Validate v ord cfg = (None, cfg1)"
    by (cases "Validate v ord cfg") (auto simp: BuildRouteSnapshot_def split: option.splits)
  from BuildRouteSnapshot_valid [OF assms(2-4) this, of render ds] Inr have "snapshot_ok v render sn" by auto
  with updated_op [OF assms(1), of sn] obtain s' where "updateRouteSnapshotLocked s sn = Some s'"
    "op_atomic v render s (None, s'\<lparr>srvMetrics := Reload (srvMetrics s') ReloadResultSuccess\<rparr>)" by meson
  then show ?thesis by (simp only: reloadConfigLocked_def Inr sum.case option.case) blast
qed

lemma UpdateDiscoveredRoutes_cases:
  fixes v ord ord' render ctx unix provider s
  defines "u \<equiv> UpdateDiscoveredRoutes v ord ord' render ctx unix provider s"
  shows "ctx 0 = Some e \<Longrightarrow> u = Some (Some e, s)"
    and "ctx 0 = None \<Longrightarrow> discoveredRoutesFromProvider provider = Inl e \<Longrightarrow>
      u = Some (Some e, s\<lparr>srvMetrics := KubernetesDiscoveryError (srvMetrics s) KubernetesDiscoveryErrorReasonUnknown\<rparr>)"
    and "ctx 0 = None \<Longrightarrow> discoveredRoutesFromProvider provider = Inr ds \<Longrightarrow> ctx 1 = Some e \<Longrightarrow> u = Some (Some e, s)"
    and "ctx 0 = None \<Longrightarrow> discoveredRoutesFromProvider provider = Inr ds \<Longrightarrow> ctx 1 = None \<Longrightarrow>
      BuildRouteSnapshot v ord ord' render (ssStaticConfig (srvState s)) ds = Inr sn \<Longrightarrow> ctx 2 = Some e \<Longrightarrow> u = Some (Some e, s)"
    and "ctx 0 = None \<Longrightarrow> discoveredRoutesFromProvider provider = Inr ds \<Longrightarrow> ctx 1 = None \<Longrightarrow>
      BuildRouteSnapshot v ord ord' render (ssStaticConfig (srvState s)) ds = Inr sn \<Longrightarrow> ctx 2 = None \<Longrightarrow>
      updateRouteSnapshotLocked s sn = Some s' \<Longrightarrow>
      u = Some (None, s'\<lparr>srvMetrics := KubernetesDiscoverySync (srvMetrics s') (length ds) unix\<rparr>)"
  unfolding u_def by (simp_all only: UpdateDiscoveredRoutes_def option.case sum.case)

lemma run_op_total:
  assumes ok: "server_ok v render s" and wf: "op_wf p"
  shows "\<exists>r. run_op v render p s = Some r \<and> op_atomic v render s r"
proof (cases p)
  case (OpReloadFile ord ord' loaded)
  with assms show ?thesis
    by (cases loaded) (simp_all add: ReloadFile_def reloadConfigLocked_total del: split_paired_Ex)
next
  case (OpReloadConfigWithDiscovery ord ord' cfg provider)
  with assms show ?thesis
    by (cases "discoveredRoutesFromProvider provider")
      (simp_all add: ReloadConfigWithDiscovery_def reloadConfigLocked_total del: split_paired_Ex)
next
  case (OpUpdateDiscoveredRoutes ord ord' ctx unix provider)
  let ?c = "ssStaticConfig (srvState s)"
  let ?u = "UpdateDiscoveredRoutes v ord ord' render ctx unix provider s"
  have c: "config_ok v ?c" using ok by (simp add: server_ok_def state_ok_def snapshot_ok_def stateToSnapshot_def)
  have ords: "range_order ord" "range_order ord'" using wf OpUpdateDiscoveredRoutes by auto
  with c have valid: "Validate v ord ?c = (None, ?c)" and wf: "gm_wf (vcBackends (cVoiceChat ?c))" by (auto simp: config_ok_def)
  note cases = UpdateDiscoveredRoutes_cases [where v = v and ord = ord and ord' = ord' and render = render and ctx = ctx and unix = unix
      and provider = provider and s = s]
  have "\<exists>r. ?u = Some r \<and> op_atomic v render s r"
  proof (cases "ctx 0")
    case c0: None
    show ?thesis
    proof (cases "discoveredRoutesFromProvider provider")
      case ds: (Inr ds)
      obtain sn where sn: "BuildRouteSnapshot v ord ord' render ?c ds = Inr sn" "snapshot_ok v render sn"
        using BuildRouteSnapshot_valid [OF ords wf valid] by blast
      obtain s' where s': "updateRouteSnapshotLocked s sn = Some s'"
        "op_atomic v render s (None, s'\<lparr>srvMetrics := KubernetesDiscoverySync (srvMetrics s') (length ds) unix\<rparr>)"
        using updated_op [OF ok sn(2)] by meson
      show ?thesis
      proof (cases "ctx 1")
        case c1: None
        show ?thesis
        proof (cases "ctx 2")
          case None
          show ?thesis by (rule exI, rule conjI [OF cases(5) [OF c0 ds c1 sn(1) None s'(1)] s'(2)])
        next
          case (Some e)
          show ?thesis by (rule exI, rule conjI [OF cases(4) [OF c0 ds c1 sn(1) Some] failed_op(3) [OF ok]])
        qed
      next
        case (Some e)
        show ?thesis by (rule exI, rule conjI [OF cases(3) [OF c0 ds Some] failed_op(3) [OF ok]])
      qed
    next
      case (Inl e)
      show ?thesis by (rule exI, rule conjI [OF cases(2) [OF c0 Inl] failed_op(2) [OF ok]])
    qed
  next
    case (Some e)
    show ?thesis by (rule exI, rule conjI [OF cases(1) [OF Some] failed_op(3) [OF ok]])
  qed
  then show ?thesis by (simp only: OpUpdateDiscoveredRoutes run_op.simps)
qed

lemma claims_static:
  assumes "routes_wf rs" and "r \<in> set rs" and "claims_host h r" shows "claims_host h (static_route r)"
proof -
  have "names_ok (identities r)" using assms(1,2) by (auto simp: routes_wf_def names_ok_def all_identities_def list_all_iff)
  from names_ok_normal_or [OF this] have "map normal (map normal_or (identities r)) = map normal (identities r)" by simp
  moreover have "identities (static_route r) = map normal_or (identities r)" by (simp add: identities_def static_route_def)
  ultimately have "map normal (identities (static_route r)) = map normal (identities r)" by simp
  then have "normal ` set (identities (static_route r)) = normal ` set (identities r)" by (metis set_map)
  with assms(3) show ?thesis by (simp add: claims_host_def)
qed

lemma find_claims:
  assumes "r \<in> set rs" and "claims_host h r" and "routes_wf rs" shows "List.find (claims_host h) rs = Some r"
  using assms
proof (induction rs)
  case (Cons x rs)
  have sep: "distinct (map normal (all_identities rs))" "normal ` set (identities x) \<inter> normal ` set (all_identities rs) = {}"
    and wf: "routes_wf rs"
    using Cons.prems(3) by (simp_all add: routes_wf_def all_identities_def)
  show ?case
  proof (cases "x = r")
    case False
    with Cons.prems(1) have "r \<in> set rs" by simp
    then have "set (identities r) \<subseteq> set (all_identities rs)" by (auto simp: all_identities_def)
    with Cons.prems(2) sep(2) have "\<not> claims_host h x" unfolding claims_host_def by blast
    with Cons.IH \<open>r \<in> set rs\<close> Cons.prems(2) wf show ?thesis by simp
  qed (use Cons.prems(2) in simp)
qed simp

lemma reachable_server_ok: "reachable v render s \<Longrightarrow> server_ok v render s"
proof (induction rule: reachable.induct)
  case (start ord ord' cfg ds sn unix s)
  then obtain cfg1 where "Validate v ord cfg = (None, cfg1)"
    by (cases "Validate v ord cfg") (auto simp: BuildRouteSnapshot_def split: option.splits)
  with start have "snapshot_ok v render sn"
    using BuildRouteSnapshot_valid [OF start(1-3), of v cfg1 render ds] by auto
  from newServer_ok [OF this, of unix] start(5) show ?case by auto
next
  case (step s p e s')
  from run_op_total [OF step.IH step.hyps(2)] step.hyps(3) show ?case by (auto simp: op_atomic_def)
qed

section \<open>Properties\<close>

text \<open>C31: discovery cannot break a configuration. A snapshot is refused exactly when the configuration
  itself is invalid, with the error of its validation; whatever routes are discovered, a valid
  configuration gives a snapshot, whose configuration is valid again, whose routes are the merge of
  the configured and the discovered ones, and whose table selects by these routes.\<close>

theorem snapshot_total:
  assumes "range_order ord" and "range_order ord'" and "gm_wf (vcBackends (cVoiceChat cfg))"
  shows "case BuildRouteSnapshot v ord ord' render cfg ds of
      Inl e \<Rightarrow> fst (Validate v ord cfg) = Some e
    | Inr sn \<Rightarrow> fst (Validate v ord cfg) = None \<and> Validate v ord' (snConfig sn) = (None, snConfig sn) \<and>
        cRoutes (snConfig sn) = mrRoutes (MergeRoutes render (cRoutes cfg) ds (cDefaultRoute cfg)) \<and>
        (\<exists>r. snRouter sn = Some r \<and> (\<forall>a. Select r a = select_spec (snConfig sn) a))"
proof (cases "BuildRouteSnapshot v ord ord' render cfg ds")
  case (Inl e)
  with BuildRouteSnapshot_error [OF assms] show ?thesis by simp
next
  case (Inr sn)
  then obtain cfg1 where valid: "Validate v ord cfg = (None, cfg1)"
    by (cases "Validate v ord cfg") (auto simp: BuildRouteSnapshot_def split: option.splits)
  have sn: "snapshot_ok v render sn" "snStaticConfig sn = cfg1" "snDiscoveredRoutes sn = ds"
    using BuildRouteSnapshot_valid [OF assms valid, of render ds] Inr by auto
  obtain vc where "cfg1 = cfg\<lparr>cVoiceChat := vc\<rparr>" using Validate_parts(13) [OF valid] by blast
  then have "cRoutes cfg1 = cRoutes cfg" "cDefaultRoute cfg1 = cDefaultRoute cfg" by simp_all
  then have "cRoutes (snConfig sn) = mrRoutes (MergeRoutes render (cRoutes cfg) ds (cDefaultRoute cfg))"
    using sn by (simp add: snapshot_ok_def)
  moreover have "Validate v ord' (snConfig sn) = (None, snConfig sn)" "\<exists>r. snRouter sn = Some r \<and> (\<forall>a. Select r a = select_spec (snConfig sn) a)"
    using sn(1) assms(2) unfolding snapshot_ok_def config_ok_def by blast+
  ultimately show ?thesis using Inr valid by simp
qed

theorem snapshot_total_witness:
  "\<exists>sn. BuildRouteSnapshot sample_env (\<lambda>m. m) (\<lambda>m. m) (\<lambda>_. '''') Defaults
      [\<lparr>drtHost = ''hub.example.com'', drtBackend = ''hub.mc.svc.cluster.local:25565''\<rparr>] = Inr sn"
proof -
  let ?d = "\<lparr>drtHost = ''hub.example.com'', drtBackend = ''hub.mc.svc.cluster.local:25565''\<rparr>"
  have "gm_wf (vcBackends (cVoiceChat Defaults))" by (simp add: Defaults_def)
  from snapshot_total [OF range_order_id range_order_id this, of sample_env "\<lambda>_. ''''" "[?d]"] show ?thesis
    by (auto simp: Validate_Defaults split: sum.splits)
qed

text \<open>C9: a running server never panics and its changes are atomic. In every state that reloads and
  discovery updates lead to, the routing table, the client policy and the trusted proxies are those
  of one valid configuration; each further operation returns, keeps the address it listens on, and
  either fails and leaves the routing state as it was, or replaces all of it as the next
  generation.\<close>

theorem server_operations_atomic:
  assumes "reachable v render s" and "op_wf p"
  shows "state_ok v render (srvState s) \<and>
    (\<exists>e s'. run_op v render p s = Some (e, s') \<and> state_ok v render (srvState s') \<and> srvListenAddress s' = srvListenAddress s \<and>
       (case e of Some _ \<Rightarrow> srvState s' = srvState s | None \<Rightarrow> ssGeneration (srvState s') = ssGeneration (srvState s) + 1))"
  using run_op_total [OF reachable_server_ok [OF assms(1)] assms(2)] reachable_server_ok [OF assms(1)]
  by (auto simp: op_atomic_def server_ok_def)

lemma sample_server: "\<exists>s. reachable sample_env (\<lambda>_. '''') s"
proof -
  have wf: "gm_wf (vcBackends (cVoiceChat Defaults))" by (simp add: Defaults_def)
  obtain sn where sn: "BuildRouteSnapshot sample_env (\<lambda>m. m) (\<lambda>m. m) (\<lambda>_. '''') Defaults [] = Inr sn"
      "snapshot_ok sample_env (\<lambda>_. '''') sn"
    using BuildRouteSnapshot_valid [OF range_order_id range_order_id wf Validate_Defaults] by blast
  obtain s where "newServer sn 0 = Some s" using newServer_ok [OF sn(2)] by blast
  with wf sn(1) show ?thesis by (blast intro: reachable.start [OF range_order_id range_order_id])
qed

theorem server_operations_atomic_witness:
  "\<exists>s e s'. reachable sample_env (\<lambda>_. '''') s \<and>
     run_op sample_env (\<lambda>_. '''') (OpUpdateDiscoveredRoutes (\<lambda>m. m) (\<lambda>m. m) (\<lambda>_. None) 0 None) s = Some (e, s')"
proof -
  obtain s where s: "reachable sample_env (\<lambda>_. '''') s" using sample_server by blast
  have "op_wf (OpUpdateDiscoveredRoutes (\<lambda>m. m) (\<lambda>m. m) (\<lambda>_. None) 0 None)" by simp
  from server_operations_atomic [OF s this] s show ?thesis by blast
qed

text \<open>C8: the configuration always wins. In every state a server reaches, an address that a
  configured route claims, by its server address or by an alias, is answered with that route and its
  backends, whatever has been discovered for the same name.\<close>

theorem configured_routes_win:
  assumes "reachable v render s" and "r \<in> set (cRoutes (ssStaticConfig (srvState s)))"
    and "Normalize a = Inr h" and "claims_host h r"
  shows "\<exists>sel. Select (ssRouter (srvState s)) a = Inr sel \<and> slBackend sel = rBackend r \<and>
    slStatusBackend sel = rStatusBackend r \<and> slStatusOverride sel = rStatusOverride r \<and> slRouteSource sel = RouteSourceStatic"
proof -
  let ?st = "srvState s" and ?rs = "cRoutes (ssStaticConfig (srvState s))"
  have ok: "snapshot_ok v render (stateToSnapshot ?st)"
    using reachable_server_ok [OF assms(1)] by (simp add: server_ok_def state_ok_def)
  then have select: "Select (ssRouter ?st) a = select_spec (ssCfg ?st) a" and cfg: "config_ok v (ssCfg ?st)"
    and merged: "cRoutes (ssCfg ?st) = mrRoutes (MergeRoutes render ?rs (ssDiscoveredRoutes ?st) (cDefaultRoute (ssStaticConfig ?st)))"
    by (auto simp: snapshot_ok_def stateToSnapshot_def)
  have "config_ok v (ssStaticConfig ?st)" using ok by (simp add: snapshot_ok_def stateToSnapshot_def)
  then have "routes_wf ?rs" using Validate_parts(12) [of v "\<lambda>m. m"] by (auto simp: config_ok_def)
  then have "static_route r \<in> set (cRoutes (ssCfg ?st))" "claims_host h (static_route r)"
    using assms(2,4) claims_static by (auto simp: merged MergeRoutes_result(1))
  moreover have "routes_wf (cRoutes (ssCfg ?st))" using cfg Validate_parts(12) [of v "\<lambda>m. m"] by (auto simp: config_ok_def)
  ultimately have "List.find (claims_host h) (cRoutes (ssCfg ?st)) = Some (static_route r)" by (intro find_claims)
  with select assms(3) show ?thesis by (simp add: select_spec_def static_route_def RouteSourceStatic_def)
qed

definition sample_route :: Route where
  "sample_route = \<lparr>rServerAddress = ''mc.example.com'', rAliases = [''play.example.com''], rBackend = ''hub.local:25565'',
     rStatusBackend = '''', rStatusOverride = None, rSource = ''''\<rparr>"

lemma sample_names:
  "Normalize ''mc.example.com'' = Inr ''mc.example.com''" "Normalize ''play.example.com'' = Inr ''play.example.com''"
proof -
  have "dns_name ''mc.example.com''" "dns_name ''play.example.com''" by code_simp+
  then show "Normalize ''mc.example.com'' = Inr ''mc.example.com''" "Normalize ''play.example.com'' = Inr ''play.example.com''"
    by (simp_all add: dns_name_canonical(1))
qed

lemma sample_route_wf: "routes_wf [sample_route]"
proof -
  have "dns_name ''hub.local''" by code_simp
  moreover have "all_digits ''25565''" by code_simp
  moreover have "decimal ''25565'' = 25565" by (simp add: decimal_def digit_val_def)
  ultimately have "validateBackend (JoinHostPort ''hub.local'' ''25565'') = None" by (intro validateBackend_host_port) simp_all
  moreover have "JoinHostPort ''hub.local'' ''25565'' = ''hub.local:25565''" by (simp add: JoinHostPort_def)
  ultimately have "validateBackend ''hub.local:25565'' = None" by simp
  then show ?thesis
    by (simp add: routes_wf_def all_identities_def identities_def sample_route_def sample_names normal_def route_wf_def validateStatusOverride_def)
qed

lemma sample_routed_server:
  "\<exists>s. reachable sample_env (\<lambda>_. '''') s \<and> cRoutes (ssStaticConfig (srvState s)) = [sample_route]"
proof -
  let ?c = "Defaults\<lparr>cRoutes := [sample_route]\<rparr>"
  have wf: "gm_wf (vcBackends (cVoiceChat ?c))" by (simp add: Defaults_def)
  have valid: "Validate sample_env (\<lambda>m. m) ?c = (None, ?c)"
    using Validate_Defaults sample_route_wf by (rule Validate_routes_changed)
  obtain sn where sn: "BuildRouteSnapshot sample_env (\<lambda>m. m) (\<lambda>m. m) (\<lambda>_. '''') ?c [] = Inr sn"
      "snapshot_ok sample_env (\<lambda>_. '''') sn" "snStaticConfig sn = ?c"
    using BuildRouteSnapshot_valid [OF range_order_id range_order_id wf valid] by blast
  from sn(2) obtain r where r: "snRouter sn = Some r" by (auto simp: snapshot_ok_def)
  from newServerState_ok [OF sn(2) _ r, of 1] obtain st where
    "newServerState 1 (snapshot_static sn) (snConfig sn) r (snDiscoveryMerge sn) (snDiscoveredRoutes sn) = Some st"
    and st: "stateToSnapshot st = sn" by auto
  then obtain s where s: "newServer sn 0 = Some s" "srvState s = st" using r by (simp add: newServer_def Let_def)
  have "snStaticConfig (stateToSnapshot st) = ?c" using st sn(3) by simp
  then have "cRoutes (ssStaticConfig st) = [sample_route]" by (simp add: stateToSnapshot_def)
  moreover have "reachable sample_env (\<lambda>_. '''') s" using wf sn(1) s(1) by (rule reachable.start [OF range_order_id range_order_id])
  ultimately show ?thesis using s(2) by blast
qed

theorem configured_routes_win_witness:
  "\<exists>s sel. reachable sample_env (\<lambda>_. '''') s \<and> Select (ssRouter (srvState s)) ''play.example.com'' = Inr sel \<and>
     slBackend sel = ''hub.local:25565''"
proof -
  obtain s where s: "reachable sample_env (\<lambda>_. '''') s" "cRoutes (ssStaticConfig (srvState s)) = [sample_route]"
    using sample_routed_server by blast
  have "claims_host ''play.example.com'' sample_route"
    by (simp add: claims_host_def identities_def sample_route_def sample_names normal_def)
  with configured_routes_win [OF s(1), of sample_route] s sample_names(2) show ?thesis
    by (fastforce simp: sample_route_def)
qed

end
