(* ===== verification/Conn.thy ===== *)
theory Conn
  imports Proxy
begin

text \<open>
  One client connection, the second part of \<open>internal/proxy/server.go\<close>: \<open>handleConn\<close> with the
  fallbacks and the proxying of bytes. A connection is what will be read from it, what has been
  written to it, and how its calls of \<open>Write\<close> and \<open>SetReadDeadline\<close> turn out; a read deadline that
  passes is a time-out at the end of what can be read. Dialling, the HTTP client, the clock and the
  scheduling of the two copying goroutines are parameters (\<open>world\<close>). Log lines are not modelled.
\<close>

section \<open>Connections\<close>

datatype net_addr = TCPAddr bytes | OtherAddr string

record writer =
  wrOut :: bytes
  wrScript :: "(nat \<times> error option) list"

definition Write :: "writer \<Rightarrow> bytes \<Rightarrow> (nat \<times> error option) \<times> writer" where
  \<comment> \<open>the outcomes of the next calls are scripted: how many bytes at most and which error; then all
      bytes are accepted\<close>
  "Write w data =
     (case wrScript w of
        [] \<Rightarrow> ((length data, None), w\<lparr>wrOut := wrOut w @ data\<rparr>)
      | (n, err) # rest \<Rightarrow>
          (let k = min n (length data) in ((k, err), w\<lparr>wrOut := wrOut w @ take k data, wrScript := rest\<rparr>)))"

function writeAll :: "writer \<Rightarrow> bytes \<Rightarrow> error option \<times> writer" where
  "writeAll w data =
     (if data = [] then (None, w)
      else (case Write w data of
              ((n, err), w') \<Rightarrow>
                (case err of
                   Some e \<Rightarrow> (Some e, w')
                 | None \<Rightarrow> if n = 0 then (Some [ErrShortWrite], w') else writeAll w' (drop n data))))"
  by pat_completeness auto
termination
  by (relation "measure (\<lambda>(w, data). length data)") auto

declare writeAll.simps [simp del]

record conn =
  cnRemote :: net_addr
  cnIn :: reader
  cnOut :: writer
  cnDeadlines :: "error option list"

definition SetReadDeadline :: "conn \<Rightarrow> error option \<times> conn" where
  "SetReadDeadline c = (case cnDeadlines c of [] \<Rightarrow> (None, c) | e # es \<Rightarrow> (e, c\<lparr>cnDeadlines := es\<rparr>))"

definition conn_write :: "conn \<Rightarrow> bytes \<Rightarrow> error option \<times> conn" where
  "conn_write c data = (let (e, w) = writeAll (cnOut c) data in (e, c\<lparr>cnOut := w\<rparr>))"

definition conn_ReadPacket :: "conn \<Rightarrow> int32 \<Rightarrow> (int32 \<times> bytes) result \<times> conn" where
  "conn_ReadPacket c maxLen = (let (p, r) = ReadPacket (cnIn c) maxLen in (p, c\<lparr>cnIn := r\<rparr>))"

definition addressFromAddr :: "net_addr \<Rightarrow> addr result" where
  "addressFromAddr a =
     (case a of
        TCPAddr ip \<Rightarrow>
          (case AddrFromSlice ip of
             None \<Rightarrow> Inl [Msg ''parse client TCP address'']
           | Some parsed \<Rightarrow> Inr (Unmap parsed))
      | OtherAddr text \<Rightarrow>
          (case SplitHostPort text of
             Inl e \<Rightarrow> Inl (Msg ''split client address'' # e)
           | Inr (host, _) \<Rightarrow>
               (case ParseAddr host of
                  Inl e \<Rightarrow> Inl (Msg ''parse client address'' # e)
                | Inr parsed \<Rightarrow> Inr (Unmap parsed))))"

section \<open>Decisions\<close>

definition isTimeout :: "error \<Rightarrow> bool" where
  "isTimeout err \<longleftrightarrow> errors_Is err TimeoutErr"

definition classifyDialError :: "error \<Rightarrow> string" where
  "classifyDialError err =
     (if errors_Is err ContextCanceled then ReasonContextCancelled
      else if errors_Is err ContextDeadlineExceeded \<or> isTimeout err then ReasonBackendDialTimeout
      else ReasonBackendDialFailed)"

definition closeReasonForDirection :: "string \<Rightarrow> string" where
  "closeReasonForDirection direction = (if direction = ''backend_to_client'' then ReasonBackendClose else ReasonClientClose)"

definition routeDecisionResult :: "string \<Rightarrow> string" where
  "routeDecisionResult matchedBy = (if matchedBy = ''default'' then RouteDecisionDefault else RouteDecisionMatched)"

definition intentName :: "int32 \<Rightarrow> string" where
  "intentName nextState =
     (if nextState = NextStateStatus then ''status'' else if nextState = NextStateLogin then ''login''
      else if nextState = NextStateTransfer then ''transfer'' else ''unknown'')"

definition handshakeErrorKind :: "error \<Rightarrow> string" where
  "handshakeErrorKind err =
     (if errors_Is err ErrInvalid then ''handshake_invalid_server_address''
      else if errors_Is err ErrPacketTooLarge then ''handshake_packet_too_large''
      else if errors_Is err ErrUnsupportedNextState then ''handshake_unsupported_next_state''
      else ''handshake_malformed'')"

definition routeSelectionErrorKind :: "error \<Rightarrow> string" where
  "routeSelectionErrorKind err =
     (if errors_Is err ErrInvalidServerAddress then ''route_address_invalid''
      else if errors_Is err ErrNoRoute then ''route_not_found''
      else ''route_selection_failed'')"

definition selectedBackend :: "Handshake \<Rightarrow> Selection \<Rightarrow> string \<times> string" where
  "selectedBackend handshake selection =
     (if NextState handshake = NextStateStatus \<and> slStatusBackend selection \<noteq> ''''
      then (slStatusBackend selection, ''status_backend'')
      else (slBackend selection, ''backend''))"

definition statusFallbackEnabled :: "Config \<Rightarrow> Handshake \<Rightarrow> bool" where
  "statusFallbackEnabled cfg handshake \<longleftrightarrow>
     fbEnabled (cFallback cfg) \<and> fsEnabled (fbStatus (cFallback cfg)) \<and> NextState handshake = NextStateStatus"

definition statusFallbackForRouteDeniedEnabled :: "Config \<Rightarrow> Handshake \<Rightarrow> bool" where
  "statusFallbackForRouteDeniedEnabled cfg handshake =
     (if \<not> statusFallbackEnabled cfg handshake then False
      else (case fsRespondOnRouteDenied (fbStatus (cFallback cfg)) of None \<Rightarrow> True | Some b \<Rightarrow> b))"

definition statusFallbackForBackendFailureEnabled :: "Config \<Rightarrow> Handshake \<Rightarrow> string \<Rightarrow> bool" where
  "statusFallbackForBackendFailureEnabled cfg handshake reason =
     (if \<not> statusFallbackEnabled cfg handshake \<or> \<not> fsRespondOnBackendFailure (fbStatus (cFallback cfg)) then False
      else reason = ReasonBackendDialFailed \<or> reason = ReasonBackendDialTimeout)"

definition loginFallbackEnabled :: "Config \<Rightarrow> Handshake \<Rightarrow> bool" where
  "loginFallbackEnabled cfg handshake \<longleftrightarrow>
     fbEnabled (cFallback cfg) \<and> flEnabled (fbLogin (cFallback cfg)) \<and> NextState handshake = NextStateLogin"

definition loginFallbackForRouteDeniedEnabled :: "Config \<Rightarrow> Handshake \<Rightarrow> bool" where
  "loginFallbackForRouteDeniedEnabled cfg handshake =
     (if \<not> loginFallbackEnabled cfg handshake then False
      else (case flRespondOnRouteDenied (fbLogin (cFallback cfg)) of None \<Rightarrow> True | Some b \<Rightarrow> b))"

section \<open>Answers of the gateway itself\<close>

definition read_status_request :: "Limits \<Rightarrow> conn \<Rightarrow> error option \<times> conn" where
  \<comment> \<open>the deadline and the status request that both status answers begin with\<close>
  "read_status_request limits client =
     (case SetReadDeadline client of
        (Some e, c) \<Rightarrow> (Some e, c)
      | (None, c) \<Rightarrow>
          (case conn_ReadPacket c (MaxPacketLength limits) of
             (Inl e, c') \<Rightarrow> (Some e, c')
           | (Inr (packetID, payload), c') \<Rightarrow>
               if packetID \<noteq> StatusRequestPacketID \<or> length payload \<noteq> 0 then (Some [Msg ''malformed status request''], c')
               else (None, c')))"

definition answer_status_ping :: "Limits \<Rightarrow> conn \<Rightarrow> error option \<times> conn" where
  \<comment> \<open>the deadline, the ping and the pong that both end with\<close>
  "answer_status_ping limits client =
     (case SetReadDeadline client of
        (Some e, c) \<Rightarrow> (Some e, c)
      | (None, c) \<Rightarrow>
          (case conn_ReadPacket c (MaxPacketLength limits) of
             (Inl e, c') \<Rightarrow> if errors_Is e EOF \<or> isTimeout e then (None, c') else (Some e, c')
           | (Inr (packetID, payload), c') \<Rightarrow>
               if packetID \<noteq> StatusPingPacketID \<or> length payload \<noteq> 8 then (Some [Msg ''malformed status ping''], c')
               else conn_write c' (BuildStatusPongPacket payload)))"

definition serveStatusOverride :: "Limits \<Rightarrow> conn \<Rightarrow> StatusOverride \<Rightarrow> error option \<times> conn" where
  "serveStatusOverride limits client override =
     (case read_status_request limits client of
        (Some e, c1) \<Rightarrow> (Some e, c1)
      | (None, c1) \<Rightarrow>
          (let response = BuildStatusResponsePacket
                 \<lparr>srVersion = \<lparr>svName = soProtocolName override, svProtocol = soProtocolVersion override\<rparr>,
                  srPlayers = \<lparr>spMax = soMaxPlayers override, spOnline = soOnlinePlayers override\<rparr>,
                  srDescription = \<lparr>ccText = soMOTD override\<rparr>\<rparr>
           in case conn_write c1 response of
                (Some e, c2) \<Rightarrow> (Some e, c2)
              | (None, c2) \<Rightarrow> answer_status_ping limits c2))"

definition serveStatusFallback :: "Limits \<Rightarrow> Recorder \<Rightarrow> conn \<Rightarrow> Config \<Rightarrow> string \<Rightarrow> error option \<times> conn \<times> Recorder" where
  "serveStatusFallback limits metrics client cfg reason =
     (case read_status_request limits client of
        (Some e, c1) \<Rightarrow> (Some e, c1, metrics)
      | (None, c1) \<Rightarrow>
          (let st = fbStatus (cFallback cfg);
               response = BuildStatusResponsePacket
                 \<lparr>srVersion = \<lparr>svName = fsProtocolName st, svProtocol = fsProtocolVersion st\<rparr>,
                  srPlayers = \<lparr>spMax = fsMaxPlayers st, spOnline = fsOnlinePlayers st\<rparr>,
                  srDescription = \<lparr>ccText = fsMOTD st\<rparr>\<rparr>
           in case conn_write c1 response of
                (Some e, c2) \<Rightarrow> (Some e, c2, metrics)
              | (None, c2) \<Rightarrow>
                  (let (e, c3) = answer_status_ping limits c2 in (e, c3, FallbackResponse metrics FallbackStateStatus reason))))"

definition serveLoginDisconnectFallback :: "Limits \<Rightarrow> Recorder \<Rightarrow> conn \<Rightarrow> Config \<Rightarrow> Handshake \<Rightarrow> error option \<times> conn \<times> Recorder" where
  "serveLoginDisconnectFallback limits metrics client cfg handshake =
     (case SetReadDeadline client of
        (Some e, c) \<Rightarrow> (Some e, c, metrics)
      | (None, c) \<Rightarrow>
          (case conn_ReadPacket c (MaxPacketLength limits) of
             (Inl e, c1) \<Rightarrow> (Some e, c1, metrics)
           | (Inr (packetID, payload), c1) \<Rightarrow>
               if packetID \<noteq> LoginStartPacketID then (Some [Msg ''malformed login start''], c1, metrics)
               else (case ValidateLoginStartPayload (ProtocolVersion handshake) payload of
                       Some e \<Rightarrow> (Some e, c1, metrics)
                     | None \<Rightarrow>
                         (case BuildLoginDisconnectPacket (ProtocolVersion handshake) (flMessage (fbLogin (cFallback cfg))) of
                            Inl e \<Rightarrow> (Some e, c1, metrics)
                          | Inr response \<Rightarrow>
                              (case conn_write c1 response of
                                 (Some e, c2) \<Rightarrow> (Some e, c2, metrics)
                               | (None, c2) \<Rightarrow> (None, c2, FallbackResponse metrics FallbackStateLogin ReasonRouteDenied))))))"

section \<open>Proxying\<close>

record proxyResult =
  prReason :: string
  prDirection :: string
  prBytesCopied :: nat

datatype first_event = FirstContext | FirstClientToBackend | FirstBackendToClient

text \<open>
  The scheduler decides which event ends the proxying and how many bytes each direction has moved by
  then; \<open>io.Copy\<close> moves a prefix of what its source yields.
\<close>

record schedule =
  schFirst :: first_event
  schToBackend :: nat
  schToClient :: nat

definition copyAndClose :: "string \<Rightarrow> nat \<Rightarrow> conn \<Rightarrow> conn \<Rightarrow> proxyResult \<times> conn" where
  \<comment> \<open>the result sent on the channel and the destination\<close>
  "copyAndClose direction moved dst src =
     (let data = take moved (rdata (cnIn src)) in
      (\<lparr>prReason = closeReasonForDirection direction, prDirection = direction, prBytesCopied = length data\<rparr>,
       dst\<lparr>cnOut := (cnOut dst)\<lparr>wrOut := wrOut (cnOut dst) @ data\<rparr>\<rparr>))"

definition proxy :: "schedule \<Rightarrow> conn \<Rightarrow> conn \<Rightarrow> proxyResult \<times> conn \<times> conn" where
  \<comment> \<open>the result, the client and the backend\<close>
  "proxy sch client backend =
     (let (toBackend, backend') = copyAndClose ''client_to_backend'' (schToBackend sch) backend client;
          (toClient, client') = copyAndClose ''backend_to_client'' (schToClient sch) client backend;
          result = (case schFirst sch of
             FirstContext \<Rightarrow> \<lparr>prReason = ReasonContextCancelled, prDirection = '''', prBytesCopied = 0\<rparr>
           | FirstClientToBackend \<Rightarrow> toBackend
           | FirstBackendToClient \<Rightarrow> toClient)
      in (result, client', backend'))"

section \<open>A connection\<close>

record world =
  wNow :: int
  wOrd :: "buckets \<Rightarrow> buckets"
  wHTTP :: http_client
  wHeaderOrd :: "(string \<times> string) list \<Rightarrow> (string \<times> string) list"
  wDial :: "string \<Rightarrow> conn result"
  wSchedule :: schedule
  wDuration :: int
  wDialDuration :: int

text \<open>
  What a connection leaves behind: the server, the client, the backend connection if one was made,
  the addresses dialled, the webhook requests sent, and the result and reason it is counted under.
\<close>

record outcome =
  hoServer :: Server
  hoClient :: conn
  hoBackend :: "conn option"
  hoDialed :: "string list"
  hoRequests :: "http_request list"
  hoResult :: string
  hoReason :: string

definition set_metrics :: "Server \<Rightarrow> Recorder \<Rightarrow> Server" where
  "set_metrics s m = s\<lparr>srvMetrics := m\<rparr>"

definition ended :: "Server \<Rightarrow> conn \<Rightarrow> string \<Rightarrow> string \<Rightarrow> outcome" where
  \<comment> \<open>an early return: nothing dialled\<close>
  "ended s client result reason =
     \<lparr>hoServer = s, hoClient = client, hoBackend = None, hoDialed = [], hoRequests = [], hoResult = result, hoReason = reason\<rparr>"

definition handleConn_backend :: "world \<Rightarrow> Server \<Rightarrow> conn \<Rightarrow> Handshake \<Rightarrow> bytes \<Rightarrow> string \<Rightarrow> Selection \<Rightarrow> outcome" where
  \<comment> \<open>from the choice of the backend on\<close>
  "handleConn_backend w s client handshake rawHandshake routeAddress selection =
     (let state = srvState s;
          (backendAddress, backendRole) = selectedBackend handshake selection;
          (notifyErr, requests) = Notify (wHTTP w) (wHeaderOrd w) (ssScalerWebhook state)
             \<lparr>evBackend = backendAddress, evServerAddress = routeAddress, evNextState = NextState handshake\<rparr>
      in case wDial w backendAddress of
           Inl err \<Rightarrow>
             (let reason = classifyDialError err;
                  m1 = BackendDialFinished (srvMetrics s) ConnectionResultFailed reason (wDialDuration w);
                  (client', m2) =
                    (if statusFallbackForBackendFailureEnabled (ssCfg state) handshake reason
                     then (let (e, c, m) = serveStatusFallback (srvLimits s) m1 client (ssCfg state) reason in (c, m))
                     else (client, m1))
              in \<lparr>hoServer = set_metrics s m2, hoClient = client', hoBackend = None, hoDialed = [backendAddress],
                  hoRequests = requests, hoResult = ConnectionResultFailed, hoReason = reason\<rparr>)
         | Inr backend \<Rightarrow>
             (let s1 = set_metrics s (BackendDialFinished (srvMetrics s) ReasonSuccess ReasonSuccess (wDialDuration w)) in
              case conn_write backend rawHandshake of
                (Some e, backend') \<Rightarrow>
                  \<lparr>hoServer = s1, hoClient = client, hoBackend = Some backend', hoDialed = [backendAddress],
                   hoRequests = requests, hoResult = ConnectionResultFailed, hoReason = ReasonInitialWriteFailed\<rparr>
              | (None, backend') \<Rightarrow>
                  (let (result, client', backend'') = proxy (wSchedule w) client backend' in
                   \<lparr>hoServer = s1, hoClient = client', hoBackend = Some backend'', hoDialed = [backendAddress],
                    hoRequests = requests, hoResult = ConnectionResultClosed, hoReason = prReason result\<rparr>)))"

definition handleConn_denied :: "Server \<Rightarrow> conn \<Rightarrow> Handshake \<Rightarrow> outcome" where
  \<comment> \<open>no route was selected\<close>
  "handleConn_denied s client handshake =
     (let cfg = ssCfg (srvState s);
          m1 = RouteDecision (srvMetrics s) RouteDecisionDenied;
          (client', m2) =
            (if statusFallbackForRouteDeniedEnabled cfg handshake
             then (let (e, c, m) = serveStatusFallback (srvLimits s) m1 client cfg ReasonRouteDenied in (c, m))
             else if loginFallbackForRouteDeniedEnabled cfg handshake
             then (let (e, c, m) = serveLoginDisconnectFallback (srvLimits s) m1 client cfg handshake in (c, m))
             else (client, m1))
      in ended (set_metrics s m2) client' ConnectionResultDenied ReasonRouteDenied)"

definition handleConn_routed :: "world \<Rightarrow> Server \<Rightarrow> conn \<Rightarrow> Handshake \<Rightarrow> bytes \<Rightarrow> outcome" where
  \<comment> \<open>from the selection of the route on\<close>
  "handleConn_routed w s client handshake rawHandshake =
     (let routeAddress = RouteAddress handshake in
      case Select (ssRouter (srvState s)) routeAddress of
        Inl e \<Rightarrow> handleConn_denied s client handshake
      | Inr selection \<Rightarrow>
          (let s1 = set_metrics s (RouteDecision (srvMetrics s) (routeDecisionResult (slMatchedBy selection))) in
           case (if NextState handshake = NextStateStatus then slStatusOverride selection else None) of
             Some override \<Rightarrow>
               (case serveStatusOverride (srvLimits s) client override of
                  (Some e, client') \<Rightarrow> ended s1 client' ConnectionResultFailed metrics_ReasonUnknown
                | (None, client') \<Rightarrow> ended s1 client' ConnectionResultClosed ReasonSuccess)
           | None \<Rightarrow> handleConn_backend w s1 client handshake rawHandshake routeAddress selection))"

definition handleConn_handshake :: "world \<Rightarrow> Server \<Rightarrow> conn \<Rightarrow> outcome" where
  \<comment> \<open>from the handshake deadline on\<close>
  "handleConn_handshake w s client =
     (case SetReadDeadline client of
        (Some e, c1) \<Rightarrow> ended s c1 ConnectionResultFailed metrics_ReasonUnknown
      | (None, c1) \<Rightarrow>
          (case ReadHandshake (cnIn c1) (srvLimits s) of
             (Inl err, _, r) \<Rightarrow>
               ended s (c1\<lparr>cnIn := r\<rparr>) ConnectionResultDenied (if isTimeout err then ReasonHandshakeTimeout else ReasonHandshakeMalformed)
           | (Inr handshake, rawHandshake, r) \<Rightarrow>
               (case SetReadDeadline (c1\<lparr>cnIn := r\<rparr>) of
                  (Some e, c2) \<Rightarrow> ended s c2 ConnectionResultFailed metrics_ReasonUnknown
                | (None, c2) \<Rightarrow> handleConn_routed w s c2 handshake rawHandshake)))"

definition client_identity :: "serverState \<Rightarrow> conn \<Rightarrow> (addr result + error) \<times> conn" where
  \<comment> \<open>the address of the client; \<open>Inr\<close> is a PROXY header that could not be read\<close>
  "client_identity state client =
     (case addressFromAddr (cnRemote client) of
        Inl e \<Rightarrow> (Inl (Inl e), client)
      | Inr a \<Rightarrow>
          if Trusted (ssTrustedProxies state) a then
            (case Read (cnIn client) of
               (Inl e, r) \<Rightarrow> (Inr e, client\<lparr>cnIn := r\<rparr>)
             | (Inr source, r) \<Rightarrow> (Inl (Inr source), client\<lparr>cnIn := r\<rparr>))
          else (Inl (Inr a), client))"

definition handleConn_body :: "world \<Rightarrow> Server \<Rightarrow> conn \<Rightarrow> outcome" where
  "handleConn_body w s0 client =
     (let state = srvState s0; s = s0\<lparr>srvConnectionSeq := srvConnectionSeq s0 + 1\<rparr> in
      case client_identity state client of
        (Inr e, c1) \<Rightarrow> ended s c1 ConnectionResultDenied ReasonHandshakeMalformed
      | (Inl (Inl e), c1) \<Rightarrow> ended s c1 ConnectionResultDenied ReasonClientDenied
      | (Inl (Inr clientAddr), c1) \<Rightarrow>
          if \<not> Allows (ssClientPolicy state) clientAddr then ended s c1 ConnectionResultDenied ReasonClientDenied
          else (case Allow (wOrd w) (ssClientRateLimit state) clientAddr (wNow w) of
                  (admit, limiter) \<Rightarrow>
                    (let s1 = s\<lparr>srvState := state\<lparr>ssClientRateLimit := limiter\<rparr>\<rparr> in
                     if \<not> admit then ended s1 c1 ConnectionResultDenied ReasonRateLimited
                     else handleConn_handshake w s1 c1)))"

definition handleConn :: "world \<Rightarrow> Server \<Rightarrow> conn \<Rightarrow> outcome" where
  "handleConn w s client =
     (let r = handleConn_body w (set_metrics s (ConnectionAccepted (srvMetrics s))) client in
      r\<lparr>hoServer := set_metrics (hoServer r) (ConnectionFinished (srvMetrics (hoServer r)) (hoResult r) (hoReason r) (wDuration w))\<rparr>)"

section \<open>What is read and written\<close>

lemma writeAll_prefix:
  "writeAll w data = (e, w') \<Longrightarrow> \<exists>n. n \<le> length data \<and> wrOut w' = wrOut w @ take n data \<and> (e = None \<longrightarrow> n = length data)"
proof (induction w data arbitrary: e w' rule: writeAll.induct)
  case (1 w data)
  show ?case
  proof (cases "data = []")
    case True
    with "1.prems" show ?thesis by (auto simp: writeAll.simps)
  next
    case False
    obtain n err w1 where W: "Write w data = ((n, err), w1)" by (cases "Write w data") auto
    have n: "n \<le> length data" "wrOut w1 = wrOut w @ take n data"
      using W by (auto simp: Write_def Let_def split: list.splits)
    show ?thesis
    proof (cases "err = None \<and> n \<noteq> 0")
      case True
      then have rec: "writeAll w1 (drop n data) = (e, w')"
        using "1.prems" False W by (simp add: writeAll.simps [of w])
      obtain k where k: "k \<le> length (drop n data)" "wrOut w' = wrOut w1 @ take k (drop n data)" "e = None \<longrightarrow> k = length (drop n data)"
        using "1.IH" [OF False W [symmetric] refl _ _ rec] True by blast
      have "wrOut w' = wrOut w @ take (n + k) data" using n k(2) by (simp add: take_add)
      with k n show ?thesis by (intro exI [of _ "n + k"]) auto
    next
      case False
      then have "e \<noteq> None \<and> w' = w1"
        using "1.prems" \<open>data \<noteq> []\<close> W by (auto simp: writeAll.simps [of w] split: option.splits if_splits)
      with n show ?thesis by auto
    qed
  qed
qed

lemma conn_write_simps:
  assumes "conn_write c data = (e, c')"
  shows "cnIn c' = cnIn c" and "cnRemote c' = cnRemote c"
    and "\<exists>n. n \<le> length data \<and> wrOut (cnOut c') = wrOut (cnOut c) @ take n data \<and> (e = None \<longrightarrow> n = length data)"
  using assms writeAll_prefix [of "cnOut c" data] by (auto simp: conn_write_def split: prod.splits)

lemma SetReadDeadline_simps:
  assumes "SetReadDeadline c = (e, c')" shows "cnIn c' = cnIn c" and "cnOut c' = cnOut c" and "cnRemote c' = cnRemote c"
  using assms by (auto simp: SetReadDeadline_def split: list.splits)

lemma client_identity_reads:
  assumes "client_identity st c = (Inl (Inr a), c1)"
  shows "\<exists>header. rdata (cnIn c) = header @ rdata (cnIn c1)" and "cnOut c1 = cnOut c"
proof -
  obtain p where p: "addressFromAddr (cnRemote c) = Inr p" using assms by (auto simp: client_identity_def split: sum.splits)
  show "\<exists>header. rdata (cnIn c) = header @ rdata (cnIn c1)"
  proof (cases "Trusted (ssTrustedProxies st) p")
    case True
    with assms p obtain r where "Read (cnIn c) = (Inr a, r)" "c1 = c\<lparr>cnIn := r\<rparr>"
      by (auto simp: client_identity_def split: sum.splits prod.splits)
    with proxy.takes_prefix [of "cnIn c" a r] show ?thesis by auto
  qed (use assms p in \<open>auto simp: client_identity_def\<close>)
  show "cnOut c1 = cnOut c" using assms by (auto simp: client_identity_def split: sum.splits prod.splits if_splits)
qed

lemma client_identity_out: "cnOut (snd (client_identity st c)) = cnOut c"
  by (auto simp: client_identity_def split: sum.split prod.split)

text \<open>The metrics of a connection: everything but its beginning and its end leaves the gauge alone.\<close>

lemma active_other [simp]:
  "gauge activeConnections (BackendDialFinished r a b d) = gauge activeConnections r"
  "gauge activeConnections (FallbackResponse r a b) = gauge activeConnections r"
  "gauge activeConnections (RouteDecision r a) = gauge activeConnections r"
  by (simp_all add: recorder_defs collector_defs)

lemma active_balance:
  "gauge activeConnections (ConnectionAccepted r) = gauge activeConnections r + (if recEnabled r then 1 else 0)"
  "gauge activeConnections (ConnectionFinished r a b d) = gauge activeConnections r - (if recEnabled r then 1 else 0)"
  by (simp_all add: recorder_defs collector_defs)

definition same_gauge :: "Recorder \<Rightarrow> Recorder \<Rightarrow> bool" where
  "same_gauge m m' \<longleftrightarrow> gauge activeConnections m' = gauge activeConnections m \<and> recEnabled m' = recEnabled m"

lemma fallback_gauge:
  "same_gauge m (snd (snd (serveStatusFallback l m c cfg reason)))"
  "same_gauge m (snd (snd (serveLoginDisconnectFallback l m c cfg h)))"
  by (auto simp: same_gauge_def serveStatusFallback_def serveLoginDisconnectFallback_def Let_def
      split: prod.splits option.splits sum.splits)

section \<open>Outcomes\<close>

definition sends :: "world \<Rightarrow> conn \<Rightarrow> bytes \<Rightarrow> outcome \<Rightarrow> bool" where
  \<comment> \<open>at most one backend is dialled; it is sent a prefix of the stream, and the client a prefix of its answer\<close>
  "sends w client stream out \<longleftrightarrow>
     (case hoBackend out of
        None \<Rightarrow> hoDialed out = [] \<or> (\<exists>a e. hoDialed out = [a] \<and> wDial w a = Inl e)
      | Some b \<Rightarrow>
          \<exists>a b0 m n. hoDialed out = [a] \<and> wDial w a = Inr b0 \<and>
            wrOut (cnOut b) = wrOut (cnOut b0) @ take m stream \<and>
            wrOut (cnOut (hoClient out)) = wrOut (cnOut client) @ take n (rdata (cnIn b0)))"

definition keeps :: "Server \<Rightarrow> outcome \<Rightarrow> bool" where
  \<comment> \<open>the server is as before, up to the metrics, which count the connection as open\<close>
  "keeps s out \<longleftrightarrow> srvState (hoServer out) = srvState s \<and> same_gauge (srvMetrics s) (srvMetrics (hoServer out))"

lemma same_gauge_simps [simp]:
  "same_gauge m m" "same_gauge m (RouteDecision m' a) = same_gauge m m'" "same_gauge m (BackendDialFinished m' a b d) = same_gauge m m'"
  by (simp_all add: same_gauge_def)

lemma same_gauge_trans: "same_gauge a b \<Longrightarrow> same_gauge b c \<Longrightarrow> same_gauge a c"
  by (simp add: same_gauge_def)

lemma set_metrics_simps [simp]:
  "srvState (set_metrics s m) = srvState s" "srvMetrics (set_metrics s m) = m" "srvLimits (set_metrics s m) = srvLimits s"
  by (simp_all add: set_metrics_def)

lemma ended_simps [simp]:
  "hoServer (ended s c a b) = s" "hoClient (ended s c a b) = c" "hoDialed (ended s c a b) = []" "hoRequests (ended s c a b) = []"
  "hoBackend (ended s c a b) = None" "hoResult (ended s c a b) = a" "sends w c2 x (ended s c a b)"
  by (simp_all add: ended_def sends_def)

lemma ended_keeps [simp]: "keeps s (ended s' c a b) \<longleftrightarrow> srvState s' = srvState s \<and> same_gauge (srvMetrics s) (srvMetrics s')"
  by (simp add: keeps_def)

lemma proxy_simps:
  assumes "proxy sch client backend = (result, client', backend')"
  shows "wrOut (cnOut backend') = wrOut (cnOut backend) @ take (schToBackend sch) (rdata (cnIn client))"
    and "wrOut (cnOut client') = wrOut (cnOut client) @ take (schToClient sch) (rdata (cnIn backend))"
  using assms by (auto simp: proxy_def copyAndClose_def Let_def)

lemma handleConn_backend_outcome:
  fixes w s client h raw ra sel
  defines "out \<equiv> handleConn_backend w s client h raw ra sel"
  shows "hoDialed out = [fst (selectedBackend h sel)]" and "keeps s out" and "sends w client (raw @ rdata (cnIn client)) out"
proof -
  obtain addr role where ad: "selectedBackend h sel = (addr, role)" by (cases "selectedBackend h sel")
  obtain ne rq where nt: "Notify (wHTTP w) (wHeaderOrd w) (ssScalerWebhook (srvState s))
      \<lparr>evBackend = addr, evServerAddress = ra, evNextState = NextState h\<rparr> = (ne, rq)" by force
  have "hoDialed out = [addr] \<and> keeps s out \<and> sends w client (raw @ rdata (cnIn client)) out"
  proof (cases "wDial w addr")
    case (Inl err)
    let ?m = "BackendDialFinished (srvMetrics s) ConnectionResultFailed (classifyDialError err) (wDialDuration w)"
    have "same_gauge (srvMetrics s) (snd (snd (serveStatusFallback (srvLimits s) ?m client (ssCfg (srvState s)) (classifyDialError err))))"
      by (rule same_gauge_trans [OF _ fallback_gauge(1)]) simp
    then show ?thesis
      unfolding out_def by (auto simp: handleConn_backend_def ad nt Inl keeps_def sends_def Let_def case_prod_beta)
  next
    case (Inr b0)
    obtain e b1 where b1: "conn_write b0 raw = (e, b1)" by (cases "conn_write b0 raw")
    obtain n where n: "wrOut (cnOut b1) = wrOut (cnOut b0) @ take n raw" "e = None \<longrightarrow> n = length raw"
      using conn_write_simps(3) [OF b1] by blast
    show ?thesis
    proof (cases e)
      case (Some x)
      have "take n raw = take (min n (length raw)) (raw @ rdata (cnIn client))" by (simp add: min_def)
      then have "\<exists>m. take n raw = take m (raw @ rdata (cnIn client))" by blast
      moreover have "wrOut (cnOut client) = wrOut (cnOut client) @ take 0 (rdata (cnIn b0))" by simp
      ultimately show ?thesis using n(1) Some b1 unfolding out_def sends_def
        by (simp add: handleConn_backend_def ad nt Inr keeps_def Let_def)
    next
      case None
      obtain result c2 b2 where p: "proxy (wSchedule w) client b1 = (result, c2, b2)" by (cases "proxy (wSchedule w) client b1") auto
      let ?k = "schToBackend (wSchedule w)"
      have "wrOut (cnOut b2) = wrOut (cnOut b0) @ take (length raw + ?k) (raw @ rdata (cnIn client))"
        using proxy_simps(1) [OF p] n None by simp
      moreover have "wrOut (cnOut c2) = wrOut (cnOut client) @ take (schToClient (wSchedule w)) (rdata (cnIn b0))"
        using proxy_simps(2) [OF p] conn_write_simps(1) [OF b1] by simp
      moreover have "hoClient out = c2" "hoBackend out = Some b2" "hoDialed out = [addr]" "keeps s out"
        using None b1 p unfolding out_def by (simp_all add: handleConn_backend_def ad nt Inr keeps_def Let_def)
      ultimately show ?thesis unfolding sends_def using Inr
        by (simp only: option.case) blast
    qed
  qed
  then show "hoDialed out = [fst (selectedBackend h sel)]" "keeps s out" "sends w client (raw @ rdata (cnIn client)) out" by (simp_all add: ad)
qed

lemma handleConn_denied_outcome:
  "keeps s (handleConn_denied s c h)" "hoDialed (handleConn_denied s c h) = []" "hoBackend (handleConn_denied s c h) = None"
  "hoRequests (handleConn_denied s c h) = []" "sends w c2 x (handleConn_denied s c h)"
proof -
  let ?m = "RouteDecision (srvMetrics s) RouteDecisionDenied"
  have m: "same_gauge (srvMetrics s) ?m" by simp
  note fb = same_gauge_trans [OF m fallback_gauge(1)] same_gauge_trans [OF m fallback_gauge(2)]
  show "keeps s (handleConn_denied s c h)"
    using fb by (auto simp: handleConn_denied_def Let_def case_prod_beta)
qed (simp_all add: handleConn_denied_def Let_def case_prod_beta)

lemma keeps_trans: "srvState s' = srvState s \<Longrightarrow> same_gauge (srvMetrics s) (srvMetrics s') \<Longrightarrow> keeps s' out \<Longrightarrow> keeps s out"
  by (auto simp: keeps_def same_gauge_def)

lemma handleConn_routed_outcome:
  fixes w s client h raw
  defines "out \<equiv> handleConn_routed w s client h raw"
  shows "keeps s out" and "sends w client (raw @ rdata (cnIn client)) out"
    and "(hoDialed out = [] \<and> hoBackend out = None \<and> hoRequests out = []) \<or>
      (\<exists>sel. Select (ssRouter (srvState s)) (RouteAddress h) = Inr sel \<and>
        \<not> (NextState h = NextStateStatus \<and> slStatusOverride sel \<noteq> None) \<and> hoDialed out = [fst (selectedBackend h sel)])"
proof -
  have "keeps s out \<and> sends w client (raw @ rdata (cnIn client)) out \<and>
    ((hoDialed out = [] \<and> hoBackend out = None \<and> hoRequests out = []) \<or>
      (\<exists>sel. Select (ssRouter (srvState s)) (RouteAddress h) = Inr sel \<and>
        \<not> (NextState h = NextStateStatus \<and> slStatusOverride sel \<noteq> None) \<and> hoDialed out = [fst (selectedBackend h sel)]))"
  proof (cases "Select (ssRouter (srvState s)) (RouteAddress h)")
    case (Inl e)
    then show ?thesis unfolding out_def by (simp add: handleConn_routed_def handleConn_denied_outcome)
  next
    case (Inr sel)
    let ?s = "set_metrics s (RouteDecision (srvMetrics s) (routeDecisionResult (slMatchedBy sel)))"
    show ?thesis
    proof (cases "if NextState h = NextStateStatus then slStatusOverride sel else None")
      case None
      then have "\<not> (NextState h = NextStateStatus \<and> slStatusOverride sel \<noteq> None)" by (auto split: if_splits)
      moreover have "out = handleConn_backend w ?s client h raw (RouteAddress h) sel"
        unfolding out_def handleConn_routed_def Let_def Inr sum.case None option.case by (rule refl)
      moreover have "keeps s (handleConn_backend w ?s client h raw (RouteAddress h) sel)"
        by (rule keeps_trans [OF _ _ handleConn_backend_outcome(2)]) simp_all
      ultimately show ?thesis using Inr by (simp add: handleConn_backend_outcome)
    next
      case (Some ov)
      obtain a b where o: "out = ended ?s (snd (serveStatusOverride (srvLimits s) client ov)) a b"
        unfolding out_def handleConn_routed_def Let_def Inr sum.case Some option.case
        by (cases "fst (serveStatusOverride (srvLimits s) client ov)") (auto simp: case_prod_beta)
      show ?thesis by (simp add: o)
    qed
  qed
  then show "keeps s out" "sends w client (raw @ rdata (cnIn client)) out"
    "(hoDialed out = [] \<and> hoBackend out = None \<and> hoRequests out = []) \<or>
      (\<exists>sel. Select (ssRouter (srvState s)) (RouteAddress h) = Inr sel \<and>
        \<not> (NextState h = NextStateStatus \<and> slStatusOverride sel \<noteq> None) \<and> hoDialed out = [fst (selectedBackend h sel)])" by simp_all
qed

lemma sends_client: "cnOut c = cnOut c' \<Longrightarrow> sends w c x out = sends w c' x out"
  by (simp add: sends_def split: option.split)

definition routed_to :: "Server \<Rightarrow> conn \<Rightarrow> outcome \<Rightarrow> bool" where
  \<comment> \<open>the handshake on the connection names the route whose backend is dialled\<close>
  "routed_to s c1 out \<longleftrightarrow>
     (\<exists>h raw r sel. ReadHandshake (cnIn c1) (srvLimits s) = (Inr h, raw, r) \<and>
        Select (ssRouter (srvState s)) (RouteAddress h) = Inr sel \<and>
        \<not> (NextState h = NextStateStatus \<and> slStatusOverride sel \<noteq> None) \<and>
        hoDialed out = [fst (selectedBackend h sel)])"

lemma handleConn_handshake_outcome:
  fixes w s client
  defines "out \<equiv> handleConn_handshake w s client"
  shows "keeps s out \<and> sends w client (rdata (cnIn client)) out \<and>
    (hoDialed out = [] \<and> hoBackend out = None \<and> hoRequests out = [] \<or> routed_to s client out)"
proof -
  obtain e c1 where c1: "SetReadDeadline client = (e, c1)" by (cases "SetReadDeadline client")
  obtain x raw r where h: "ReadHandshake (cnIn c1) (srvLimits s) = (x, raw, r)" by (cases "ReadHandshake (cnIn c1) (srvLimits s)") auto
  obtain e2 c2 where c2: "SetReadDeadline (c1\<lparr>cnIn := r\<rparr>) = (e2, c2)" by (cases "SetReadDeadline (c1\<lparr>cnIn := r\<rparr>)")
  note d1 = SetReadDeadline_simps [OF c1] and d2 = SetReadDeadline_simps [OF c2]
  show ?thesis
  proof (cases "\<exists>hs. e = None \<and> x = Inr hs \<and> e2 = None")
    case False
    then show ?thesis unfolding out_def handleConn_handshake_def
      by (auto simp: c1 h c2 split: option.split sum.split)
  next
    case True
    then obtain hs where t: "e = None" "x = Inr hs" "e2 = None" by blast
    have o: "out = handleConn_routed w s c2 hs raw" unfolding out_def handleConn_handshake_def by (simp add: c1 h c2 t)
    have "rdata (cnIn client) = raw @ rdata (cnIn c2)" using hs.takes_raw [OF h [unfolded t(2)]] d1 d2 by simp
    moreover have "sends w client y z = sends w c2 y z" for y z by (rule sends_client) (simp add: d1 d2)
    moreover
    note r = handleConn_routed_outcome [where w = w and s = s and client = c2 and h = hs and raw = raw, folded o]
    moreover have "hoDialed out = [] \<and> hoBackend out = None \<and> hoRequests out = [] \<or> routed_to s client out"
      using r(3) h d1(1) unfolding routed_to_def t(2) by metis
    ultimately show ?thesis by simp
  qed
qed

definition admitted :: "world \<Rightarrow> serverState \<Rightarrow> conn \<Rightarrow> bool" where
  \<comment> \<open>the client is known, the policy allows it and its bucket has a token\<close>
  "admitted w st client \<longleftrightarrow>
     (case fst (client_identity st client) of
        Inl (Inr a) \<Rightarrow> Allows (ssClientPolicy st) a \<and> fst (Allow (wOrd w) (ssClientRateLimit st) a (wNow w))
      | _ \<Rightarrow> False)"

lemma handleConn_body_admitted:
  assumes "admitted w (srvState s) client"
  obtains l where "handleConn_body w s client =
    handleConn_handshake w (s\<lparr>srvConnectionSeq := srvConnectionSeq s + 1, srvState := (srvState s)\<lparr>ssClientRateLimit := l\<rparr>\<rparr>)
      (snd (client_identity (srvState s) client))"
  using assms
  by (auto simp: admitted_def handleConn_body_def Let_def case_prod_beta split: sum.splits)

lemma limiter_kept [simp]:
  "\<exists>l. st = st\<lparr>ssClientRateLimit := l\<rparr>" "\<exists>l. st\<lparr>ssClientRateLimit := k\<rparr> = st\<lparr>ssClientRateLimit := l\<rparr>"
  by (rule exI [of _ "ssClientRateLimit st"], simp) (rule exI, rule refl)

lemma handleConn_body_refused:
  fixes w s client
  defines "out \<equiv> handleConn_body w s client"
  assumes "\<not> admitted w (srvState s) client"
  shows "hoDialed out = [] \<and> hoBackend out = None \<and> hoRequests out = [] \<and> hoClient out = snd (client_identity (srvState s) client) \<and>
    srvMetrics (hoServer out) = srvMetrics s \<and> (\<exists>l. srvState (hoServer out) = (srvState s)\<lparr>ssClientRateLimit := l\<rparr>)"
proof (cases "fst (client_identity (srvState s) client)")
  case (Inr e)
  then show ?thesis unfolding out_def by (simp add: handleConn_body_def Let_def case_prod_beta)
next
  case (Inl x)
  show ?thesis
  proof (cases x)
    case (Inl e)
    with \<open>fst _ = Inl x\<close> show ?thesis unfolding out_def by (simp add: handleConn_body_def Let_def case_prod_beta)
  next
    case (Inr a)
    obtain ok l where l: "Allow (wOrd w) (ssClientRateLimit (srvState s)) a (wNow w) = (ok, l)" by force
    obtain c1 where c1: "client_identity (srvState s) client = (Inl (Inr a), c1)"
      using \<open>fst _ = Inl x\<close> Inr by (cases "client_identity (srvState s) client") simp
    have "\<not> (Allows (ssClientPolicy (srvState s)) a \<and> ok)" using assms(2) l c1 by (simp add: admitted_def)
    then consider "\<not> Allows (ssClientPolicy (srvState s)) a" | "Allows (ssClientPolicy (srvState s)) a" "\<not> ok" by blast
    then show ?thesis
    proof cases
      case 1
      then have "out = ended (s\<lparr>srvConnectionSeq := srvConnectionSeq s + 1\<rparr>) c1 ConnectionResultDenied ReasonClientDenied"
        unfolding out_def handleConn_body_def Let_def c1 prod.case sum.case by (simp only: if_True not_False_eq_True)
      then show ?thesis by (simp add: c1)
    next
      case 2
      then have "out = ended (s\<lparr>srvConnectionSeq := srvConnectionSeq s + 1, srvState := (srvState s)\<lparr>ssClientRateLimit := l\<rparr>\<rparr>) c1
          ConnectionResultDenied ReasonRateLimited"
        unfolding out_def handleConn_body_def Let_def c1 l prod.case sum.case by (simp only: if_True if_False not_False_eq_True not_True_eq_False)
      then show ?thesis by (simp add: c1)
    qed
  qed
qed

lemma body_outcome:
  fixes w s client
  defines "out \<equiv> handleConn_body w s client" and "c1 \<equiv> snd (client_identity (srvState s) client)"
  shows "same_gauge (srvMetrics s) (srvMetrics (hoServer out))"
    and "\<exists>l. srvState (hoServer out) = (srvState s)\<lparr>ssClientRateLimit := l\<rparr>"
    and "sends w client (rdata (cnIn c1)) out"
    and "if admitted w (srvState s) client
      then hoDialed out = [] \<and> hoBackend out = None \<and> hoRequests out = [] \<or> routed_to s c1 out
      else hoDialed out = [] \<and> hoBackend out = None \<and> hoRequests out = [] \<and> cnOut (hoClient out) = cnOut client"
proof -
  have c1: "cnOut c1 = cnOut client" unfolding c1_def by (rule client_identity_out)
  have "same_gauge (srvMetrics s) (srvMetrics (hoServer out)) \<and> (\<exists>l. srvState (hoServer out) = (srvState s)\<lparr>ssClientRateLimit := l\<rparr>) \<and>
    sends w client (rdata (cnIn c1)) out \<and>
    (if admitted w (srvState s) client
      then hoDialed out = [] \<and> hoBackend out = None \<and> hoRequests out = [] \<or> routed_to s c1 out
      else hoDialed out = [] \<and> hoBackend out = None \<and> hoRequests out = [] \<and> cnOut (hoClient out) = cnOut client)"
  proof (cases "admitted w (srvState s) client")
    case True
    then obtain l where o: "out = handleConn_handshake w
        (s\<lparr>srvConnectionSeq := srvConnectionSeq s + 1, srvState := (srvState s)\<lparr>ssClientRateLimit := l\<rparr>\<rparr>) c1"
      unfolding out_def c1_def by (rule handleConn_body_admitted)
    from handleConn_handshake_outcome [where w = w and client = c1 and
        s = "s\<lparr>srvConnectionSeq := srvConnectionSeq s + 1, srvState := (srvState s)\<lparr>ssClientRateLimit := l\<rparr>\<rparr>", folded o]
    show ?thesis using True sends_client [OF c1] by (simp add: keeps_def routed_to_def)
  next
    case False
    from handleConn_body_refused [OF this, folded out_def c1_def] False
    show ?thesis by (simp add: c1 sends_def)
  qed
  then show "same_gauge (srvMetrics s) (srvMetrics (hoServer out))"
    "\<exists>l. srvState (hoServer out) = (srvState s)\<lparr>ssClientRateLimit := l\<rparr>" "sends w client (rdata (cnIn c1)) out"
    "if admitted w (srvState s) client
      then hoDialed out = [] \<and> hoBackend out = None \<and> hoRequests out = [] \<or> routed_to s c1 out
      else hoDialed out = [] \<and> hoBackend out = None \<and> hoRequests out = [] \<and> cnOut (hoClient out) = cnOut client" by blast+
qed

lemma finish_simps [simp]:
  "sends w c x (out\<lparr>hoServer := y\<rparr>) = sends w c x out" "routed_to s c (out\<lparr>hoServer := y\<rparr>) = routed_to s c out"
  "routed_to (set_metrics s m) c out = routed_to s c out"
  by (simp_all add: sends_def routed_to_def split: option.split)

section \<open>Properties\<close>

text \<open>C1: who reaches a backend. A connection from an address the policy or the limiter refuses, or whose PROXY header cannot be
  read, causes no dial, no webhook request and no byte to the client. An admitted connection that causes a dial or a webhook request
  carries a handshake whose address the routing table resolves, is not answered by a status override, and dials exactly the backend
  selected for that handshake.\<close>

theorem connection_admission:
  "let out = handleConn w s client; c1 = snd (client_identity (srvState s) client) in
   if admitted w (srvState s) client
   then hoDialed out = [] \<and> hoBackend out = None \<and> hoRequests out = [] \<or> routed_to s c1 out
   else hoDialed out = [] \<and> hoBackend out = None \<and> hoRequests out = [] \<and> cnOut (hoClient out) = cnOut client"
  using body_outcome(4) [where w = w and client = client and s = "set_metrics s (ConnectionAccepted (srvMetrics s))"]
  by (simp add: handleConn_def Let_def split: if_splits)

text \<open>C2: the proxy is transparent. What a backend is sent is a prefix of what the client sent after its PROXY header, beginning
  with the bytes of the handshake as they arrived, and what the client is sent over a backend connection is a prefix of what the
  backend sent; a connection has at most one backend.\<close>

theorem connection_transparent:
  "sends w client (rdata (cnIn (snd (client_identity (srvState s) client)))) (handleConn w s client)"
  using body_outcome(3) [where w = w and client = client and s = "set_metrics s (ConnectionAccepted (srvMetrics s))"]
  by (simp add: handleConn_def Let_def)

text \<open>A connection leaves the server as it found it. However it ends, the gauge of active connections has its old value again, and of
  the routing state only the buckets of the limiter can have changed.\<close>

theorem connection_balanced:
  "let s' = hoServer (handleConn w s client) in
   gauge activeConnections (srvMetrics s') = gauge activeConnections (srvMetrics s) \<and>
   (\<exists>l. srvState s' = (srvState s)\<lparr>ssClientRateLimit := l\<rparr>)"
  using body_outcome(1,2) [where w = w and client = client and s = "set_metrics s (ConnectionAccepted (srvMetrics s))"]
  by (simp add: handleConn_def Let_def active_balance same_gauge_def)

end
