(* ===== verification/Voicepacket.thy ===== *)
theory Voicepacket
  imports Varint GoNet
begin

text \<open>
  The clear part of a Simple Voice Chat datagram, \<open>internal/voicechat/udp.go\<close>: the envelope of a
  client's packet and player identifiers. A \<open>UUID\<close>, an array of sixteen bytes, is a list of that
  length. The varint decoder of the package is in the theory of varints.
\<close>

type_synonym UUID = bytes

definition MagicByte :: byte where "MagicByte = 0xff"
definition uuidSize :: nat where "uuidSize = 16"

definition UUID_String :: "UUID \<Rightarrow> string" where
  "UUID_String u =
     hex_Encode (take 4 u) @ ''-'' @ hex_Encode (take 2 (drop 4 u)) @ ''-'' @ hex_Encode (take 2 (drop 6 u)) @ ''-'' @
     hex_Encode (take 2 (drop 8 u)) @ ''-'' @ hex_Encode (drop 10 u)"

definition ParseUUID :: "string \<Rightarrow> UUID result" where
  "ParseUUID s =
     (let cleaned = ReplaceAll1 s (CHR ''-'') in
      if length cleaned \<noteq> uuidSize * 2 then Inl [Msg ''invalid UUID length'']
      else (case hex_DecodeString cleaned of
              Inl e \<Rightarrow> Inl e
            | Inr decoded \<Rightarrow> Inr decoded))"

record ClientPacket =
  cpPlayerUUID :: UUID
  cpEncryptedPayload :: bytes

definition ParseClientPacket :: "bytes \<Rightarrow> ClientPacket result" where
  "ParseClientPacket packet =
     (if length packet < 1 then Inl [ErrPacketTooShort]
      else if packet ! 0 \<noteq> MagicByte then Inl [ErrInvalidMagic]
      else if length packet < 1 + uuidSize + 1 then Inl [ErrPacketTooShort]
      else let playerUUID = take uuidSize (drop 1 packet); offset = 1 + uuidSize in
        (case voice_readVarInt (drop offset packet) of
           Inl e \<Rightarrow> Inl e
         | Inr (payloadLen, varIntLen) \<Rightarrow>
             (let payloadOffset = offset + varIntLen in
              if payloadLen < 0 then Inl [ErrInvalidLength]
              else if int (length packet) - int payloadOffset < payloadLen then Inl [ErrTruncatedPacket]
              else if int (length packet) - int payloadOffset > payloadLen then Inl [ErrTrailingBytes]
              else Inr \<lparr>cpPlayerUUID = playerUUID, cpEncryptedPayload = take (nat payloadLen) (drop payloadOffset packet)\<rparr>)))"

section \<open>Lemmas\<close>

lemma avail_loop_prefix:
  "avail_readVarInt_loop i v data = Inr (w, n) \<longleftrightarrow>
     (\<exists>p s. data = p @ s \<and> n = i + length p \<and> p \<noteq> [] \<and> avail_readVarInt_loop i v p = Inr (w, n))"
proof (induction i v data rule: avail_readVarInt_loop.induct)
  case (2 i v b bs)
  show ?case
  proof (cases "i = 5 \<or> b AND 0x80 = 0")
    case True
    have "(\<exists>p s. b # bs = p @ s \<and> n = i + length p \<and> p \<noteq> [] \<and> avail_readVarInt_loop i v p = Inr (w, n)) \<longleftrightarrow>
      i \<noteq> 5 \<and> w = (v OR group b i) \<and> n = Suc i" (is "?L = ?R")
    proof
      assume ?L
      with True show ?R by (auto simp: Cons_eq_append_conv split: if_splits)
    next
      assume ?R
      with True show ?L by (intro exI [of _ "[b]"] exI [of _ bs]) auto
    qed
    with True show ?thesis by auto
  next
    case False
    have "(\<exists>p s. bs = p @ s \<and> n = Suc i + length p \<and> p \<noteq> [] \<and> avail_readVarInt_loop (Suc i) (v OR group b i) p = Inr (w, n)) \<longleftrightarrow>
      (\<exists>p s. b # bs = p @ s \<and> n = i + length p \<and> p \<noteq> [] \<and> avail_readVarInt_loop i v p = Inr (w, n))" (is "?L = ?R")
    proof
      assume ?L
      then obtain p s where "bs = p @ s" "n = Suc i + length p" "avail_readVarInt_loop (Suc i) (v OR group b i) p = Inr (w, n)" by blast
      with False show ?R by (intro exI [of _ "b # p"] exI [of _ s]) simp
    next
      assume ?R
      then obtain p s where ps: "b # bs = p @ s" "n = i + length p" "p \<noteq> []" "avail_readVarInt_loop i v p = Inr (w, n)" by blast
      then obtain q where q: "p = b # q" "bs = q @ s" by (cases p) auto
      with ps(4) False have "avail_readVarInt_loop (Suc i) (v OR group b i) q = Inr (w, n)" by simp
      with q ps(2) show ?L by (intro exI [of _ q] exI [of _ s]) auto
    qed
    with False 2 show ?thesis by simp
  qed
qed simp

lemma voice_prefix:
  "voice_readVarInt data = Inr (i, n) \<longleftrightarrow>
     (\<exists>p s. data = p @ s \<and> n = length p \<and> p \<noteq> [] \<and> voice_readVarInt p = Inr (i, n))"
proof -
  have v: "voice_readVarInt d = Inr (i, n) \<longleftrightarrow> 0 \<le> i \<and> (\<exists>w. sint w = i \<and> avail_readVarInt_loop 0 0 d = Inr (w, n))" for d
    by (auto simp: voice_readVarInt_agrees avail_readVarInt_def split: sum.split if_splits)
  show ?thesis unfolding v using avail_loop_prefix [of 0 0 data] by auto
qed

lemma voice_nonneg: "voice_readVarInt data = Inr (i, n) \<Longrightarrow> 0 \<le> i"
  by (auto simp: voice_readVarInt_agrees split: sum.splits if_splits)

lemma hex_no_dash: "CHR ''-'' \<notin> set (hex_Encode bs)"
proof (induction bs)
  case (Cons b bs)
  have "hex_digit d \<noteq> CHR ''-''" if "d < 16" for d
    using hex_val_digit [OF that] by (auto simp: hex_val_def Let_def)
  moreover have "unat b div 16 < 16" using unat_byte_less [of b] by linarith
  moreover have "unat b mod 16 < 16" by simp
  ultimately have "hex_digit (unat b div 16) \<noteq> CHR ''-''" "hex_digit (unat b mod 16) \<noteq> CHR ''-''" by blast+
  with Cons show ?case by auto
qed simp

lemma hex_Encode_append: "hex_Encode (xs @ ys) = hex_Encode xs @ hex_Encode ys"
  by (induction xs) auto

lemma UUID_cleaned: "ReplaceAll1 (UUID_String u) (CHR ''-'') = hex_Encode u"
proof -
  have "filter (\<lambda>x. x \<noteq> CHR ''-'') (hex_Encode bs) = hex_Encode bs" for bs
    using hex_no_dash [of bs] by (auto simp: filter_id_conv)
  then have "ReplaceAll1 (UUID_String u) (CHR ''-'') =
      hex_Encode (take 4 u @ take 2 (drop 4 u) @ take 2 (drop 6 u) @ take 2 (drop 8 u) @ drop 10 u)"
    by (simp add: ReplaceAll1_def UUID_String_def hex_Encode_append)
  also have "take 4 u @ take 2 (drop 4 u) @ take 2 (drop 6 u) @ take 2 (drop 8 u) @ drop 10 u = u"
    using append_take_drop_id [of 2 "drop 8 u"] append_take_drop_id [of 2 "drop 6 u"] append_take_drop_id [of 2 "drop 4 u"]
      append_take_drop_id [of 4 u] by (simp only: drop_drop) simp
  finally show ?thesis .
qed

lemma hex_Decode_length: "hex_DecodeString s = Inr bs \<Longrightarrow> length s = 2 * length bs"
  by (induction s arbitrary: bs rule: hex_DecodeString.induct) (auto split: option.splits sum.splits)

lemma ParseUUID_String: "length u = uuidSize \<Longrightarrow> ParseUUID (UUID_String u) = Inr u"
  by (simp add: ParseUUID_def UUID_cleaned)

lemma ParseUUID_length: "ParseUUID s = Inr u \<Longrightarrow> length u = uuidSize"
  by (auto simp: ParseUUID_def Let_def dest: hex_Decode_length split: if_splits sum.splits)

section \<open>Properties\<close>

text \<open>C37: the envelope of a client's packet. A datagram is accepted exactly when it is the magic byte, sixteen bytes of player identifier,
  a varint and as many bytes as the varint says, no more and no fewer, and the identifier and the payload are those bytes.\<close>

theorem client_packet_exact:
  "ParseClientPacket packet = Inr c \<longleftrightarrow>
     (\<exists>v. packet = MagicByte # cpPlayerUUID c @ v @ cpEncryptedPayload c \<and> length (cpPlayerUUID c) = uuidSize \<and> v \<noteq> [] \<and>
        voice_readVarInt v = Inr (int (length (cpEncryptedPayload c)), length v))" (is "?L \<longleftrightarrow> ?R")
proof
  assume ?R
  then obtain v where v: "packet = MagicByte # cpPlayerUUID c @ v @ cpEncryptedPayload c" "length (cpPlayerUUID c) = uuidSize" "v \<noteq> []"
    "voice_readVarInt v = Inr (int (length (cpEncryptedPayload c)), length v)" by blast
  have "voice_readVarInt (v @ cpEncryptedPayload c) = Inr (int (length (cpEncryptedPayload c)), length v)"
    using v(3,4) voice_prefix [of "v @ cpEncryptedPayload c"] by blast
  moreover have "drop (1 + uuidSize + length v) packet = cpEncryptedPayload c" "take uuidSize (drop 1 packet) = cpPlayerUUID c"
    "drop (1 + uuidSize) packet = v @ cpEncryptedPayload c" using v(1,2) by simp_all
  moreover have "packet ! 0 = MagicByte" "length packet = 1 + uuidSize + length v + length (cpEncryptedPayload c)" "0 < length v"
    using v(1-3) by simp_all
  ultimately show ?L unfolding ParseClientPacket_def by (cases c) (simp add: Let_def)
next
  assume L: ?L
  then have p: "packet \<noteq> []" "packet ! 0 = MagicByte" "1 + uuidSize + 1 \<le> length packet"
    by (auto simp: ParseClientPacket_def split: if_splits)
  with L obtain i n where r: "voice_readVarInt (drop (1 + uuidSize) packet) = Inr (i, n)"
    and c: "i = int (length packet) - int (1 + uuidSize + n)"
      "c = \<lparr>cpPlayerUUID = take uuidSize (drop 1 packet), cpEncryptedPayload = take (nat i) (drop (1 + uuidSize + n) packet)\<rparr>"
    by (auto simp: ParseClientPacket_def Let_def split: if_splits sum.splits)
  obtain v s where v: "drop (1 + uuidSize) packet = v @ s" "n = length v" "v \<noteq> []" "voice_readVarInt v = Inr (i, n)"
    using r voice_prefix by blast
  have s: "drop (1 + uuidSize + n) packet = s" using v(1,2) by (metis add.commute append_eq_conv_conj drop_drop)
  then have "length s = nat i" using c(1) by auto
  moreover have "packet = MagicByte # take uuidSize (drop 1 packet) @ drop (1 + uuidSize) packet"
    using p by (cases packet) (auto simp: append_take_drop_id)
  ultimately show ?R using v c p(3) s voice_nonneg [OF r] by (intro exI [of _ v]) auto
qed

end
