(* ===== verification/GoUDP.thy ===== *)
theory GoUDP
  imports GoNet
begin

text \<open>
  What the UDP components use of the package \<open>net\<close>: IP addresses as byte slices (\<open>net.IP\<close>, four or
  sixteen bytes, \<open>nil\<close> as the empty list), UDP addresses and their text.
\<close>

section \<open>IP addresses as byte slices\<close>

definition v4InV6Prefix :: bytes where
  "v4InV6Prefix = [0, 0, 0, 0, 0, 0, 0, 0, 0, 0, 0xff, 0xff]"

definition To4 :: "bytes \<Rightarrow> bytes option" where
  "To4 ip =
     (if length ip = 4 then Some ip
      else if length ip = 16 \<and> take 12 ip = v4InV6Prefix then Some (drop 12 ip)
      else None)"

definition IP_Equal :: "bytes \<Rightarrow> bytes \<Rightarrow> bool" where
  "IP_Equal ip x \<longleftrightarrow>
     (if length ip = length x then ip = x
      else if length ip = 4 \<and> length x = 16 then take 12 x = v4InV6Prefix \<and> ip = drop 12 x
      else if length ip = 16 \<and> length x = 4 then take 12 ip = v4InV6Prefix \<and> drop 12 ip = x
      else False)"

definition IP_IsUnspecified :: "bytes \<Rightarrow> bool" where
  "IP_IsUnspecified ip \<longleftrightarrow> IP_Equal ip (v4InV6Prefix @ [0, 0, 0, 0]) \<or> IP_Equal ip [0, 0, 0, 0, 0, 0, 0, 0, 0, 0, 0, 0, 0, 0, 0, 0]"

definition IP_IsMulticast :: "bytes \<Rightarrow> bool" where
  "IP_IsMulticast ip \<longleftrightarrow>
     (case To4 ip of
        Some ip4 \<Rightarrow> ip4 ! 0 AND 0xf0 = 0xe0
      | None \<Rightarrow> length ip = 16 \<and> ip ! 0 = 0xff)"

definition IPv4bcast :: bytes where
  "IPv4bcast = v4InV6Prefix @ [0xff, 0xff, 0xff, 0xff]"

section \<open>Text of an address\<close>

text \<open>
  An IPv6 address is printed as \<open>netip.Addr\<close> prints it: eight groups of hexadecimal digits without
  leading zeros, the first of the longest runs of at least two zero groups as \<open>::\<close>.
\<close>

fun appendHex :: "nat \<Rightarrow> string" where
  "appendHex n = (if n < 16 then [hex_digit n] else appendHex (n div 16) @ [hex_digit (n mod 16)])"

declare appendHex.simps [simp del]

fun v6_groups :: "bytes \<Rightarrow> nat list" where
  "v6_groups (a # b # bs) = (256 * unat a + unat b) # v6_groups bs"
| "v6_groups _ = []"

definition zero_run :: "nat list \<Rightarrow> nat" where
  "zero_run gs = length (takeWhile (\<lambda>g. g = 0) gs)"

fun longest_zeros :: "nat list \<Rightarrow> nat \<Rightarrow> (nat \<times> nat) option \<Rightarrow> (nat \<times> nat) option" where
  \<comment> \<open>the start and the length of the run to abbreviate\<close>
  "longest_zeros [] i best = best"
| "longest_zeros (g # gs) i best =
     (let l = zero_run (g # gs) in
      longest_zeros gs (Suc i)
        (if l \<ge> 2 \<and> l > (case best of None \<Rightarrow> 0 | Some (s, n) \<Rightarrow> n) then Some (i, l) else best))"

fun join_groups :: "nat list \<Rightarrow> string" where
  "join_groups [] = []"
| "join_groups [g] = appendHex g"
| "join_groups (g # gs) = appendHex g @ '':'' @ join_groups gs"

definition v6_string :: "bytes \<Rightarrow> string" where
  "v6_string ip =
     (let gs = v6_groups ip in
      case longest_zeros gs 0 None of
        None \<Rightarrow> join_groups gs
      | Some (s, n) \<Rightarrow> join_groups (take s gs) @ ''::'' @ join_groups (drop (s + n) gs))"

definition IP_String :: "bytes \<Rightarrow> string" where
  "IP_String ip =
     (if ip = [] then ''<nil>''
      else case To4 ip of
        Some [a, b, c, d] \<Rightarrow> Itoa (unat a) @ ''.'' @ Itoa (unat b) @ ''.'' @ Itoa (unat c) @ ''.'' @ Itoa (unat d)
      | _ \<Rightarrow> if length ip = 16 then v6_string ip else ''?'' @ hex_Encode ip)"

section \<open>UDP addresses\<close>

record UDPAddr =
  uaIP :: bytes
  uaPort :: nat
  uaZone :: string

definition UDPAddr_String :: "UDPAddr \<Rightarrow> string" where
  "UDPAddr_String a =
     (let ip = (if uaIP a = [] then '''' else IP_String (uaIP a)) in
      JoinHostPort (if uaZone a \<noteq> '''' then ip @ ''%'' @ uaZone a else ip) (Itoa (uaPort a)))"

text \<open>
  What the UDP components ask of the network: resolving an address, listening, dialling and writing.
  \<open>Dial\<close> answers with a UDP connection, with a connection of another kind, or with an error.
\<close>

datatype dial_result = DialUDP | DialOther | DialError error

end
