(* ===== verification/Sessions.thy ===== *)
theory Sessions
  imports GoUDP Metrics
begin

text \<open>
  Session tables. The packages \<open>udprelay\<close> and \<open>voicechat\<close> keep their sessions in the same way: a map
  from keys to session objects under a lock, an object that is closed at most once, and metrics that
  count what is opened and closed. This theory has the table with its operations, one definition per
  critical section; the components instantiate it with their sessions and their metrics.

  A pointer to a session is an index into the list \<open>tbHeap\<close> of the objects ever made. An object is
  made closed when the table refuses it, because the code closes it before anybody else can see it.
  The metrics of a table are \<open>None\<close> where the code has a nil recorder.
\<close>

record session =
  seKey :: string
  seClientAddr :: UDPAddr
  seLastActivity :: int
  seClosed :: bool

record 's table =
  tbSessions :: "(string, nat) gomap"
  tbHeap :: "'s list"
  tbClosed :: bool
  tbMetrics :: "Recorder option"

section \<open>Operations\<close>

definition record_metric :: "(Recorder \<Rightarrow> Recorder) \<Rightarrow> ('s, 'z) table_scheme \<Rightarrow> ('s, 'z) table_scheme" where
  "record_metric f t = t\<lparr>tbMetrics := map_option f (tbMetrics t)\<rparr>"

definition insert_session ::
    "(Recorder \<Rightarrow> Recorder) \<Rightarrow> int \<Rightarrow> 'a session_scheme \<Rightarrow> ('a session_scheme, 'z) table_scheme \<Rightarrow>
       (nat \<times> bool) result \<times> ('a session_scheme, 'z) table_scheme" where
  \<comment> \<open>the session of the key and whether it is the new one\<close>
  "insert_session oncreate maxSessions s t =
     (let refused = t\<lparr>tbHeap := tbHeap t @ [s\<lparr>seClosed := True\<rparr>]\<rparr> in
      if tbClosed t then (Inl [ErrClosed], refused)
      else (case gm_get (tbSessions t) (seKey s) of
              Some existing \<Rightarrow> (Inr (existing, False), refused)
            | None \<Rightarrow>
                if int (gm_len (tbSessions t)) \<ge> maxSessions then (Inl [ErrSessionLimit], refused)
                else (Inr (length (tbHeap t), True),
                      record_metric oncreate
                        (t\<lparr>tbSessions := gm_set (tbSessions t) (seKey s) (length (tbHeap t)), tbHeap := tbHeap t @ [s]\<rparr>))))"

definition touch :: "nat \<Rightarrow> int \<Rightarrow> ('a session_scheme, 'z) table_scheme \<Rightarrow> ('a session_scheme, 'z) table_scheme" where
  "touch sid now t = t\<lparr>tbHeap := (tbHeap t)[sid := (tbHeap t ! sid)\<lparr>seLastActivity := now\<rparr>]\<rparr>"

definition is_current :: "nat \<Rightarrow> ('a session_scheme, 'z) table_scheme \<Rightarrow> bool" where
  "is_current sid t \<longleftrightarrow> gm_get (tbSessions t) (seKey (tbHeap t ! sid)) = Some sid"

definition remove_session :: "nat \<Rightarrow> ('a session_scheme, 'z) table_scheme \<Rightarrow> ('a session_scheme, 'z) table_scheme" where
  \<comment> \<open>the critical section of \<open>closeSession\<close>\<close>
  "remove_session sid t =
     (if is_current sid t then t\<lparr>tbSessions := gm_del (tbSessions t) (seKey (tbHeap t ! sid))\<rparr> else t)"

definition remove_where :: "(nat \<Rightarrow> bool) \<Rightarrow> ('a session_scheme, 'z) table_scheme \<Rightarrow> nat list \<times> ('a session_scheme, 'z) table_scheme" where
  \<comment> \<open>a loop under the lock that deletes the sessions with a property and collects them\<close>
  "remove_where P t =
     (filter P (map snd (tbSessions t)), t\<lparr>tbSessions := gm_keep (\<lambda>k sid. \<not> P sid) (tbSessions t)\<rparr>)"

definition mark_closed :: "nat \<Rightarrow> ('a session_scheme, 'z) table_scheme \<Rightarrow> ('a session_scheme, 'z) table_scheme" where
  "mark_closed sid t = t\<lparr>tbHeap := (tbHeap t)[sid := (tbHeap t ! sid)\<lparr>seClosed := True\<rparr>]\<rparr>"

definition sess_close ::
    "(Recorder \<Rightarrow> string \<Rightarrow> Recorder) \<Rightarrow> nat \<Rightarrow> string \<Rightarrow> ('a session_scheme, 'z) table_scheme \<Rightarrow> ('a session_scheme, 'z) table_scheme" where
  "sess_close onclose sid reason t =
     (if seClosed (tbHeap t ! sid) then t else record_metric (\<lambda>m. onclose m reason) (mark_closed sid t))"

definition sess_closeWithoutMetric :: "nat \<Rightarrow> ('a session_scheme, 'z) table_scheme \<Rightarrow> ('a session_scheme, 'z) table_scheme" where
  "sess_closeWithoutMetric sid t = (if seClosed (tbHeap t ! sid) then t else mark_closed sid t)"

definition close_session ::
    "(Recorder \<Rightarrow> string \<Rightarrow> Recorder) \<Rightarrow> nat \<Rightarrow> string \<Rightarrow> ('a session_scheme, 'z) table_scheme \<Rightarrow> ('a session_scheme, 'z) table_scheme" where
  "close_session onclose sid reason t =
     (if is_current sid t then sess_close onclose sid reason (remove_session sid t) else sess_closeWithoutMetric sid t)"

definition close_all ::
    "(Recorder \<Rightarrow> string \<Rightarrow> Recorder) \<Rightarrow> string \<Rightarrow> nat list \<Rightarrow> ('a session_scheme, 'z) table_scheme \<Rightarrow> ('a session_scheme, 'z) table_scheme" where
  "close_all onclose reason sids t = foldl (\<lambda>t sid. sess_close onclose sid reason t) t sids"

section \<open>Steps\<close>

text \<open>
  The steps of a table are the critical sections and the closing of a session, in any order: whatever
  goroutines do concurrently is a sequence of steps. A goroutine closes a session only after it has
  seen, under the lock, that the session is not in the table any more. The last rule is everything
  that leaves the table and the gauge of sessions alone: other metrics, and the state of a component
  beyond its table.
\<close>

inductive tstep ::
    "(Recorder \<Rightarrow> Recorder) \<Rightarrow> (Recorder \<Rightarrow> string \<Rightarrow> Recorder) \<Rightarrow> collector \<Rightarrow> int \<Rightarrow>
       ('a session_scheme, 'z) table_scheme \<Rightarrow> ('a session_scheme, 'z) table_scheme \<Rightarrow> bool"
  for oncreate onclose g mx where
  step_insert: "\<not> seClosed s \<Longrightarrow> tstep oncreate onclose g mx t (snd (insert_session oncreate mx s t))"
| step_touch: "tstep oncreate onclose g mx t (touch sid now t)"
| step_remove: "sid < length (tbHeap t) \<Longrightarrow> tstep oncreate onclose g mx t (remove_session sid t)"
| step_remove_where: "tstep oncreate onclose g mx t (snd (remove_where P t))"
| step_close: "sid < length (tbHeap t) \<Longrightarrow> sid \<notin> snd ` set (tbSessions t) \<Longrightarrow> tstep oncreate onclose g mx t (sess_close onclose sid reason t)"
| step_close_quiet: "sid < length (tbHeap t) \<Longrightarrow> sid \<notin> snd ` set (tbSessions t) \<Longrightarrow> tstep oncreate onclose g mx t (sess_closeWithoutMetric sid t)"
| step_shutdown: "tstep oncreate onclose g mx t (t\<lparr>tbClosed := True, tbSessions := []\<rparr>)"
| step_other: "tbSessions t' = tbSessions t \<Longrightarrow> tbHeap t' = tbHeap t \<Longrightarrow> tbClosed t' = tbClosed t \<Longrightarrow>
     rel_option (\<lambda>m m'. recEnabled m' = recEnabled m \<and> gauge g m' = gauge g m) (tbMetrics t) (tbMetrics t') \<Longrightarrow>
     tstep oncreate onclose g mx t t'"

abbreviation tsteps where
  "tsteps oncreate onclose g mx \<equiv> (tstep oncreate onclose g mx)\<^sup>*\<^sup>*"

section \<open>Invariants\<close>

definition open_ids :: "('a session_scheme, 'z) table_scheme \<Rightarrow> nat set" where
  "open_ids t = {sid. sid < length (tbHeap t) \<and> \<not> seClosed (tbHeap t ! sid)}"

definition table_inv :: "int \<Rightarrow> ('a session_scheme, 'z) table_scheme \<Rightarrow> bool" where
  \<comment> \<open>the table holds open sessions under their own keys, at most \<open>mx\<close>, and none once it is closed\<close>
  "table_inv mx t \<longleftrightarrow>
     gm_wf (tbSessions t) \<and>
     (\<forall>k sid. gm_get (tbSessions t) k = Some sid \<longrightarrow> sid \<in> open_ids t \<and> seKey (tbHeap t ! sid) = k) \<and>
     int (gm_len (tbSessions t)) \<le> mx \<and> (tbClosed t \<longrightarrow> tbSessions t = [])"

definition gauge_covers :: "collector \<Rightarrow> ('a session_scheme, 'z) table_scheme \<Rightarrow> bool" where
  \<comment> \<open>the gauge counts at least the open sessions\<close>
  "gauge_covers g t \<longleftrightarrow>
     (case tbMetrics t of None \<Rightarrow> True | Some m \<Rightarrow> recEnabled m \<longrightarrow> int (card (open_ids t)) \<le> gauge g m)"

definition gauge_exact :: "collector \<Rightarrow> ('a session_scheme, 'z) table_scheme \<Rightarrow> bool" where
  \<comment> \<open>the gauge counts the open sessions\<close>
  "gauge_exact g t \<longleftrightarrow>
     (case tbMetrics t of None \<Rightarrow> True | Some m \<Rightarrow> recEnabled m \<longrightarrow> gauge g m = int (card (open_ids t)))"

definition settled :: "collector \<Rightarrow> ('a session_scheme, 'z) table_scheme \<Rightarrow> bool" where
  \<comment> \<open>between two handlers: the open sessions are those of the table, and the gauge counts them\<close>
  "settled g t \<longleftrightarrow> (\<forall>sid \<in> open_ids t. is_current sid t) \<and> gauge_exact g t"

lemma finite_open_ids [simp]: "finite (open_ids t)"
  by (simp add: open_ids_def)

lemma table_simps [simp]:
  "tbSessions (record_metric f t) = tbSessions t" "tbHeap (record_metric f t) = tbHeap t" "tbClosed (record_metric f t) = tbClosed t"
  "tbMetrics (record_metric f t) = map_option f (tbMetrics t)"
  "tbSessions (touch sid now t) = tbSessions t" "tbClosed (touch sid now t) = tbClosed t" "tbMetrics (touch sid now t) = tbMetrics t"
  "tbSessions (mark_closed sid t) = tbSessions t" "tbClosed (mark_closed sid t) = tbClosed t" "tbMetrics (mark_closed sid t) = tbMetrics t"
  "length (tbHeap (touch sid now t)) = length (tbHeap t)" "length (tbHeap (mark_closed sid t)) = length (tbHeap t)"
  by (simp_all add: record_metric_def touch_def mark_closed_def)

lemma update_same: "f (g (xs ! i)) = f (xs ! i) \<Longrightarrow> f (xs[i := g (xs ! i)] ! j) = f (xs ! j)"
  by (cases "i < length xs"; cases "j = i") (simp_all add: list_update_beyond)

lemma heap_keys [simp]:
  "seKey (tbHeap (touch sid now t) ! i) = seKey (tbHeap t ! i)" "seKey (tbHeap (mark_closed sid t) ! i) = seKey (tbHeap t ! i)"
  by (simp_all add: touch_def mark_closed_def update_same)

lemma open_ids_cong: "tbHeap t' = tbHeap t \<Longrightarrow> open_ids t' = open_ids t"
  by (simp add: open_ids_def)

lemma open_ids_record_metric [simp]: "open_ids (record_metric f t) = open_ids t"
  by (rule open_ids_cong) simp

lemma open_ids_touch [simp]: "open_ids (touch sid now t) = open_ids t"
  by (rule set_eqI, rename_tac x, case_tac "x = sid") (simp_all add: open_ids_def touch_def cong: conj_cong)

lemma open_ids_mark_closed [simp]: "open_ids (mark_closed sid t) = open_ids t - {sid}"
  by (rule set_eqI, rename_tac x, case_tac "x = sid") (simp_all add: open_ids_def mark_closed_def cong: conj_cong)

lemma open_ids_snoc:
  "tbHeap t' = tbHeap t @ [s] \<Longrightarrow> open_ids t' = (if seClosed s then open_ids t else insert (length (tbHeap t)) (open_ids t))"
  by (auto simp: open_ids_def nth_append less_Suc_eq)

lemma open_ids_update [simp]:
  "open_ids (t\<lparr>tbHeap := tbHeap t @ [s]\<rparr>) = (if seClosed s then open_ids t else insert (length (tbHeap t)) (open_ids t))"
  "open_ids (t\<lparr>tbSessions := x\<rparr>) = open_ids t" "open_ids (t\<lparr>tbClosed := c\<rparr>) = open_ids t"
  "open_ids (t\<lparr>tbSessions := x, tbHeap := tbHeap t @ [s]\<rparr>) = (if seClosed s then open_ids t else insert (length (tbHeap t)) (open_ids t))"
  by (simp_all add: open_ids_snoc) (simp_all add: open_ids_def)

lemma open_ids_less: "sid \<in> open_ids t \<Longrightarrow> sid < length (tbHeap t)"
  by (simp add: open_ids_def)

lemma removal_simps [simp]:
  "open_ids (remove_session sid t) = open_ids t" "open_ids (snd (remove_where P t)) = open_ids t"
  "tbHeap (remove_session sid t) = tbHeap t" "tbHeap (snd (remove_where P t)) = tbHeap t"
  "tbMetrics (remove_session sid t) = tbMetrics t" "tbMetrics (snd (remove_where P t)) = tbMetrics t"
  "tbClosed (remove_session sid t) = tbClosed t" "tbClosed (snd (remove_where P t)) = tbClosed t"
  by (simp_all add: remove_session_def remove_where_def)

lemma gauge_exact_same:
  "tbHeap t' = tbHeap t \<Longrightarrow> tbMetrics t' = tbMetrics t \<Longrightarrow> gauge_exact g t \<Longrightarrow> gauge_exact g t'"
  by (cases "tbMetrics t") (simp_all add: gauge_exact_def open_ids_def)

lemma in_table:
  assumes "table_inv mx t" and "sid \<in> snd ` set (tbSessions t)"
  shows "sid \<in> open_ids t" and "is_current sid t"
proof -
  from assms(2) obtain k where k: "(k, sid) \<in> set (tbSessions t)" by force
  moreover have "gm_wf (tbSessions t)" using assms(1) by (simp add: table_inv_def)
  ultimately have "gm_get (tbSessions t) k = Some sid" by (simp add: gm_in_get)
  with assms(1) show "sid \<in> open_ids t" "is_current sid t" by (auto simp: table_inv_def is_current_def)
qed

lemma is_current_in_table: "is_current sid t \<Longrightarrow> sid \<in> snd ` set (tbSessions t)"
  by (force simp: is_current_def dest: gm_get_in)

lemma table_ids:
  assumes "table_inv mx t"
  shows "gm_len (tbSessions t) = card (snd ` set (tbSessions t))" and "snd ` set (tbSessions t) \<subseteq> open_ids t"
proof -
  have "inj_on snd (set (tbSessions t))"
  proof (rule inj_onI)
    fix x y assume xy: "x \<in> set (tbSessions t)" "y \<in> set (tbSessions t)" "snd x = snd y"
    have "seKey (tbHeap t ! snd z) = fst z" if "z \<in> set (tbSessions t)" for z
    proof -
      have "gm_get (tbSessions t) (fst z) = Some (snd z)"
        using that assms gm_in_get [of "tbSessions t" "fst z" "snd z"] by (simp add: table_inv_def)
      with assms show ?thesis by (simp add: table_inv_def)
    qed
    from this [OF xy(1)] this [OF xy(2)] xy(3) show "x = y" by (simp add: prod_eq_iff)
  qed
  moreover have "distinct (tbSessions t)" using assms by (simp add: table_inv_def gm_wf_def distinct_map)
  ultimately show "gm_len (tbSessions t) = card (snd ` set (tbSessions t))" by (simp add: card_image distinct_card)
  show "snd ` set (tbSessions t) \<subseteq> open_ids t" using in_table(1) [OF assms] by blast
qed

lemma table_len_open: "table_inv mx t \<Longrightarrow> gm_len (tbSessions t) \<le> card (open_ids t)"
  by (simp add: table_ids(1) card_mono table_ids(2))

lemma settled_len_open:
  assumes "table_inv mx t" and "\<forall>sid \<in> open_ids t. is_current sid t"
  shows "gm_len (tbSessions t) = card (open_ids t)"
proof -
  have "open_ids t = snd ` set (tbSessions t)"
    using assms table_ids(2) [OF assms(1)] by (auto dest: is_current_in_table)
  then show ?thesis by (simp add: table_ids(1) [OF assms(1)])
qed

section \<open>Steps keep the invariants\<close>

lemma insert_session_cases:
  obtains (refused) e where "insert_session oncreate mx s t = (Inl e, t\<lparr>tbHeap := tbHeap t @ [s\<lparr>seClosed := True\<rparr>]\<rparr>)"
  | (existing) sid where "gm_get (tbSessions t) (seKey s) = Some sid" "\<not> tbClosed t"
      "insert_session oncreate mx s t = (Inr (sid, False), t\<lparr>tbHeap := tbHeap t @ [s\<lparr>seClosed := True\<rparr>]\<rparr>)"
  | (made) "gm_get (tbSessions t) (seKey s) = None" "\<not> tbClosed t" "int (gm_len (tbSessions t)) < mx"
      "insert_session oncreate mx s t = (Inr (length (tbHeap t), True),
         record_metric oncreate (t\<lparr>tbSessions := gm_set (tbSessions t) (seKey s) (length (tbHeap t)), tbHeap := tbHeap t @ [s]\<rparr>))"
  by (cases "tbClosed t"; cases "gm_get (tbSessions t) (seKey s)"; cases "int (gm_len (tbSessions t)) \<ge> mx")
    (auto simp: insert_session_def Let_def)

lemma table_inv_same:
  assumes "table_inv mx t" and "tbSessions t' = tbSessions t" and "tbClosed t' = tbClosed t"
    and "\<And>sid. sid \<in> snd ` set (tbSessions t) \<Longrightarrow> sid \<in> open_ids t \<Longrightarrow> sid \<in> open_ids t' \<and> seKey (tbHeap t' ! sid) = seKey (tbHeap t ! sid)"
  shows "table_inv mx t'"
proof -
  have "sid \<in> open_ids t' \<and> seKey (tbHeap t' ! sid) = k" if "gm_get (tbSessions t) k = Some sid" for k sid
  proof -
    have "sid \<in> snd ` set (tbSessions t)" using gm_get_in [OF that] by force
    with assms(1,4) that show ?thesis by (auto simp: table_inv_def)
  qed
  with assms(1-3) show ?thesis by (simp add: table_inv_def)
qed

lemma table_inv_drop:
  assumes "table_inv mx t" and "tbHeap t' = tbHeap t" and "tbClosed t' = tbClosed t"
    and "gm_wf (tbSessions t')" and "gm_len (tbSessions t') \<le> gm_len (tbSessions t)"
    and "\<And>k sid. gm_get (tbSessions t') k = Some sid \<Longrightarrow> gm_get (tbSessions t) k = Some sid"
  shows "table_inv mx t'"
  using assms open_ids_cong [OF assms(2)] unfolding table_inv_def by fastforce

lemma table_inv_insert:
  assumes "table_inv mx t" and "\<not> seClosed s"
  shows "table_inv mx (snd (insert_session oncreate mx s t))"
proof -
  have refused: "table_inv mx (t\<lparr>tbHeap := tbHeap t @ [s\<lparr>seClosed := True\<rparr>]\<rparr>)"
    by (rule table_inv_same [OF assms(1)]) (auto simp: open_ids_snoc nth_append dest: open_ids_less)
  show ?thesis
  proof (cases rule: insert_session_cases [where oncreate = oncreate and mx = mx and s = s and t = t])
    case made
    let ?m = "gm_set (tbSessions t) (seKey s) (length (tbHeap t))"
    have ids: "open_ids (snd (insert_session oncreate mx s t)) = insert (length (tbHeap t)) (open_ids t)"
      unfolding made(4) using assms(2) by simp
    have "sid \<in> insert (length (tbHeap t)) (open_ids t) \<and> seKey ((tbHeap t @ [s]) ! sid) = k" if "gm_get ?m k = Some sid" for k sid
    proof (cases "k = seKey s")
      case True
      with that show ?thesis by (auto simp: nth_append)
    next
      case False
      with that have "gm_get (tbSessions t) k = Some sid" by simp
      with assms(1) have "sid \<in> open_ids t" "seKey (tbHeap t ! sid) = k" by (simp_all add: table_inv_def)
      then show ?thesis by (simp add: nth_append open_ids_less)
    qed
    moreover have "gm_wf ?m" "int (gm_len ?m) \<le> mx" using assms(1) made by (simp_all add: table_inv_def gm_len_set)
    ultimately show ?thesis unfolding table_inv_def ids unfolding made(4) using made(2) by simp
  qed (use refused in simp_all)
qed

lemma table_inv_remove: "table_inv mx t \<Longrightarrow> table_inv mx (remove_session sid t)"
  unfolding remove_session_def
  using gm_len_del [of "seKey (tbHeap t ! sid)" "tbSessions t"]
  by (cases "is_current sid t") (auto simp: table_inv_def split: if_splits)

lemma table_inv_remove_where:
  assumes "table_inv mx t"
  shows "table_inv mx (snd (remove_where P t))"
  by (rule table_inv_drop [OF assms])
    (use assms in \<open>auto simp: remove_where_def table_inv_def gm_get_keep gm_len_keep split: option.splits if_splits\<close>)

lemma table_inv_mark_closed:
  assumes "table_inv mx t" and "sid \<notin> snd ` set (tbSessions t)"
  shows "table_inv mx (mark_closed sid t)"
  by (rule table_inv_same [OF assms(1)]) (use assms(2) in auto)

lemma table_inv_record_metric [simp]: "table_inv mx (record_metric f t) = table_inv mx t"
  by (simp add: table_inv_def)

lemma remove_session_gone:
  assumes "table_inv mx t"
  shows "sid \<notin> snd ` set (tbSessions (remove_session sid t))"
proof
  assume a: "sid \<in> snd ` set (tbSessions (remove_session sid t))"
  have "is_current sid (remove_session sid t)" by (rule in_table(2) [OF table_inv_remove [OF assms] a])
  then show False by (auto simp: is_current_def remove_session_def split: if_splits)
qed

lemma remove_where_gone:
  "snd ` set (tbSessions (snd (remove_where P t))) \<inter> set (fst (remove_where P t)) = {}"
  by (auto simp: remove_where_def gm_keep_def)

text \<open>The contract of the metrics: one operation adds one to the gauge of sessions, the other takes one away.\<close>

locale session_metrics =
  fixes oncreate :: "Recorder \<Rightarrow> Recorder" and onclose :: "Recorder \<Rightarrow> string \<Rightarrow> Recorder" and g :: collector
  assumes enabled: "recEnabled (oncreate m) = recEnabled m" "recEnabled (onclose m reason) = recEnabled m"
    and gauge_create: "recEnabled m \<Longrightarrow> gauge g (oncreate m) = gauge g m + 1"
    and gauge_close: "recEnabled m \<Longrightarrow> gauge g (onclose m reason) = gauge g m - 1"
begin

lemma covers_insert:
  assumes "gauge_covers g t" and "\<not> seClosed s"
  shows "gauge_covers g (snd (insert_session oncreate mx s t))"
proof (cases rule: insert_session_cases [where oncreate = oncreate and mx = mx and s = s and t = t])
  case made
  have "length (tbHeap t) \<notin> open_ids t" by (simp add: open_ids_def)
  then show ?thesis unfolding made(4) using assms
    by (simp add: gauge_covers_def enabled gauge_create split: option.splits)
qed (use assms(1) in \<open>simp_all add: gauge_covers_def split: option.splits\<close>)

lemma covers_close:
  assumes "gauge_covers g t" and "sid < length (tbHeap t)"
  shows "gauge_covers g (sess_close onclose sid reason t)"
proof (cases "seClosed (tbHeap t ! sid)")
  case False
  with assms(2) have "sid \<in> open_ids t" by (simp add: open_ids_def)
  then have "int (card (open_ids t - {sid})) = int (card (open_ids t)) - 1"
    using card_gt_0_iff [of "open_ids t"] by (auto simp: card_Diff_singleton of_nat_diff Suc_leI)
  with False assms(1) show ?thesis
    by (auto simp: sess_close_def gauge_covers_def enabled gauge_close split: option.splits)
qed (use assms in \<open>simp add: sess_close_def\<close>)

lemma covers_close_quiet: "gauge_covers g t \<Longrightarrow> gauge_covers g (sess_closeWithoutMetric sid t)"
proof -
  have "int (card (open_ids t - {sid})) \<le> int (card (open_ids t))" by (simp add: card_mono)
  then show "gauge_covers g t \<Longrightarrow> gauge_covers g (sess_closeWithoutMetric sid t)"
    by (auto simp: sess_closeWithoutMetric_def gauge_covers_def split: option.splits)
qed

lemma step_keeps_table:
  assumes "tstep oncreate onclose g mx t t'" and "table_inv mx t" and "0 \<le> mx"
  shows "table_inv mx t'"
  using assms(1)
proof (cases rule: tstep.cases)
  case (step_touch sid now)
  show ?thesis unfolding step_touch by (rule table_inv_same [OF assms(2)]) auto
next
  case (step_close sid reason)
  with assms(2) show ?thesis by (simp add: sess_close_def table_inv_mark_closed)
next
  case (step_close_quiet sid)
  with assms(2) show ?thesis by (simp add: sess_closeWithoutMetric_def table_inv_mark_closed)
next
  case step_shutdown
  with assms(2,3) show ?thesis by (simp add: table_inv_def)
next
  case step_other
  then have "open_ids t' = open_ids t" by (intro open_ids_cong)
  with step_other show ?thesis by (intro table_inv_same [OF assms(2)]) simp_all
qed (simp_all add: assms(2) table_inv_insert table_inv_remove table_inv_remove_where)

lemma step_keeps_covers:
  assumes "tstep oncreate onclose g mx t t'" and "gauge_covers g t"
  shows "gauge_covers g t'"
  using assms(1)
proof (cases rule: tstep.cases)
  case step_other
  then have "open_ids t' = open_ids t" by (intro open_ids_cong)
  with step_other(4) assms(2) show ?thesis by (cases "tbMetrics t"; cases "tbMetrics t'") (simp_all add: gauge_covers_def)
qed (use assms(2) in \<open>simp_all add: covers_insert covers_close covers_close_quiet\<close>,
    simp_all add: gauge_covers_def remove_session_def remove_where_def split: option.splits)

lemma steps_keep_table:
  "tsteps oncreate onclose g mx t t' \<Longrightarrow> table_inv mx t \<Longrightarrow> 0 \<le> mx \<Longrightarrow> table_inv mx t'"
  by (induction rule: rtranclp_induct) (auto intro: step_keeps_table)

lemma steps_keep:
  assumes "tsteps oncreate onclose g mx t t'" and "table_inv mx t" and "gauge_covers g t" and "0 \<le> mx"
  shows "table_inv mx t' \<and> gauge_covers g t'"
  using assms(1)
  by (induction rule: rtranclp_induct) (use assms(2-4) step_keeps_table step_keeps_covers in blast)+

lemma settled_insert:
  assumes "table_inv mx t" and "settled g t" and "\<not> seClosed s"
  shows "settled g (snd (insert_session oncreate mx s t))"
proof (cases rule: insert_session_cases [where oncreate = oncreate and mx = mx and s = s and t = t])
  case made
  let ?t = "t\<lparr>tbSessions := gm_set (tbSessions t) (seKey s) (length (tbHeap t)), tbHeap := tbHeap t @ [s]\<rparr>"
  have new: "length (tbHeap t) \<notin> open_ids t" by (simp add: open_ids_def)
  have "is_current sid ?t" if "sid \<in> open_ids t" for sid
  proof -
    have "is_current sid t" "sid < length (tbHeap t)" using assms(2) that by (simp_all add: settled_def open_ids_less)
    with made(1) show ?thesis by (auto simp: is_current_def nth_append)
  qed
  moreover have "is_current (length (tbHeap t)) ?t" by (simp add: is_current_def nth_append)
  ultimately show ?thesis unfolding made(4) using assms(2,3) new
    by (auto simp: settled_def gauge_exact_def is_current_def enabled gauge_create split: option.splits)
next
  case (refused e)
  then show ?thesis using assms(2) by (auto simp: settled_def gauge_exact_def is_current_def nth_append open_ids_less split: option.splits)
next
  case (existing sid)
  then show ?thesis using assms(2) by (auto simp: settled_def gauge_exact_def is_current_def nth_append open_ids_less split: option.splits)
qed

lemma settled_close_all:
  "distinct sids \<Longrightarrow> set sids \<subseteq> open_ids t \<Longrightarrow>
   gauge_exact g t \<Longrightarrow> \<forall>sid \<in> open_ids t - set sids. is_current sid t \<Longrightarrow>
   settled g (close_all onclose reason sids t) \<and> tbSessions (close_all onclose reason sids t) = tbSessions t"
proof (induction sids arbitrary: t)
  case Nil
  then show ?case by (simp add: settled_def close_all_def)
next
  case (Cons sid sids)
  let ?t = "sess_close onclose sid reason t"
  have sid: "sid \<in> open_ids t" using Cons.prems(2) by simp
  then have t: "?t = record_metric (\<lambda>m. onclose m reason) (mark_closed sid t)" by (simp add: sess_close_def open_ids_def)
  have "int (card (open_ids t - {sid})) = int (card (open_ids t)) - 1"
    using sid card_gt_0_iff [of "open_ids t"] by (auto simp: card_Diff_singleton of_nat_diff Suc_leI)
  with Cons.prems(3) have "gauge_exact g ?t"
    unfolding t by (auto simp: gauge_exact_def enabled gauge_close split: option.splits)
  moreover have "set sids \<subseteq> open_ids ?t" using Cons.prems(1,2) by (auto simp: t)
  moreover have "\<forall>s \<in> open_ids ?t - set sids. is_current s ?t" using Cons.prems(4) by (auto simp: t is_current_def)
  ultimately have "settled g (close_all onclose reason sids ?t) \<and> tbSessions (close_all onclose reason sids ?t) = tbSessions ?t"
    using Cons.prems(1) by (intro Cons.IH) simp_all
  then show ?case by (simp add: close_all_def t)
qed

lemma settled_remove_close:
  assumes "table_inv mx t" and "settled g t"
  shows "settled g (close_all onclose reason (fst (remove_where P t)) (snd (remove_where P t)))"
proof (rule conjunct1 [OF settled_close_all])
  have sids: "fst (remove_where P t) = filter P (map snd (tbSessions t))" by (simp add: remove_where_def)
  have "distinct (map snd (tbSessions t))"
    by (rule card_distinct) (simp only: set_map length_map table_ids(1) [OF assms(1)])
  then show "distinct (fst (remove_where P t))" unfolding sids by (rule distinct_filter)
  show "set (fst (remove_where P t)) \<subseteq> open_ids (snd (remove_where P t))"
    unfolding sids removal_simps set_filter set_map using table_ids(2) [OF assms(1)] by blast
  show "gauge_exact g (snd (remove_where P t))"
    using assms(2) by (intro gauge_exact_same [of "snd (remove_where P t)" t]) (simp_all add: settled_def)
  show "\<forall>sid \<in> open_ids (snd (remove_where P t)) - set (fst (remove_where P t)). is_current sid (snd (remove_where P t))"
  proof
    fix sid assume sid: "sid \<in> open_ids (snd (remove_where P t)) - set (fst (remove_where P t))"
    then have c: "is_current sid t" using assms(2) by (simp add: settled_def)
    with sid have "\<not> P sid" using is_current_in_table [OF c] unfolding sids set_filter set_map by blast
    moreover have "gm_wf (tbSessions t)" using assms(1) unfolding table_inv_def by blast
    ultimately show "is_current sid (snd (remove_where P t))"
      using c by (simp add: is_current_def remove_where_def gm_get_keep)
  qed
qed

lemma settled_close_session:
  assumes "table_inv mx t" and "settled g t" and "sid < length (tbHeap t)"
  shows "settled g (close_session onclose sid reason t)"
proof (cases "is_current sid t")
  case True
  then have "sid \<in> open_ids t" using is_current_in_table in_table(1) [OF assms(1)] by blast
  moreover have "\<forall>s \<in> open_ids t - {sid}. is_current s (remove_session sid t)"
    using assms(2) True by (auto simp: settled_def is_current_def remove_session_def)
  moreover have "gauge_exact g (remove_session sid t)"
    using assms(2) by (intro gauge_exact_same [of "remove_session sid t" t]) (simp_all add: settled_def)
  ultimately have "settled g (close_all onclose reason [sid] (remove_session sid t))"
    using settled_close_all [of "[sid]" "remove_session sid t"] by simp
  with True show ?thesis by (simp add: close_session_def close_all_def)
next
  case False
  with assms(2,3) have "seClosed (tbHeap t ! sid)" by (auto simp: settled_def open_ids_def)
  with False assms(2) show ?thesis by (simp add: close_session_def sess_closeWithoutMetric_def)
qed

lemma settled_touch: "settled g t \<Longrightarrow> settled g (touch sid now t)"
  by (simp add: settled_def gauge_exact_def is_current_def split: option.splits)

lemma settled_record_metric:
  "settled g t \<Longrightarrow> (\<And>m. recEnabled (f m) = recEnabled m \<and> gauge g (f m) = gauge g m) \<Longrightarrow> settled g (record_metric f t)"
  by (simp add: settled_def gauge_exact_def is_current_def split: option.splits)

end

section \<open>Handlers as steps\<close>

lemma close_session_steps:
  assumes "table_inv mx t" and "sid < length (tbHeap t)"
  shows "tsteps oncreate onclose g mx t (close_session onclose sid reason t)"
proof (cases "is_current sid t")
  case True
  have "tstep oncreate onclose g mx t (remove_session sid t)" using assms(2) by (rule step_remove)
  moreover have "tstep oncreate onclose g mx (remove_session sid t) (sess_close onclose sid reason (remove_session sid t))"
    using assms(2) remove_session_gone [OF assms(1), of sid] by (intro step_close) simp_all
  ultimately show ?thesis using True by (simp add: close_session_def)
next
  case False
  have "sid \<notin> snd ` set (tbSessions t)" using False in_table(2) [OF assms(1)] by blast
  with assms(2) False show ?thesis by (simp add: close_session_def r_into_rtranclp step_close_quiet)
qed

lemma sess_close_table [simp]:
  "tbSessions (sess_close onclose sid reason t) = tbSessions t" "length (tbHeap (sess_close onclose sid reason t)) = length (tbHeap t)"
  by (simp_all add: sess_close_def)

lemma close_session_heap [simp]: "length (tbHeap (close_session onclose sid reason t)) = length (tbHeap t)"
  by (simp add: close_session_def sess_closeWithoutMetric_def)

lemma close_all_steps:
  "set sids \<inter> snd ` set (tbSessions t) = {} \<Longrightarrow> \<forall>sid \<in> set sids. sid < length (tbHeap t) \<Longrightarrow>
     tsteps oncreate onclose g mx t (close_all onclose reason sids t)"
proof (induction sids arbitrary: t)
  case (Cons sid sids)
  have "tstep oncreate onclose g mx t (sess_close onclose sid reason t)" using Cons.prems by (intro step_close) auto
  moreover have "tsteps oncreate onclose g mx (sess_close onclose sid reason t) (close_all onclose reason sids (sess_close onclose sid reason t))"
    using Cons.prems by (intro Cons.IH) auto
  ultimately show ?case by (simp add: close_all_def)
qed (simp add: close_all_def)

lemma remove_close_steps:
  assumes "table_inv mx t"
  shows "tsteps oncreate onclose g mx t (close_all onclose reason (fst (remove_where P t)) (snd (remove_where P t)))"
proof -
  have "set (fst (remove_where P t)) \<subseteq> snd ` set (tbSessions t)" by (auto simp: remove_where_def)
  then have "\<forall>sid \<in> set (fst (remove_where P t)). sid < length (tbHeap t)"
    using table_ids(2) [OF assms] open_ids_less by blast
  then have "tsteps oncreate onclose g mx (snd (remove_where P t)) (close_all onclose reason (fst (remove_where P t)) (snd (remove_where P t)))"
    using remove_where_gone [of P t] by (intro close_all_steps) auto
  then show ?thesis by (rule converse_rtranclp_into_rtranclp [rotated]) (rule step_remove_where)
qed

lemma record_metric_step:
  "(\<And>m. recEnabled (f m) = recEnabled m \<and> gauge g (f m) = gauge g m) \<Longrightarrow> tstep oncreate onclose g mx t (record_metric f t)"
  by (rule step_other) (simp_all add: option.rel_map option.rel_refl)

text \<open>A session that has left the table does not come back.\<close>

lemma set_gm_set: "set (gm_set m k v) \<subseteq> insert (k, v) (set m)"
  by (induction m) auto

lemma step_gone:
  assumes "tstep oncreate onclose g mx t t'" and "sid < length (tbHeap t)" and "sid \<notin> snd ` set (tbSessions t)"
  shows "sid < length (tbHeap t') \<and> sid \<notin> snd ` set (tbSessions t')"
  using assms(1)
proof (cases rule: tstep.cases)
  case (step_insert s)
  have "snd ` set (gm_set (tbSessions t) k v) \<subseteq> insert v (snd ` set (tbSessions t))" for k v
    using set_gm_set [where m = "tbSessions t" and k = k and v = v] by auto
  moreover have "sid \<notin> insert (length (tbHeap t)) (snd ` set (tbSessions t))" using assms(2,3) by simp
  ultimately have n: "sid \<notin> snd ` set (gm_set (tbSessions t) (seKey s) (length (tbHeap t)))" by blast
  show ?thesis unfolding step_insert
    by (cases rule: insert_session_cases [where oncreate = oncreate and mx = mx and s = s and t = t])
      (simp_all only: snd_conv table_simps table.simps n assms(3) length_append length_Cons, use assms(2,3) n in simp_all)
next
  case (step_remove s)
  have "set (gm_del (tbSessions t) k) \<subseteq> set (tbSessions t)" for k by (auto simp: AList.delete_eq)
  then have "sid \<notin> snd ` set (gm_del (tbSessions t) (seKey (tbHeap t ! s)))" using assms(3) by blast
  with assms(2,3) show ?thesis unfolding step_remove remove_session_def by (cases "is_current s t") simp_all
next
  case (step_remove_where P)
  have "snd ` set (tbSessions (snd (remove_where P t))) \<subseteq> snd ` set (tbSessions t)" by (auto simp: remove_where_def gm_keep_def)
  with assms(2,3) show ?thesis unfolding step_remove_where by auto
qed (use assms(2,3) in \<open>simp_all add: sess_closeWithoutMetric_def\<close>)

interpretation udp: session_metrics UDPSessionCreated UDPSessionClosed udpSessions
  by unfold_locales (simp_all add: UDPSessionCreated_def UDPSessionClosed_def collector_defs)

interpretation voice: session_metrics VoiceChatSessionCreated VoiceChatSessionClosed voicechatSessions
  by unfold_locales (simp_all add: VoiceChatSessionCreated_def VoiceChatSessionClosed_def collector_defs)

end
