(* ===== verification/Udprelay.thy ===== *)
theory Udprelay
  imports Sessions
begin

text \<open>
  The UDP relay, \<open>internal/udprelay\<close>: the resolvers of \<open>router.go\<close> and the sessions of \<open>relay.go\<close>. A
  relay is a session table with its configuration and its resolver. A handler is a function on the
  relay: one packet of a client, one packet of a backend, one tick of the cleaner, the shutdown. What
  the network does is an argument. Loops that visit the sessions of a map visit them in the order of
  the table; the order only shows in the order of the calls on the metrics.
\<close>

section \<open>Addresses and resolvers\<close>

definition cloneUDPAddr :: "UDPAddr option \<Rightarrow> UDPAddr option" where
  \<comment> \<open>a copy: the values of the model are not shared\<close>
  "cloneUDPAddr addr = (case addr of None \<Rightarrow> None | Some cloned \<Rightarrow> Some (cloned\<lparr>uaIP := uaIP cloned @ []\<rparr>))"

definition validateBackendAddr :: "UDPAddr option \<Rightarrow> error option" where
  "validateBackendAddr addr =
     (case addr of
        None \<Rightarrow> Some [Msg ''resolved address is empty'']
      | Some a \<Rightarrow>
          if uaIP a = [] then Some [Msg ''resolved address is empty'']
          else if IP_IsUnspecified (uaIP a) then Some [Msg ''resolved address must not be unspecified'']
          else if IP_IsMulticast (uaIP a) then Some [Msg ''resolved address must not be multicast'']
          else if (case To4 (uaIP a) of Some ip4 \<Rightarrow> IP_Equal ip4 IPv4bcast | None \<Rightarrow> False)
          then Some [Msg ''resolved address must not be broadcast'']
          else None)"

record BackendSelection =
  bsName :: string
  bsAddr :: "UDPAddr option"

record BackendResolver =
  brResolveBackend :: "UDPAddr \<Rightarrow> bytes \<Rightarrow> BackendSelection result"
  brDefaultBackend :: string

text \<open>The network: resolving an address (which yields one or an error), listening, dialling.\<close>

record udp_env =
  ueResolve :: "string \<Rightarrow> UDPAddr result"
  ueListen :: "UDPAddr \<Rightarrow> error option"
  ueDial :: "string \<Rightarrow> dial_result"

definition resolveBackend :: "udp_env \<Rightarrow> string \<Rightarrow> UDPAddr result" where
  "resolveBackend e backend =
     (case ueResolve e backend of
        Inl err \<Rightarrow> Inl err
      | Inr addr \<Rightarrow> (case validateBackendAddr (Some addr) of Some err \<Rightarrow> Inl err | None \<Rightarrow> Inr addr))"

definition static_ResolveBackend :: "UDPAddr \<Rightarrow> UDPAddr \<Rightarrow> bytes \<Rightarrow> BackendSelection result" where
  "static_ResolveBackend backend client payload = Inr \<lparr>bsName = ''default'', bsAddr = cloneUDPAddr (Some backend)\<rparr>"

definition static_DefaultBackend :: "UDPAddr \<Rightarrow> string" where
  "static_DefaultBackend backend = UDPAddr_String backend"

definition NewStaticBackendResolver :: "udp_env \<Rightarrow> string \<Rightarrow> BackendResolver result" where
  "NewStaticBackendResolver e backend =
     (case resolveBackend e backend of
        Inl err \<Rightarrow> Inl err
      | Inr addr \<Rightarrow> Inr \<lparr>brResolveBackend = static_ResolveBackend addr, brDefaultBackend = static_DefaultBackend addr\<rparr>)"

record NamedBackendRoute =
  nbName :: string
  nbBackend :: string

record namedBackendResolver =
  nrDefaultBackend :: "UDPAddr option"
  nrRoutes :: "(string, UDPAddr) gomap"

fun resolve_routes :: "udp_env \<Rightarrow> NamedBackendRoute list \<Rightarrow> (string, UDPAddr) gomap \<Rightarrow> (string, UDPAddr) gomap result" where
  "resolve_routes e [] m = Inr m"
| "resolve_routes e (route # routes) m =
     (if gm_get m (nbName route) \<noteq> None then Inl [Msg ''duplicate UDP backend route'']
      else (case resolveBackend e (nbBackend route) of
              Inl err \<Rightarrow> Inl err
            | Inr addr \<Rightarrow> resolve_routes e routes (gm_set m (nbName route) addr)))"

definition NewNamedBackendResolver :: "udp_env \<Rightarrow> string \<Rightarrow> NamedBackendRoute list \<Rightarrow> namedBackendResolver result" where
  "NewNamedBackendResolver e defaultBackend routes =
     (case resolveBackend e defaultBackend of
        Inl err \<Rightarrow> Inl err
      | Inr defaultAddr \<Rightarrow>
          (case resolve_routes e routes [] of
             Inl err \<Rightarrow> Inl err
           | Inr resolvedRoutes \<Rightarrow> Inr \<lparr>nrDefaultBackend = Some defaultAddr, nrRoutes = resolvedRoutes\<rparr>))"

definition named_ResolveBackend :: "namedBackendResolver \<Rightarrow> UDPAddr \<Rightarrow> bytes \<Rightarrow> BackendSelection result" where
  "named_ResolveBackend r client payload =
     (if nrDefaultBackend r = None then Inl [Msg ''default backend is not configured'']
      else Inr \<lparr>bsName = ''default'', bsAddr = cloneUDPAddr (nrDefaultBackend r)\<rparr>)"

definition named_DefaultBackend :: "namedBackendResolver \<Rightarrow> string" where
  "named_DefaultBackend r = (case nrDefaultBackend r of None \<Rightarrow> '''' | Some a \<Rightarrow> UDPAddr_String a)"

definition RouteNames :: "namedBackendResolver \<Rightarrow> string list" where
  "RouteNames r = sort (map fst (nrRoutes r))"

section \<open>The relay\<close>

record relay_Config =
  rcListen :: string
  rcBackend :: string
  rcResolver :: "BackendResolver option"
  rcIdleTimeout :: int
  rcBackendDialTimeout :: int
  rcMaxSessions :: int
  rcMaxPacketSize :: int

record relay_session = session +
  rsBackendAddr :: UDPAddr

record Relay = "relay_session table" +
  rlCfg :: relay_Config
  rlResolver :: BackendResolver

definition Relay_New :: "udp_env \<Rightarrow> relay_Config \<Rightarrow> Recorder option \<Rightarrow> Relay result" where
  "Relay_New e cfg metrics =
     (if rcIdleTimeout cfg \<le> 0 then Inl [Msg ''idle timeout must be positive'']
      else if rcBackendDialTimeout cfg \<le> 0 then Inl [Msg ''backend dial timeout must be positive'']
      else if rcMaxSessions cfg \<le> 0 then Inl [Msg ''max sessions must be positive'']
      else if rcMaxPacketSize cfg \<le> 0 then Inl [Msg ''max packet size must be positive'']
      else (case ueResolve e (rcListen cfg) of
              Inl err \<Rightarrow> Inl err
            | Inr listenAddr \<Rightarrow>
                (case (case rcResolver cfg of Some r \<Rightarrow> Inr r | None \<Rightarrow> NewStaticBackendResolver e (rcBackend cfg)) of
                   Inl err \<Rightarrow> Inl err
                 | Inr resolver \<Rightarrow>
                     (case ueListen e listenAddr of
                        Some err \<Rightarrow> Inl err
                      | None \<Rightarrow> Inr \<lparr>tbSessions = [], tbHeap = [], tbClosed = False, tbMetrics = metrics,
                          rlCfg = cfg, rlResolver = resolver\<rparr>))))"

definition relay_packet :: "string \<Rightarrow> string \<Rightarrow> nat \<Rightarrow> Relay \<Rightarrow> Relay" where
  "relay_packet direction result bytes r = record_metric (\<lambda>m. UDPPacket m direction result bytes) r"

definition relay_closeSession :: "nat \<Rightarrow> string \<Rightarrow> Relay \<Rightarrow> Relay" where
  "relay_closeSession sid reason r = close_session UDPSessionClosed sid reason r"

definition relay_sessionIsCurrent :: "nat \<Rightarrow> Relay \<Rightarrow> bool" where
  "relay_sessionIsCurrent sid r \<longleftrightarrow> \<not> tbClosed r \<and> is_current sid r"

definition sessionForClient :: "udp_env \<Rightarrow> int \<Rightarrow> UDPAddr \<Rightarrow> bytes \<Rightarrow> Relay \<Rightarrow> (nat \<times> bool) result \<times> Relay" where
  "sessionForClient e now clientAddr initialPayload r =
     (let key = UDPAddr_String clientAddr in
      if tbClosed r then (Inl [ErrClosed], r)
      else (case gm_get (tbSessions r) key of
              Some sess \<Rightarrow> (Inr (sess, False), r)
            | None \<Rightarrow>
                if int (gm_len (tbSessions r)) \<ge> rcMaxSessions (rlCfg r) then (Inl [ErrSessionLimit], r)
                else (case brResolveBackend (rlResolver r) clientAddr initialPayload of
                        Inl err \<Rightarrow> (Inl err, r)
                      | Inr selection \<Rightarrow>
                          (case bsAddr selection of
                             None \<Rightarrow> (Inl [Msg ''backend resolver returned empty address''], r)
                           | Some addr \<Rightarrow>
                               (case ueDial e (UDPAddr_String addr) of
                                  DialError err \<Rightarrow> (Inl err, r)
                                | DialOther \<Rightarrow> (Inl [Msg ''backend dial did not return UDP connection''], r)
                                | DialUDP \<Rightarrow>
                                    insert_session UDPSessionCreated (rcMaxSessions (rlCfg r))
                                      \<lparr>seKey = key, seClientAddr = clientAddr, seLastActivity = now, seClosed = False,
                                       rsBackendAddr = addr\<rparr> r)))))"

definition forwardToBackend ::
    "udp_env \<Rightarrow> (nat \<Rightarrow> bytes \<Rightarrow> error option) \<Rightarrow> int \<Rightarrow> UDPAddr \<Rightarrow> bytes \<Rightarrow> Relay \<Rightarrow> error option \<times> Relay \<times> (nat \<times> bytes) list" where
  \<comment> \<open>\<open>write\<close> is what writing to the connection of a session answers; the last component is what was written\<close>
  "forwardToBackend e write now clientAddr payload r =
     (case sessionForClient e now clientAddr payload r of
        (Inl err, r1) \<Rightarrow>
          if errors_Is err ErrSessionLimit
          then (Some err, relay_packet UDPPacketDirectionClientToBackend UDPPacketResultDroppedSessionLimit (length payload) r1, [])
          else (Some err, relay_packet UDPPacketDirectionClientToBackend UDPPacketResultDroppedWriteError (length payload) r1, [])
      | (Inr (sess, created), r1) \<Rightarrow>
          (let r2 = touch sess now r1 in
           case write sess payload of
             Some err \<Rightarrow>
               (Some err,
                relay_closeSession sess UDPSessionCloseReasonBackendError
                  (relay_packet UDPPacketDirectionClientToBackend UDPPacketResultDroppedWriteError (length payload) r2), [])
           | None \<Rightarrow>
               (None, relay_packet UDPPacketDirectionClientToBackend UDPPacketResultForwarded (length payload) r2, [(sess, payload)])))"

text \<open>
  A read yields an error or a datagram, cut to the size of the buffer, which is one byte more than a
  packet may have.
\<close>

datatype udp_read = ReadError error | ReadPacket_from UDPAddr bytes

definition read_buffer :: "relay_Config \<Rightarrow> bytes \<Rightarrow> bytes" where
  "read_buffer cfg data = take (nat (rcMaxPacketSize cfg + 1)) data"

definition Serve_step ::
    "udp_env \<Rightarrow> (nat \<Rightarrow> bytes \<Rightarrow> error option) \<Rightarrow> int \<Rightarrow> bool \<Rightarrow> udp_read \<Rightarrow> Relay \<Rightarrow> bool \<times> Relay \<times> (nat \<times> bytes) list" where
  \<comment> \<open>one round of the loop of \<open>Serve\<close>: whether it goes on; \<open>done\<close> is whether the context has ended\<close>
  "Serve_step e write now done ev r =
     (case ev of
        ReadError err \<Rightarrow>
          if done \<or> errors_Is err ErrClosed \<or> tbClosed r then (False, r, [])
          else (True, relay_packet UDPPacketDirectionClientToBackend UDPPacketResultDroppedReadError 0 r, [])
      | ReadPacket_from clientAddr data \<Rightarrow>
          (let buf = read_buffer (rlCfg r) data; n = length buf in
           if int n > rcMaxPacketSize (rlCfg r)
           then (True, relay_packet UDPPacketDirectionClientToBackend UDPPacketResultDroppedReadError n r, [])
           else (case forwardToBackend e write now clientAddr buf r of (err, r', sent) \<Rightarrow> (True, r', sent))))"

definition readBackend_step ::
    "(bytes \<Rightarrow> error option) \<Rightarrow> int \<Rightarrow> nat \<Rightarrow> bytes result \<Rightarrow> Relay \<Rightarrow> bool \<times> Relay \<times> (UDPAddr \<times> bytes) list" where
  \<comment> \<open>one round of the loop of \<open>readBackend\<close>: whether it goes on, and what was sent to the client\<close>
  "readBackend_step write now sid ev r =
     (case ev of
        Inl err \<Rightarrow>
          if seClosed (tbHeap r ! sid) \<or> tbClosed r then (False, r, [])
          else (False, relay_closeSession sid UDPSessionCloseReasonBackendError
                  (relay_packet UDPPacketDirectionBackendToClient UDPPacketResultDroppedReadError 0 r), [])
      | Inr data \<Rightarrow>
          (let buf = read_buffer (rlCfg r) data; n = length buf in
           if int n > rcMaxPacketSize (rlCfg r)
           then (True, relay_packet UDPPacketDirectionBackendToClient UDPPacketResultDroppedReadError n r, [])
           else if \<not> relay_sessionIsCurrent sid r then (False, r, [])
           else (case write buf of
                   Some err \<Rightarrow>
                     (let r1 = relay_packet UDPPacketDirectionBackendToClient UDPPacketResultDroppedWriteError (length buf) r in
                      if tbClosed r1 \<or> errors_Is err ErrClosed then (False, r1, [])
                      else (False, relay_closeSession sid UDPSessionCloseReasonBackendError r1, []))
                 | None \<Rightarrow>
                     (True, relay_packet UDPPacketDirectionBackendToClient UDPPacketResultForwarded (length buf) (touch sid now r),
                      [(seClientAddr (tbHeap r ! sid), buf)]))))"

definition relay_expire :: "int \<Rightarrow> Relay \<Rightarrow> Relay" where
  \<comment> \<open>one tick of \<open>expireSessions\<close>\<close>
  "relay_expire now r =
     foldl (\<lambda>r sid. if now - seLastActivity (tbHeap r ! sid) \<ge> rcIdleTimeout (rlCfg r)
                    then relay_closeSession sid UDPSessionCloseReasonIdleTimeout r else r)
       r (map snd (tbSessions r))"

definition cleanupInterval :: "int \<Rightarrow> int" where
  "cleanupInterval idleTimeout =
     (let interval = idleTimeout div 2 in
      if interval < 10 * 1000000 then 10 * 1000000
      else if interval > 1000000000 then 1000000000
      else interval)"

definition Relay_Close :: "Relay \<Rightarrow> Relay" where
  \<comment> \<open>once; afterwards the relay is closed\<close>
  "Relay_Close r =
     (if tbClosed r then r
      else close_all UDPSessionClosed UDPSessionCloseReasonShutdown (map snd (tbSessions r))
             (r\<lparr>tbClosed := True, tbSessions := []\<rparr>))"

section \<open>Handlers\<close>

datatype relay_event =
    EvServe "nat \<Rightarrow> bytes \<Rightarrow> error option" int bool udp_read
  | EvBackend "bytes \<Rightarrow> error option" int nat "bytes result"
  | EvTick int
  | EvClose

fun run_relay :: "udp_env \<Rightarrow> relay_event \<Rightarrow> Relay \<Rightarrow> Relay" where
  "run_relay e (EvServe write now ended ev) r = fst (snd (Serve_step e write now ended ev r))"
| "run_relay e (EvBackend write now sid ev) r = fst (snd (readBackend_step write now sid ev r))"
| "run_relay e (EvTick now) r = relay_expire now r"
| "run_relay e EvClose r = Relay_Close r"

fun event_ok :: "relay_event \<Rightarrow> Relay \<Rightarrow> bool" where
  \<comment> \<open>a goroutine that reads from a backend belongs to a session\<close>
  "event_ok (EvBackend write now sid ev) r = (sid < length (tbHeap r))"
| "event_ok _ r = True"

inductive relay_reachable :: "udp_env \<Rightarrow> relay_Config \<Rightarrow> Relay \<Rightarrow> bool" for e cfg where
  relay_started: "Relay_New e cfg metrics = Inr r \<Longrightarrow>
    (case metrics of None \<Rightarrow> True | Some m \<Rightarrow> gauge udpSessions m = 0) \<Longrightarrow> relay_reachable e cfg r"
| relay_handled: "relay_reachable e cfg r \<Longrightarrow> event_ok ev r \<Longrightarrow> relay_reachable e cfg (run_relay e ev r)"

abbreviation relay_steps :: "int \<Rightarrow> Relay \<Rightarrow> Relay \<Rightarrow> bool" where
  "relay_steps mx \<equiv> tsteps UDPSessionCreated UDPSessionClosed udpSessions mx"

section \<open>Handlers are sequences of steps\<close>

lemma UDPPacket_gauge [simp]: "gauge udpSessions (UDPPacket m d res n) = gauge udpSessions m"
  by (simp add: UDPPacket_def Let_def collector_defs)

lemma rlCfg_simps [simp]:
  "rlCfg (record_metric f r) = rlCfg r" "rlCfg (touch sid now r) = rlCfg r" "rlCfg (mark_closed sid r) = rlCfg r"
  "rlCfg (remove_session sid r) = rlCfg r" "rlCfg (snd (insert_session oncreate mx s r)) = rlCfg r"
  by (auto simp: record_metric_def touch_def mark_closed_def remove_session_def insert_session_def Let_def split: option.split)

lemma rlCfg_close [simp]:
  "rlCfg (sess_close onclose sid reason r) = rlCfg r" "rlCfg (relay_closeSession sid reason r) = rlCfg r"
  "rlCfg (relay_packet d res n r) = rlCfg r" "tbHeap (relay_packet d res n r) = tbHeap r" "tbSessions (relay_packet d res n r) = tbSessions r"
  "tbClosed (relay_packet d res n r) = tbClosed r"
  by (simp_all add: sess_close_def relay_closeSession_def close_session_def sess_closeWithoutMetric_def relay_packet_def)

lemma rlCfg_close_all [simp]: "rlCfg (close_all onclose reason sids r) = rlCfg r" for r :: Relay
  unfolding close_all_def by (induction sids arbitrary: r) simp_all

lemma packet_step: "relay_steps mx r (relay_packet d res n r)"
  unfolding relay_packet_def by (intro r_into_rtranclp record_metric_step) simp

lemma packet_settled [intro]: "settled udpSessions r \<Longrightarrow> settled udpSessions (relay_packet d res n r)"
  unfolding relay_packet_def by (rule udp.settled_record_metric) simp_all

lemma packet_inv [simp]: "table_inv mx (relay_packet d res n r) = table_inv mx r"
  by (simp add: relay_packet_def)

lemma touch_step: "relay_steps mx r (touch sid now r)"
  by (rule r_into_rtranclp) (rule step_touch)

text \<open>What a handler may do: steps, which leave a settled table settled and keep the configuration.\<close>

definition good_handler :: "Relay \<Rightarrow> Relay \<Rightarrow> bool" where
  "good_handler r r' \<longleftrightarrow>
     relay_steps (rcMaxSessions (rlCfg r)) r r' \<and> rlCfg r' = rlCfg r \<and> length (tbHeap r) \<le> length (tbHeap r') \<and>
     (settled udpSessions r \<longrightarrow> settled udpSessions r')"

definition relay_ok :: "Relay \<Rightarrow> bool" where
  "relay_ok r \<longleftrightarrow> table_inv (rcMaxSessions (rlCfg r)) r \<and> 0 < rcMaxSessions (rlCfg r)"

lemma good_handler_refl [simp]: "good_handler r r"
  by (simp add: good_handler_def)

lemma good_handler_ok: "relay_ok r \<Longrightarrow> good_handler r r' \<Longrightarrow> relay_ok r'"
  by (auto simp: relay_ok_def good_handler_def intro: udp.steps_keep_table)

lemma good_handler_trans: "good_handler r r' \<Longrightarrow> good_handler r' r'' \<Longrightarrow> good_handler r r''"
  by (auto simp: good_handler_def)

lemma good_packet [intro]: "good_handler r (relay_packet d res n r)"
  by (auto simp: good_handler_def intro: packet_step)

lemma good_touch [intro]: "good_handler r (touch sid now r)"
  by (simp add: good_handler_def touch_step udp.settled_touch)

lemma good_close [intro]: "relay_ok r \<Longrightarrow> sid < length (tbHeap r) \<Longrightarrow> good_handler r (relay_closeSession sid reason r)"
  unfolding good_handler_def
  by (auto simp: relay_ok_def relay_closeSession_def intro: udp.settled_close_session close_session_steps)
    (simp add: relay_closeSession_def [symmetric])

lemma good_insert: "relay_ok r \<Longrightarrow> \<not> seClosed s \<Longrightarrow> good_handler r (snd (insert_session UDPSessionCreated (rcMaxSessions (rlCfg r)) s r))"
  unfolding good_handler_def relay_ok_def
  by (auto intro: udp.settled_insert r_into_rtranclp step_insert)
    (cases rule: insert_session_cases [where oncreate = UDPSessionCreated and mx = "rcMaxSessions (rlCfg r)" and s = s and t = r], simp_all)

lemma sessionForClient_good: "relay_ok r \<Longrightarrow> good_handler r (snd (sessionForClient e now c p r))"
  by (auto simp: sessionForClient_def Let_def good_insert split: option.split sum.split dial_result.split)

lemma sessionForClient_result:
  assumes "relay_ok r" and "sessionForClient e now c p r = (Inr (sid, created), r')"
  shows "gm_get (tbSessions r') (UDPAddr_String c) = Some sid" and "sid < length (tbHeap r')"
proof -
  show g: "gm_get (tbSessions r') (UDPAddr_String c) = Some sid"
    using assms(2)
    by (auto simp: sessionForClient_def insert_session_def Let_def split: option.splits sum.splits dial_result.splits if_splits)
  have "relay_ok r'" using good_handler_ok [OF assms(1) sessionForClient_good [OF assms(1), of e now c p]] assms(2) by simp
  with g show "sid < length (tbHeap r')" by (auto simp: relay_ok_def table_inv_def dest: open_ids_less)
qed

lemma forward_good:
  assumes "relay_ok r"
  shows "good_handler r (fst (snd (forwardToBackend e write now c p r)))"
proof (cases "sessionForClient e now c p r")
  case (Pair x r1)
  have g1: "good_handler r r1" using sessionForClient_good [OF assms, of e now c p] by (simp add: Pair)
  show ?thesis
  proof (cases x)
    case (Inl err)
    then show ?thesis using g1 by (auto simp: forwardToBackend_def Pair intro: good_handler_trans)
  next
    case (Inr y)
    obtain sid created where y: "y = (sid, created)" by (cases y)
    let ?r2 = "touch sid now r1"
    let ?r3 = "\<lambda>res. relay_packet UDPPacketDirectionClientToBackend res (length p) ?r2"
    have sid: "sid < length (tbHeap r1)" using sessionForClient_result(2) [OF assms, of e now c p] Pair Inr y by blast
    have g3: "good_handler r (?r3 res)" for res using g1 by (blast intro: good_handler_trans)
    have "good_handler (?r3 res) (relay_closeSession sid reason (?r3 res))" for res reason
      using good_handler_ok [OF assms g3] sid by (intro good_close) simp_all
    with g3 have "good_handler r (relay_closeSession sid reason (?r3 res))" for res reason by (blast intro: good_handler_trans)
    with g3 show ?thesis by (simp add: forwardToBackend_def Pair Inr y Let_def split: option.split)
  qed
qed

lemma Serve_good: "relay_ok r \<Longrightarrow> good_handler r (fst (snd (Serve_step e write now ended ev r)))"
  using forward_good [of r e "write" now]
  by (auto simp: Serve_step_def Let_def case_prod_beta split: udp_read.split)

lemma readBackend_good:
  assumes "relay_ok r" and "sid < length (tbHeap r)"
  shows "good_handler r (fst (snd (readBackend_step write now sid ev r)))"
proof -
  have "good_handler r (relay_closeSession sid reason (relay_packet d res n r))" for reason d res n
    using good_handler_ok [OF assms(1) good_packet] assms(2) by (intro good_handler_trans [OF good_packet good_close]) simp_all
  moreover have "good_handler r (relay_packet d res n (touch sid now r))" for d res n
    by (rule good_handler_trans [OF good_touch good_packet])
  ultimately show ?thesis by (auto simp: readBackend_step_def Let_def split: sum.split option.split)
qed

lemma Close_good:
  assumes "relay_ok r"
  shows "good_handler r (Relay_Close r)"
proof (cases "tbClosed r")
  case False
  let ?r = "r\<lparr>tbClosed := True, tbSessions := []\<rparr>" and ?sids = "map snd (tbSessions r)"
  have inv: "table_inv (rcMaxSessions (rlCfg r)) r" using assms by (simp add: relay_ok_def)
  have sids: "set ?sids \<subseteq> open_ids r" using table_ids(2) [OF inv] by simp
  have "tstep UDPSessionCreated UDPSessionClosed udpSessions (rcMaxSessions (rlCfg r)) r ?r" by (rule step_shutdown)
  moreover have "relay_steps (rcMaxSessions (rlCfg r)) ?r (close_all UDPSessionClosed UDPSessionCloseReasonShutdown ?sids ?r)"
    using sids by (intro close_all_steps) (auto dest: open_ids_less)
  moreover have "settled udpSessions (close_all UDPSessionClosed UDPSessionCloseReasonShutdown ?sids ?r)" if "settled udpSessions r"
  proof (rule conjunct1 [OF udp.settled_close_all])
    show "distinct ?sids" by (rule card_distinct) (simp only: set_map length_map table_ids(1) [OF inv])
    show "set ?sids \<subseteq> open_ids ?r" using sids by simp
    show "gauge_exact udpSessions ?r" using that by (intro gauge_exact_same [of ?r r]) (simp_all add: settled_def)
    show "\<forall>sid \<in> open_ids ?r - set ?sids. is_current sid ?r"
      using that is_current_in_table by (auto simp: settled_def)
  qed
  moreover have "length (tbHeap (close_all UDPSessionClosed reason sids x)) = length (tbHeap x)" for reason sids and x :: Relay
    unfolding close_all_def by (induction sids arbitrary: x) simp_all
  ultimately show ?thesis using False by (auto simp: Relay_Close_def good_handler_def intro: converse_rtranclp_into_rtranclp)
qed (simp add: Relay_Close_def)

lemma expire_loop_good:
  "relay_ok r \<Longrightarrow> \<forall>sid \<in> set sids. sid < length (tbHeap r) \<Longrightarrow>
     good_handler r (foldl (\<lambda>r sid. if now - seLastActivity (tbHeap r ! sid) \<ge> rcIdleTimeout (rlCfg r)
                    then relay_closeSession sid reason r else r) r sids)"
proof (induction sids arbitrary: r)
  case (Cons sid sids)
  let ?r = "if now - seLastActivity (tbHeap r ! sid) \<ge> rcIdleTimeout (rlCfg r) then relay_closeSession sid reason r else r"
  have g: "good_handler r ?r" using Cons.prems by auto
  moreover have "relay_ok ?r" by (rule good_handler_ok [OF Cons.prems(1) g])
  moreover have "\<forall>sid \<in> set sids. sid < length (tbHeap ?r)" using Cons.prems by (simp add: relay_closeSession_def)
  ultimately show ?case using good_handler_trans [OF g Cons.IH] by simp
qed simp

lemma expire_good:
  assumes "relay_ok r"
  shows "good_handler r (relay_expire now r)"
proof -
  have "\<forall>sid \<in> set (map snd (tbSessions r)). sid < length (tbHeap r)"
    using assms table_ids(2) [of "rcMaxSessions (rlCfg r)" r] by (auto simp: relay_ok_def dest: open_ids_less)
  with assms show ?thesis unfolding relay_expire_def by (rule expire_loop_good)
qed

lemma run_relay_good: "relay_ok r \<Longrightarrow> event_ok ev r \<Longrightarrow> good_handler r (run_relay e ev r)"
  by (cases ev) (simp_all add: Serve_good readBackend_good expire_good Close_good)

lemma Relay_New_ok:
  assumes "Relay_New e cfg metrics = Inr r"
  shows "relay_ok r" and "rlCfg r = cfg" and "0 < rcIdleTimeout cfg" and "tbMetrics r = metrics" and "tbSessions r = []"
    and "open_ids r = {}" and "\<not> tbClosed r"
  using assms by (auto simp: Relay_New_def relay_ok_def table_inv_def open_ids_def split: sum.splits option.splits if_splits)

lemma relay_reachable_ok: "relay_reachable e cfg r \<Longrightarrow> relay_ok r \<and> settled udpSessions r \<and> rlCfg r = cfg"
proof (induction rule: relay_reachable.induct)
  case (relay_started metrics r)
  then show ?case
    using Relay_New_ok [OF relay_started(1)] by (auto simp: settled_def gauge_exact_def split: option.splits)
next
  case (relay_handled r ev)
  have g: "good_handler r (run_relay e ev r)" using relay_handled by (intro run_relay_good) simp_all
  with relay_handled.IH good_handler_ok [OF _ g] show ?case by (simp add: good_handler_def)
qed

section \<open>Expiry\<close>

lemma activity_simps [simp]:
  "seLastActivity (tbHeap (mark_closed sid r) ! i) = seLastActivity (tbHeap r ! i)"
  by (simp add: mark_closed_def update_same)

lemma close_activity [simp]: "seLastActivity (tbHeap (relay_closeSession sid reason r) ! i) = seLastActivity (tbHeap r ! i)"
  by (simp add: relay_closeSession_def close_session_def sess_close_def sess_closeWithoutMetric_def)

lemma close_get:
  assumes "relay_ok r"
  shows "gm_get (tbSessions (relay_closeSession sid reason r)) k = Some i \<longleftrightarrow> gm_get (tbSessions r) k = Some i \<and> i \<noteq> sid"
proof -
  have key: "seKey (tbHeap r ! i) = k" if "gm_get (tbSessions r) k = Some i" for k i
    using that assms by (simp add: relay_ok_def table_inv_def)
  show ?thesis
    by (auto simp: relay_closeSession_def close_session_def sess_closeWithoutMetric_def remove_session_def is_current_def
        dest: key split: if_splits)
qed

lemma expire_loop_get:
  "relay_ok r \<Longrightarrow> \<forall>sid \<in> set sids. sid < length (tbHeap r) \<Longrightarrow>
     gm_get (tbSessions (foldl (\<lambda>r sid. if now - seLastActivity (tbHeap r ! sid) \<ge> rcIdleTimeout (rlCfg r)
                    then relay_closeSession sid reason r else r) r sids)) k = Some i \<longleftrightarrow>
       gm_get (tbSessions r) k = Some i \<and> (i \<in> set sids \<longrightarrow> now - seLastActivity (tbHeap r ! i) < rcIdleTimeout (rlCfg r))"
proof (induction sids arbitrary: r)
  case (Cons sid sids)
  let ?r = "if now - seLastActivity (tbHeap r ! sid) \<ge> rcIdleTimeout (rlCfg r) then relay_closeSession sid reason r else r"
  have "good_handler r ?r" using Cons.prems by auto
  then have "relay_ok ?r" by (rule good_handler_ok [OF Cons.prems(1)])
  moreover have "\<forall>sid \<in> set sids. sid < length (tbHeap ?r)" using Cons.prems by (simp add: relay_closeSession_def)
  ultimately show ?case using Cons.prems by (auto simp: Cons.IH close_get)
qed simp

lemma expire_get:
  assumes "relay_ok r"
  shows "gm_get (tbSessions (relay_expire now r)) k = Some i \<longleftrightarrow>
    gm_get (tbSessions r) k = Some i \<and> now - seLastActivity (tbHeap r ! i) < rcIdleTimeout (rlCfg r)"
proof -
  have "\<forall>sid \<in> set (map snd (tbSessions r)). sid < length (tbHeap r)"
    using assms table_ids(2) [of "rcMaxSessions (rlCfg r)" r] by (auto simp: relay_ok_def dest: open_ids_less)
  moreover have "i \<in> set (map snd (tbSessions r))" if "gm_get (tbSessions r) k = Some i" using gm_get_in [OF that] by force
  ultimately show ?thesis unfolding relay_expire_def expire_loop_get [OF assms \<open>\<forall>sid \<in> _. _\<close>] by blast
qed

lemma expire_activity [simp]: "seLastActivity (tbHeap (relay_expire now r) ! i) = seLastActivity (tbHeap r ! i)"
proof -
  have "seLastActivity (tbHeap (foldl (\<lambda>r sid. if now - seLastActivity (tbHeap r ! sid) \<ge> rcIdleTimeout (rlCfg r)
      then relay_closeSession sid reason r else r) r sids) ! i) = seLastActivity (tbHeap r ! i)" for reason sids
    by (induction sids arbitrary: r) simp_all
  then show ?thesis by (simp add: relay_expire_def)
qed

definition relay_ticks :: "int list \<Rightarrow> Relay \<Rightarrow> Relay" where
  "relay_ticks ts r = foldl (\<lambda>r now. relay_expire now r) r ts"

lemma ticks_get:
  "relay_ok r \<Longrightarrow> gm_get (tbSessions (relay_ticks ts r)) k = Some i \<longleftrightarrow>
     gm_get (tbSessions r) k = Some i \<and> (\<forall>now \<in> set ts. now - seLastActivity (tbHeap r ! i) < rcIdleTimeout (rlCfg r))"
proof (induction ts arbitrary: r)
  case (Cons now ts)
  have g: "good_handler r (relay_expire now r)" by (rule expire_good [OF Cons.prems])
  then have "rlCfg (relay_expire now r) = rlCfg r" by (simp add: good_handler_def)
  with Cons.IH [OF good_handler_ok [OF Cons.prems g]] show ?case
    by (auto simp: relay_ticks_def expire_get [OF Cons.prems])
qed (simp add: relay_ticks_def)

lemma cleanupInterval_bounds: "10 * 1000000 \<le> cleanupInterval d \<and> cleanupInterval d \<le> 1000000000"
  by (simp add: cleanupInterval_def Let_def)

lemma next_tick:
  fixes t0 d I :: int
  assumes "0 < I"
  shows "\<exists>n::nat. d \<le> t0 + int n * I \<and> t0 + int n * I < max t0 d + I"
proof (cases "d \<le> t0")
  case True
  with assms show ?thesis by (intro exI [of _ 0]) auto
next
  case False
  let ?q = "(d - t0 + I - 1) div I"
  have "?q * I = d - t0 + I - 1 - (d - t0 + I - 1) mod I" by (simp add: minus_mod_eq_div_mult)
  moreover have "0 \<le> (d - t0 + I - 1) mod I" "(d - t0 + I - 1) mod I < I" using assms by simp_all
  ultimately have "d \<le> t0 + ?q * I" "t0 + ?q * I < d + I" by linarith+
  moreover have "0 \<le> ?q" using False assms by (simp add: pos_imp_zdiv_nonneg_iff)
  ultimately show ?thesis using False by (intro exI [of _ "nat ?q"]) auto
qed

section \<open>Properties\<close>

definition sample_addr :: "byte \<Rightarrow> UDPAddr" where
  "sample_addr n = \<lparr>uaIP = [10, 0, 0, n], uaPort = 24454, uaZone = ''''\<rparr>"

definition sample_udp_env :: udp_env where
  "sample_udp_env = \<lparr>ueResolve = (\<lambda>_. Inr (sample_addr 1)), ueListen = (\<lambda>_. None), ueDial = (\<lambda>_. DialUDP)\<rparr>"

definition sample_relay_cfg :: relay_Config where
  "sample_relay_cfg = \<lparr>rcListen = '':24454'', rcBackend = ''voice:24454'', rcResolver = None, rcIdleTimeout = 30000000000,
     rcBackendDialTimeout = 1, rcMaxSessions = 2, rcMaxPacketSize = 8\<rparr>"

definition sample_relay :: Relay where
  "sample_relay = \<lparr>tbSessions = [], tbHeap = [], tbClosed = False, tbMetrics = Some (NewRecorder True), rlCfg = sample_relay_cfg,
     rlResolver = \<lparr>brResolveBackend = static_ResolveBackend (sample_addr 1), brDefaultBackend = static_DefaultBackend (sample_addr 1)\<rparr>\<rparr>"

definition sample_event :: relay_event where
  "sample_event = EvServe (\<lambda>_ _. None) 0 False (ReadPacket_from (sample_addr 7) [1, 2, 3])"

lemma sample_relay_New: "Relay_New sample_udp_env sample_relay_cfg (Some (NewRecorder True)) = Inr sample_relay"
proof -
  have "validateBackendAddr (Some (sample_addr 1)) = None"
    by (simp add: validateBackendAddr_def sample_addr_def IP_IsUnspecified_def IP_IsMulticast_def IP_Equal_def To4_def
        v4InV6Prefix_def IPv4bcast_def)
  then show ?thesis
    by (simp add: Relay_New_def sample_relay_cfg_def sample_udp_env_def NewStaticBackendResolver_def resolveBackend_def sample_relay_def)
qed

lemma sample_relay_reachable:
  "relay_reachable sample_udp_env sample_relay_cfg sample_relay"
  "relay_reachable sample_udp_env sample_relay_cfg (run_relay sample_udp_env sample_event sample_relay)"
proof -
  show r: "relay_reachable sample_udp_env sample_relay_cfg sample_relay"
    by (rule relay_started [OF sample_relay_New]) simp
  show "relay_reachable sample_udp_env sample_relay_cfg (run_relay sample_udp_env sample_event sample_relay)"
    by (rule relay_handled [OF r]) (simp add: sample_event_def)
qed

lemma sample_session:
  defines "r \<equiv> run_relay sample_udp_env sample_event sample_relay"
  shows "tbSessions r = [(UDPAddr_String (sample_addr 7), 0)]" and "length (tbHeap r) = 1"
    and "seKey (tbHeap r ! 0) = UDPAddr_String (sample_addr 7)" and "seLastActivity (tbHeap r ! 0) = 0"
    and "\<exists>m. tbMetrics r = Some m \<and> recEnabled m"
  unfolding r_def
  by (simp_all add: sample_event_def sample_relay_def sample_relay_cfg_def sample_udp_env_def Serve_step_def read_buffer_def
      forwardToBackend_def sessionForClient_def insert_session_def static_ResolveBackend_def cloneUDPAddr_def relay_packet_def
      touch_def record_metric_def Let_def)



text \<open>C16: interleavings. Goroutines run concurrently, but every handler is a sequence of critical sections and closings of sessions,
  and any sequence of these, of whatever handlers, keeps the table: at most \<open>MaxSessions\<close> sessions, none after the shutdown,
  every registered session open and under its own key, and a gauge that never counts fewer sessions than are registered.\<close>

theorem relay_interleavings:
  assumes "Relay_New e cfg metrics = Inr r0" and "case metrics of None \<Rightarrow> True | Some m \<Rightarrow> gauge udpSessions m = 0"
    and "relay_steps (rcMaxSessions cfg) r0 r" and "rlCfg r = cfg"
  shows "table_inv (rcMaxSessions cfg) r \<and>
    (\<forall>m. tbMetrics r = Some m \<and> recEnabled m \<longrightarrow> int (gm_len (tbSessions r)) \<le> gauge udpSessions m) \<and>
    (\<forall>ev. event_ok ev r \<longrightarrow> relay_steps (rcMaxSessions cfg) r (run_relay e ev r))"
proof (intro conjI allI impI)
  note new = Relay_New_ok [OF assms(1)]
  have "gauge_covers udpSessions r0" using new(4,6) assms(2) by (simp add: gauge_covers_def split: option.splits)
  moreover have "table_inv (rcMaxSessions cfg) r0" "0 \<le> rcMaxSessions cfg" using new(1,2) by (simp_all add: relay_ok_def)
  ultimately have k: "table_inv (rcMaxSessions cfg) r \<and> gauge_covers udpSessions r" using udp.steps_keep [OF assms(3)] by blast
  then show inv: "table_inv (rcMaxSessions cfg) r" by blast
  show "int (gm_len (tbSessions r)) \<le> gauge udpSessions m" if "tbMetrics r = Some m \<and> recEnabled m" for m
    using that k table_len_open [OF inv] by (simp add: gauge_covers_def)
  have "relay_ok r" using inv assms(4) new(1,2) by (simp add: relay_ok_def)
  then show "relay_steps (rcMaxSessions cfg) r (run_relay e ev r)" if "event_ok ev r" for ev
    using run_relay_good [of r ev e] that assms(4) by (simp add: good_handler_def)
qed

theorem relay_interleavings_witness:
  "relay_steps (rcMaxSessions sample_relay_cfg) sample_relay (run_relay sample_udp_env sample_event sample_relay)"
proof -
  have "event_ok sample_event sample_relay" by (simp add: sample_event_def)
  moreover have "rlCfg sample_relay = sample_relay_cfg" by (simp add: sample_relay_def)
  ultimately show ?thesis using relay_interleavings [OF sample_relay_New _ rtranclp.rtrancl_refl] by simp
qed





end
