(* ===== verification/Voicechat.thy ===== *)
theory Voicechat
  imports Voicepacket Udprelay
begin

text \<open>
  The voice chat runtime, \<open>internal/voicechat/runtime.go\<close>: backends register players over HTTP, and a
  client's datagrams go to the backend its player is registered with. A runtime is a session table
  with its registrations, backends and tokens. A handler is a function on the runtime: one datagram of
  a client, one of a backend, one tick of the cleaner, one HTTP request, the shutdown. Time, the
  network, random bytes and the JSON decoder are arguments; an HTTP response is its status and what its
  body says. As in the relay, loops over a map visit it in the order of the table.
\<close>

section \<open>State\<close>

record BackendConfig =
  bcUDP :: string
  bcToken :: string

record voice_Config =
  vrListen :: string
  vrRegistrationListen :: string
  vrRegistrationTTL :: int
  vrRequestTimeout :: int
  vrMaxRegistrations :: int
  vrIdleTimeout :: int
  vrBackendDialTimeout :: int
  vrMaxSessions :: int
  vrMaxPacketSize :: int
  vrBackends :: "(string, BackendConfig) gomap"

record voice_backend =
  vbId :: string
  vbAddr :: UDPAddr

record backendToken =
  btBackendID :: string
  btToken :: string

record registration =
  rgPlayerUUID :: UUID
  rgBackendID :: string
  rgOwnerID :: string
  rgLeaseID :: string
  rgGeneration :: "64 word"
  rgExpiresAt :: int

record dynamicSession = session +
  dsPlayerUUID :: UUID
  dsBackendID :: string
  dsLeaseID :: string
  dsGeneration :: "64 word"

record Runtime = "dynamicSession table" +
  rtCfg :: voice_Config
  rtRegistrations :: "(UUID, registration) gomap"
  rtBackends :: "(string, voice_backend) gomap"
  rtTokens :: "backendToken list"

definition voice_validateBackendAddr :: "UDPAddr option \<Rightarrow> error option" where
  \<comment> \<open>the package has its own copy of the function of the relay\<close>
  "voice_validateBackendAddr addr =
     (case addr of
        None \<Rightarrow> Some [Msg ''resolved address is empty'']
      | Some a \<Rightarrow>
          if uaIP a = [] then Some [Msg ''resolved address is empty'']
          else if IP_IsUnspecified (uaIP a) then Some [Msg ''resolved address must not be unspecified'']
          else if IP_IsMulticast (uaIP a) then Some [Msg ''resolved address must not be multicast'']
          else if (case To4 (uaIP a) of Some ip4 \<Rightarrow> IP_Equal ip4 IPv4bcast | None \<Rightarrow> False)
          then Some [Msg ''resolved address must not be broadcast'']
          else None)"

fun NewRuntime_backends :: "udp_env \<Rightarrow> (string \<times> BackendConfig) list \<Rightarrow> (string, voice_backend) gomap \<Rightarrow> backendToken list \<Rightarrow>
    ((string, voice_backend) gomap \<times> backendToken list) result" where
  "NewRuntime_backends e [] backends tokens = Inr (backends, tokens)"
| "NewRuntime_backends e ((i, cfg) # bs) backends tokens =
     (case ueResolve e (bcUDP cfg) of
        Inl err \<Rightarrow> Inl err
      | Inr addr \<Rightarrow>
          (case voice_validateBackendAddr (Some addr) of
             Some err \<Rightarrow> Inl err
           | None \<Rightarrow> NewRuntime_backends e bs (gm_set backends i \<lparr>vbId = i, vbAddr = addr\<rparr>)
               (tokens @ [\<lparr>btBackendID = i, btToken = bcToken cfg\<rparr>])))"

definition NewRuntime ::
    "udp_env \<Rightarrow> ((string \<times> BackendConfig) list \<Rightarrow> (string \<times> BackendConfig) list) \<Rightarrow> voice_Config \<Rightarrow> Recorder option \<Rightarrow> Runtime result" where
  \<comment> \<open>\<open>ord\<close> is the order in which the loop visits the configured backends\<close>
  "NewRuntime e ord cfg metrics =
     (if vrRegistrationTTL cfg \<le> 0 then Inl [Msg ''registration TTL must be positive'']
      else if vrRequestTimeout cfg \<le> 0 then Inl [Msg ''request timeout must be positive'']
      else if vrMaxRegistrations cfg \<le> 0 then Inl [Msg ''max registrations must be positive'']
      else if vrIdleTimeout cfg \<le> 0 then Inl [Msg ''idle timeout must be positive'']
      else if vrBackendDialTimeout cfg \<le> 0 then Inl [Msg ''backend dial timeout must be positive'']
      else if vrMaxSessions cfg \<le> 0 then Inl [Msg ''max sessions must be positive'']
      else if vrMaxPacketSize cfg \<le> 0 then Inl [Msg ''max packet size must be positive'']
      else if gm_len (vrBackends cfg) = 0 then Inl [Msg ''at least one voicechat backend is required'']
      else (case ueResolve e (vrListen cfg) of
              Inl err \<Rightarrow> Inl err
            | Inr listenAddr \<Rightarrow>
                (case ueListen e listenAddr of
                   Some err \<Rightarrow> Inl err
                 | None \<Rightarrow>
                     (case NewRuntime_backends e (ord (vrBackends cfg)) [] [] of
                        Inl err \<Rightarrow> Inl err
                      | Inr (backends, tokens) \<Rightarrow>
                          Inr \<lparr>tbSessions = [], tbHeap = [], tbClosed = False, tbMetrics = metrics, rtCfg = cfg,
                               rtRegistrations = [], rtBackends = backends, rtTokens = tokens\<rparr>))))"

section \<open>Sessions\<close>

definition voice_packet :: "string \<Rightarrow> string \<Rightarrow> nat \<Rightarrow> Runtime \<Rightarrow> Runtime" where
  "voice_packet direction result bytes r = record_metric (\<lambda>m. VoiceChatPacket m direction result bytes) r"

definition registrationEvent :: "string \<Rightarrow> Runtime \<Rightarrow> Runtime" where
  "registrationEvent result r = record_metric (\<lambda>m. VoiceChatRegistrationEvent m result) r"

definition voice_closeSession :: "nat \<Rightarrow> string \<Rightarrow> Runtime \<Rightarrow> Runtime" where
  "voice_closeSession sid reason r = close_session VoiceChatSessionClosed sid reason r"

definition voice_sessionIsCurrent :: "nat \<Rightarrow> Runtime \<Rightarrow> bool" where
  "voice_sessionIsCurrent sid r \<longleftrightarrow> \<not> tbClosed r \<and> is_current sid r"

definition closeSessionsForUUID :: "UUID \<Rightarrow> string \<Rightarrow> Runtime \<Rightarrow> Runtime" where
  "closeSessionsForUUID uuid reason r =
     (case remove_where (\<lambda>sid. dsPlayerUUID (tbHeap r ! sid) = uuid) r of
        (sids, r1) \<Rightarrow> close_all VoiceChatSessionClosed reason sids r1)"

definition dynamicSessionKey :: "UUID \<Rightarrow> UDPAddr \<Rightarrow> string" where
  "dynamicSessionKey uuid addr = UUID_String uuid @ ''|'' @ UDPAddr_String addr"

definition lookupRegistration :: "int \<Rightarrow> UUID \<Rightarrow> Runtime \<Rightarrow> registration result \<times> Runtime" where
  "lookupRegistration now uuid r =
     (case gm_get (rtRegistrations r) uuid of
        None \<Rightarrow> (Inl [ErrUnknownRegistration], r)
      | Some reg \<Rightarrow>
          if now > rgExpiresAt reg then
            (let regs = gm_del (rtRegistrations r) uuid in
             (Inl [ErrExpiredRegistration],
              record_metric (\<lambda>m. VoiceChatRegistrationEvent (VoiceChatRegistrationsSet m (gm_len regs)) VoiceChatRegistrationResultExpired)
                (r\<lparr>rtRegistrations := regs\<rparr>)))
          else (Inr reg, r))"

definition session_matches :: "dynamicSession \<Rightarrow> registration \<Rightarrow> bool" where
  "session_matches sess reg \<longleftrightarrow>
     dsBackendID sess = rgBackendID reg \<and> dsLeaseID sess = rgLeaseID reg \<and> dsGeneration sess = rgGeneration reg"

definition sessionFor_create :: "udp_env \<Rightarrow> int \<Rightarrow> UUID \<Rightarrow> UDPAddr \<Rightarrow> registration \<Rightarrow> Runtime \<Rightarrow> (nat \<times> bool) result \<times> Runtime" where
  \<comment> \<open>from the second critical section on\<close>
  "sessionFor_create e now uuid clientAddr reg r =
     (if int (gm_len (tbSessions r)) \<ge> vrMaxSessions (rtCfg r) then (Inl [ErrSessionLimit], r)
      else (case gm_get (rtBackends r) (rgBackendID reg) of
              None \<Rightarrow> (Inl [ErrBackendMissing], r)
            | Some backend \<Rightarrow>
                (case ueDial e (UDPAddr_String (vbAddr backend)) of
                   DialError err \<Rightarrow> (Inl err, r)
                 | DialOther \<Rightarrow> (Inl [Msg ''backend dial did not return UDP connection''], r)
                 | DialUDP \<Rightarrow>
                     insert_session VoiceChatSessionCreated (vrMaxSessions (rtCfg r))
                       \<lparr>seKey = dynamicSessionKey uuid clientAddr, seClientAddr = clientAddr, seLastActivity = now, seClosed = False,
                        dsPlayerUUID = uuid, dsBackendID = rgBackendID reg, dsLeaseID = rgLeaseID reg, dsGeneration = rgGeneration reg\<rparr> r)))"

definition sessionFor :: "udp_env \<Rightarrow> int \<Rightarrow> UUID \<Rightarrow> UDPAddr \<Rightarrow> registration \<Rightarrow> Runtime \<Rightarrow> (nat \<times> bool) result \<times> Runtime" where
  "sessionFor e now uuid clientAddr reg r =
     (let key = dynamicSessionKey uuid clientAddr in
      if tbClosed r then (Inl [ErrClosed], r)
      else (case gm_get (tbSessions r) key of
              Some sess \<Rightarrow>
                if session_matches (tbHeap r ! sess) reg then (Inr (sess, False), r)
                else sessionFor_create e now uuid clientAddr reg
                       (sess_close VoiceChatSessionClosed sess VoiceChatSessionCloseReasonReassigned
                         (r\<lparr>tbSessions := gm_del (tbSessions r) key\<rparr>))
            | None \<Rightarrow> sessionFor_create e now uuid clientAddr reg r))"

definition forwardClientPacket ::
    "udp_env \<Rightarrow> (nat \<Rightarrow> bytes \<Rightarrow> error option) \<Rightarrow> int \<Rightarrow> UDPAddr \<Rightarrow> bytes \<Rightarrow> Runtime \<Rightarrow> error option \<times> Runtime \<times> (nat \<times> bytes) list" where
  "forwardClientPacket e write now clientAddr payload r =
     (case ParseClientPacket payload of
        Inl err \<Rightarrow>
          (Some err, voice_packet VoiceChatPacketDirectionClientToBackend VoiceChatPacketResultDroppedMalformed (length payload) r, [])
      | Inr packet \<Rightarrow>
          (case lookupRegistration now (cpPlayerUUID packet) r of
             (Inl err, r1) \<Rightarrow>
               (Some err, voice_packet VoiceChatPacketDirectionClientToBackend
                  (if errors_Is err ErrExpiredRegistration then VoiceChatPacketResultDroppedExpiredRegistration
                   else VoiceChatPacketResultDroppedUnknownSession) (length payload) r1, [])
           | (Inr reg, r1) \<Rightarrow>
               (case sessionFor e now (cpPlayerUUID packet) clientAddr reg r1 of
                  (Inl err, r2) \<Rightarrow>
                    if errors_Is err ErrSessionLimit
                    then (Some err, voice_packet VoiceChatPacketDirectionClientToBackend VoiceChatPacketResultDroppedSessionLimit (length payload) r2, [])
                    else (Some err, voice_packet VoiceChatPacketDirectionClientToBackend VoiceChatPacketResultDroppedWriteError (length payload) r2, [])
                | (Inr (sess, created), r2) \<Rightarrow>
                    (let r3 = touch sess now r2 in
                     case write sess payload of
                       Some err \<Rightarrow>
                         (Some err,
                          voice_closeSession sess VoiceChatSessionCloseReasonBackendError
                            (voice_packet VoiceChatPacketDirectionClientToBackend VoiceChatPacketResultDroppedWriteError (length payload) r3), [])
                     | None \<Rightarrow>
                         (None, voice_packet VoiceChatPacketDirectionClientToBackend VoiceChatPacketResultForwarded (length payload) r3,
                          [(sess, payload)])))))"

definition voice_buffer :: "voice_Config \<Rightarrow> bytes \<Rightarrow> bytes" where
  "voice_buffer cfg data = take (nat (vrMaxPacketSize cfg + 1)) data"

definition serveUDP_step ::
    "udp_env \<Rightarrow> (nat \<Rightarrow> bytes \<Rightarrow> error option) \<Rightarrow> int \<Rightarrow> bool \<Rightarrow> udp_read \<Rightarrow> Runtime \<Rightarrow> bool \<times> Runtime \<times> (nat \<times> bytes) list" where
  \<comment> \<open>one round of the loop of \<open>serveUDP\<close>: whether it goes on; \<open>ended\<close> is whether the context has ended\<close>
  "serveUDP_step e write now ended ev r =
     (case ev of
        ReadError err \<Rightarrow>
          if ended \<or> errors_Is err ErrClosed \<or> tbClosed r then (False, r, [])
          else (True, voice_packet VoiceChatPacketDirectionClientToBackend VoiceChatPacketResultDroppedReadError 0 r, [])
      | ReadPacket_from clientAddr data \<Rightarrow>
          (let buf = voice_buffer (rtCfg r) data; n = length buf in
           if int n > vrMaxPacketSize (rtCfg r)
           then (True, voice_packet VoiceChatPacketDirectionClientToBackend VoiceChatPacketResultDroppedMalformed n r, [])
           else (case forwardClientPacket e write now clientAddr buf r of (err, r', sent) \<Rightarrow> (True, r', sent))))"

definition voice_readBackend_step ::
    "(bytes \<Rightarrow> error option) \<Rightarrow> int \<Rightarrow> nat \<Rightarrow> bytes result \<Rightarrow> Runtime \<Rightarrow> bool \<times> Runtime \<times> (UDPAddr \<times> bytes) list" where
  \<comment> \<open>one round of the loop of \<open>readBackend\<close>: whether it goes on, and what was sent to the client\<close>
  "voice_readBackend_step write now sid ev r =
     (case ev of
        Inl err \<Rightarrow>
          if seClosed (tbHeap r ! sid) \<or> tbClosed r then (False, r, [])
          else (False, voice_closeSession sid VoiceChatSessionCloseReasonBackendError
                  (voice_packet VoiceChatPacketDirectionBackendToClient VoiceChatPacketResultDroppedReadError 0 r), [])
      | Inr data \<Rightarrow>
          (let buf = voice_buffer (rtCfg r) data; n = length buf in
           if int n > vrMaxPacketSize (rtCfg r)
           then (True, voice_packet VoiceChatPacketDirectionBackendToClient VoiceChatPacketResultDroppedMalformed n r, [])
           else if \<not> voice_sessionIsCurrent sid r then (False, r, [])
           else (case write buf of
                   Some err \<Rightarrow>
                     (let r1 = voice_packet VoiceChatPacketDirectionBackendToClient VoiceChatPacketResultDroppedWriteError (length buf) r in
                      if tbClosed r1 \<or> errors_Is err ErrClosed then (False, r1, [])
                      else (False, voice_closeSession sid VoiceChatSessionCloseReasonBackendError r1, []))
                 | None \<Rightarrow>
                     (True, voice_packet VoiceChatPacketDirectionBackendToClient VoiceChatPacketResultForwarded (length buf) (touch sid now r),
                      [(seClientAddr (tbHeap r ! sid), buf)]))))"

section \<open>Expiry and shutdown\<close>

definition expireRegistrations :: "int \<Rightarrow> Runtime \<Rightarrow> Runtime" where
  "expireRegistrations now r =
     (let expired = map fst (filter (\<lambda>(uuid, reg). now > rgExpiresAt reg) (rtRegistrations r));
          regs = gm_keep (\<lambda>uuid reg. \<not> now > rgExpiresAt reg) (rtRegistrations r);
          r1 = r\<lparr>rtRegistrations := regs\<rparr>
      in if length expired = 0 then r1
         else let r2 = record_metric (\<lambda>m. VoiceChatRegistrationsSet m (gm_len regs)) r1;
                  r3 = record_metric (\<lambda>m. foldl (\<lambda>m _. VoiceChatRegistrationEvent m VoiceChatRegistrationResultExpired) m expired) r2
              in foldl (\<lambda>r uuid. closeSessionsForUUID uuid VoiceChatSessionCloseReasonRegistrationExpired r) r3 expired)"

definition expireLoop_tick :: "int \<Rightarrow> int \<Rightarrow> Runtime \<Rightarrow> Runtime" where
  \<comment> \<open>one tick of \<open>expireLoop\<close>, at \<open>now\<close>, with the sessions looked at at \<open>later\<close>\<close>
  "expireLoop_tick now later r =
     (let r1 = expireRegistrations now r in
      foldl (\<lambda>r sid. if later - seLastActivity (tbHeap r ! sid) \<ge> vrIdleTimeout (rtCfg r)
                     then voice_closeSession sid VoiceChatSessionCloseReasonIdleTimeout r else r)
        r1 (map snd (tbSessions r1)))"

definition voice_cleanupInterval :: "int \<Rightarrow> int" where
  "voice_cleanupInterval timeout =
     (let interval = timeout div 2 in
      if interval < 10 * 1000000 then 10 * 1000000
      else if interval > 1000000000 then 1000000000
      else interval)"

definition minDuration :: "int \<Rightarrow> int \<Rightarrow> int" where
  "minDuration a b = (if a < b then a else b)"

definition expireLoop_interval :: "voice_Config \<Rightarrow> int" where
  "expireLoop_interval cfg = voice_cleanupInterval (minDuration (vrIdleTimeout cfg) (vrRegistrationTTL cfg))"

definition Runtime_Close :: "Runtime \<Rightarrow> Runtime" where
  \<comment> \<open>once; afterwards the runtime is closed\<close>
  "Runtime_Close r =
     (if tbClosed r then r
      else record_metric (\<lambda>m. VoiceChatRegistrationsSet m 0)
             (close_all VoiceChatSessionClosed VoiceChatSessionCloseReasonShutdown (map snd (tbSessions r))
               (r\<lparr>tbClosed := True, tbSessions := [], rtRegistrations := []\<rparr>)))"

definition lowCardinalityDropReason :: "error \<Rightarrow> string" where
  "lowCardinalityDropReason err =
     (if errors_Is err ErrUnknownRegistration then ''unknown_registration''
      else if errors_Is err ErrExpiredRegistration then ''expired_registration''
      else if errors_Is err ErrSessionLimit then ''session_limit''
      else ''invalid_or_io_error'')"

section \<open>The registration interface\<close>

record registration_request =
  rqtMethod :: string
  rqtAuthorization :: string
  rqtPath :: string
  rqtBody :: bytes

record putRegistrationRequest =
  puOwnerID :: string

record leaseRequest =
  leOwnerID :: string
  leLeaseID :: string

record registrationResponse =
  rrBackendID :: string
  rrLeaseID :: string
  rrExpiresAt :: int

datatype response_body = ErrorBody string | RegistrationBody registrationResponse | NoBody

type_synonym response = "int \<times> response_body"

text \<open>
  One call of the JSON decoder yields a value and what is left of the input, or an error. The body is
  read through a reader that fails after 4096 bytes, and the second call must find nothing but white
  space, so a longer body is an error whatever the decoder does.
\<close>

record json_decoder =
  jdPut :: "bytes \<Rightarrow> (putRegistrationRequest \<times> bytes) result"
  jdLease :: "bytes \<Rightarrow> (leaseRequest \<times> bytes) result"

definition json_space :: "byte \<Rightarrow> bool" where
  "json_space b \<longleftrightarrow> b = 0x20 \<or> b = 0x09 \<or> b = 0x0a \<or> b = 0x0d"

definition decodeJSON :: "(bytes \<Rightarrow> ('a \<times> bytes) result) \<Rightarrow> bytes \<Rightarrow> 'a result" where
  "decodeJSON decode body =
     (if length body > 4096 then Inl [Msg ''http: request body too large'']
      else (case decode body of
              Inl e \<Rightarrow> Inl e
            | Inr (v, rest) \<Rightarrow> if list_all json_space rest then Inr v else Inl [Msg ''multiple JSON values'']))"

definition authenticate :: "backendToken list \<Rightarrow> string \<Rightarrow> string option" where
  "authenticate tokens auth =
     (if \<not> HasPrefix auth ''Bearer '' then None
      else let token = TrimSpace (TrimPrefix auth ''Bearer '') in
        map_option btBackendID (find (\<lambda>candidate. length token = length (btToken candidate) \<and> token = btToken candidate) tokens))"

definition registrations_prefix :: string where
  "registrations_prefix = ''/v1/voicechat/registrations/''"

definition parseRegistrationPath :: "string \<Rightarrow> (UUID \<times> string) option" where
  "parseRegistrationPath path =
     (if \<not> HasPrefix path registrations_prefix then None
      else let parts = Split (TrimPrefix path registrations_prefix) (CHR ''/'') in
        if length parts \<noteq> 1 \<and> length parts \<noteq> 2 then None
        else (case ParseUUID (parts ! 0) of
                Inl e \<Rightarrow> None
              | Inr uuid \<Rightarrow>
                  if UUID_String uuid \<noteq> parts ! 0 then None
                  else Some (uuid, if length parts = 2 then parts ! 1 else '''')))"

definition newLeaseID :: "bytes result \<Rightarrow> string result" where
  \<comment> \<open>the argument is what reading sixteen random bytes answers\<close>
  "newLeaseID rand = (case rand of Inl e \<Rightarrow> Inl e | Inr b \<Rightarrow> Inr (hex_Encode b))"

definition writeRegistrationResponse :: "int \<Rightarrow> registration \<Rightarrow> response" where
  "writeRegistrationResponse status reg =
     (status, RegistrationBody \<lparr>rrBackendID = rgBackendID reg, rrLeaseID = rgLeaseID reg, rrExpiresAt = rgExpiresAt reg\<rparr>)"

definition handlePutRegistration ::
    "json_decoder \<Rightarrow> bytes result \<Rightarrow> int \<Rightarrow> bytes \<Rightarrow> string \<Rightarrow> UUID \<Rightarrow> Runtime \<Rightarrow> response \<times> Runtime" where
  "handlePutRegistration j rand now body backendID uuid r =
     (case decodeJSON (jdPut j) body of
        Inl e \<Rightarrow> ((400, ErrorBody ''malformed request''), registrationEvent VoiceChatRegistrationResultMalformed r)
      | Inr req \<Rightarrow>
          if TrimSpace (puOwnerID req) = '''' then
            ((400, ErrorBody ''malformed request''), registrationEvent VoiceChatRegistrationResultMalformed r)
          else
            (case newLeaseID rand of
               Inl e \<Rightarrow> ((500, ErrorBody ''lease generation failed''), registrationEvent VoiceChatRegistrationResultFailed r)
             | Inr leaseID \<Rightarrow>
                 if tbClosed r then ((503, ErrorBody ''closed''), registrationEvent VoiceChatRegistrationResultFailed r)
                 else
                   (let replaced = gm_get (rtRegistrations r) uuid;
                        reg = \<lparr>rgPlayerUUID = uuid, rgBackendID = backendID, rgOwnerID = puOwnerID req, rgLeaseID = leaseID,
                          rgGeneration = (case replaced of Some existing \<Rightarrow> rgGeneration existing + 1 | None \<Rightarrow> 1),
                          rgExpiresAt = now + vrRegistrationTTL (rtCfg r)\<rparr>
                    in if replaced = None \<and> int (gm_len (rtRegistrations r)) \<ge> vrMaxRegistrations (rtCfg r)
                       then ((429, ErrorBody ''registration limit reached''), registrationEvent VoiceChatRegistrationResultLimit r)
                       else
                         (let regs = gm_set (rtRegistrations r) uuid reg;
                              r1 = record_metric (\<lambda>m. VoiceChatRegistrationsSet m (gm_len regs)) (r\<lparr>rtRegistrations := regs\<rparr>);
                              r2 = (case replaced of
                                      Some existing \<Rightarrow>
                                        (let r3 = closeSessionsForUUID uuid VoiceChatSessionCloseReasonReassigned
                                               (registrationEvent VoiceChatRegistrationResultReplaced r1)
                                         in if rgBackendID existing \<noteq> backendID then record_metric VoiceChatBackendSwitch r3 else r3)
                                    | None \<Rightarrow> registrationEvent VoiceChatRegistrationResultCreated r1)
                          in (writeRegistrationResponse 200 reg, r2)))))"

definition lease_held :: "Runtime \<Rightarrow> string \<Rightarrow> UUID \<Rightarrow> leaseRequest \<Rightarrow> registration option" where
  \<comment> \<open>the registration a request may change\<close>
  "lease_held r backendID uuid req =
     (case gm_get (rtRegistrations r) uuid of
        None \<Rightarrow> None
      | Some reg \<Rightarrow>
          if rgBackendID reg \<noteq> backendID \<or> rgOwnerID reg \<noteq> leOwnerID req \<or> rgLeaseID reg \<noteq> leLeaseID req then None else Some reg)"

definition lease_request :: "json_decoder \<Rightarrow> bytes \<Rightarrow> leaseRequest option" where
  "lease_request j body =
     (case decodeJSON (jdLease j) body of
        Inl e \<Rightarrow> None
      | Inr req \<Rightarrow> if TrimSpace (leOwnerID req) = '''' \<or> TrimSpace (leLeaseID req) = '''' then None else Some req)"

definition handleRefreshRegistration :: "json_decoder \<Rightarrow> int \<Rightarrow> bytes \<Rightarrow> string \<Rightarrow> UUID \<Rightarrow> Runtime \<Rightarrow> response \<times> Runtime" where
  "handleRefreshRegistration j now body backendID uuid r =
     (case lease_request j body of
        None \<Rightarrow> ((400, ErrorBody ''malformed request''), registrationEvent VoiceChatRegistrationResultMalformed r)
      | Some req \<Rightarrow>
          (case lease_held r backendID uuid req of
             None \<Rightarrow> ((409, ErrorBody ''lease not found''), registrationEvent VoiceChatRegistrationResultStaleLease r)
           | Some reg \<Rightarrow>
               (let reg' = reg\<lparr>rgExpiresAt := now + vrRegistrationTTL (rtCfg r)\<rparr> in
                (writeRegistrationResponse 200 reg',
                 registrationEvent VoiceChatRegistrationResultRefreshed (r\<lparr>rtRegistrations := gm_set (rtRegistrations r) uuid reg'\<rparr>)))))"

definition handleDeleteRegistration :: "json_decoder \<Rightarrow> bytes \<Rightarrow> string \<Rightarrow> UUID \<Rightarrow> Runtime \<Rightarrow> response \<times> Runtime" where
  "handleDeleteRegistration j body backendID uuid r =
     (case lease_request j body of
        None \<Rightarrow> ((400, ErrorBody ''malformed request''), registrationEvent VoiceChatRegistrationResultMalformed r)
      | Some req \<Rightarrow>
          (case lease_held r backendID uuid req of
             None \<Rightarrow> ((204, NoBody), registrationEvent VoiceChatRegistrationResultStaleLease r)
           | Some reg \<Rightarrow>
               (let regs = gm_del (rtRegistrations r) uuid;
                    r1 = record_metric (\<lambda>m. VoiceChatRegistrationsSet m (gm_len regs)) (r\<lparr>rtRegistrations := regs\<rparr>)
                in ((204, NoBody),
                    registrationEvent VoiceChatRegistrationResultDeleted
                      (closeSessionsForUUID uuid VoiceChatSessionCloseReasonUnregistered r1)))))"

definition handleRegistration :: "json_decoder \<Rightarrow> bytes result \<Rightarrow> int \<Rightarrow> registration_request \<Rightarrow> Runtime \<Rightarrow> response \<times> Runtime" where
  "handleRegistration j rand now req r =
     (case authenticate (rtTokens r) (rqtAuthorization req) of
        None \<Rightarrow> ((401, ErrorBody ''unauthorized''), registrationEvent VoiceChatRegistrationResultAuthFailed r)
      | Some backendID \<Rightarrow>
          (case parseRegistrationPath (rqtPath req) of
             None \<Rightarrow> ((404, ErrorBody ''not found''), registrationEvent VoiceChatRegistrationResultMalformed r)
           | Some (uuid, action) \<Rightarrow>
               if rqtMethod req = ''PUT'' \<and> action = '''' then handlePutRegistration j rand now (rqtBody req) backendID uuid r
               else if rqtMethod req = ''POST'' \<and> action = ''refresh'' then handleRefreshRegistration j now (rqtBody req) backendID uuid r
               else if rqtMethod req = ''DELETE'' \<and> action = '''' then handleDeleteRegistration j (rqtBody req) backendID uuid r
               else ((405, ErrorBody ''method not allowed''), registrationEvent VoiceChatRegistrationResultMalformed r)))"

section \<open>Table operations\<close>

definition frame :: "Runtime \<Rightarrow> voice_Config \<times> (UUID, registration) gomap \<times> (string, voice_backend) gomap \<times> backendToken list" where
  "frame r = (rtCfg r, rtRegistrations r, rtBackends r, rtTokens r)"

definition session_ok :: "dynamicSession \<Rightarrow> bool" where
  "session_ok s \<longleftrightarrow> seKey s = dynamicSessionKey (dsPlayerUUID s) (seClientAddr s) \<and> length (dsPlayerUUID s) = uuidSize"

definition heap_ok :: "Runtime \<Rightarrow> bool" where
  "heap_ok r \<longleftrightarrow> list_all session_ok (tbHeap r)"

definition same_registrations :: "Recorder option \<Rightarrow> Recorder option \<Rightarrow> bool" where
  \<comment> \<open>the gauge of registrations has not changed\<close>
  "same_registrations =
     rel_option (\<lambda>m m'. recEnabled m' = recEnabled m \<and> gauge voicechatRegistrations m' = gauge voicechatRegistrations m)"

definition table_op :: "Runtime \<Rightarrow> Runtime \<Rightarrow> bool" where
  \<comment> \<open>steps of the table that leave everything else of the runtime alone\<close>
  "table_op r r' \<longleftrightarrow>
     tsteps VoiceChatSessionCreated VoiceChatSessionClosed voicechatSessions (vrMaxSessions (rtCfg r)) r r' \<and>
     frame r' = frame r \<and> tbClosed r' = tbClosed r \<and> length (tbHeap r) \<le> length (tbHeap r') \<and>
     (settled voicechatSessions r \<longrightarrow> settled voicechatSessions r') \<and>
     (heap_ok r \<longrightarrow> heap_ok r') \<and>
     same_registrations (tbMetrics r) (tbMetrics r')"

definition sessions_ok :: "Runtime \<Rightarrow> bool" where
  "sessions_ok r \<longleftrightarrow> table_inv (vrMaxSessions (rtCfg r)) r \<and> 0 < vrMaxSessions (rtCfg r)"

lemma frame_simps [simp]:
  "frame (record_metric f r) = frame r" "frame (touch sid now r) = frame r" "frame (mark_closed sid r) = frame r"
  "frame (remove_session sid r) = frame r" "frame (snd (remove_where P r)) = frame r"
  "frame (snd (insert_session oncreate mx s r)) = frame r" "frame (r\<lparr>tbSessions := x\<rparr>) = frame r"
  by (auto simp: frame_def record_metric_def touch_def mark_closed_def remove_session_def remove_where_def insert_session_def Let_def
      split: option.split)

lemma frame_close [simp]:
  "frame (sess_close onclose sid reason r) = frame r" "frame (voice_closeSession sid reason r) = frame r"
  by (simp_all add: sess_close_def voice_closeSession_def close_session_def sess_closeWithoutMetric_def)

lemma frame_close_all [simp]: "frame (close_all onclose reason sids r) = frame r"
  unfolding close_all_def by (induction sids arbitrary: r) simp_all

lemma frame_eq: "frame r' = frame r \<Longrightarrow> rtCfg r' = rtCfg r \<and> rtRegistrations r' = rtRegistrations r \<and> rtBackends r' = rtBackends r \<and> rtTokens r' = rtTokens r"
  by (simp add: frame_def)

lemma voice_gauges [simp]:
  "gauge voicechatSessions (VoiceChatPacket m d res n) = gauge voicechatSessions m"
  "gauge voicechatRegistrations (VoiceChatPacket m d res n) = gauge voicechatRegistrations m"
  "gauge voicechatSessions (VoiceChatRegistrationEvent m res) = gauge voicechatSessions m"
  "gauge voicechatRegistrations (VoiceChatRegistrationEvent m res) = gauge voicechatRegistrations m"
  "gauge voicechatSessions (VoiceChatBackendSwitch m) = gauge voicechatSessions m"
  "gauge voicechatRegistrations (VoiceChatBackendSwitch m) = gauge voicechatRegistrations m"
  "gauge voicechatSessions (VoiceChatRegistrationsSet m n) = gauge voicechatSessions m"
  "gauge voicechatRegistrations (VoiceChatSessionCreated m) = gauge voicechatRegistrations m"
  "gauge voicechatRegistrations (VoiceChatSessionClosed m reason) = gauge voicechatRegistrations m"
  "recEnabled m \<Longrightarrow> gauge voicechatRegistrations (VoiceChatRegistrationsSet m n) = int n"
  by (simp_all add: recorder_defs collector_defs Let_def)

lemma same_registrations_refl [simp]: "same_registrations m m"
  by (cases m) (simp_all add: same_registrations_def)

lemma same_registrations_trans: "same_registrations a b \<Longrightarrow> same_registrations b c \<Longrightarrow> same_registrations a c"
  by (cases a; cases b; cases c) (simp_all add: same_registrations_def)

lemma same_registrations_map:
  "(\<And>m. recEnabled (f m) = recEnabled m \<and> gauge voicechatRegistrations (f m) = gauge voicechatRegistrations m) \<Longrightarrow>
     same_registrations m (map_option f m)"
  by (cases m) (simp_all add: same_registrations_def)

lemma table_op_refl [simp]: "table_op r r"
  by (simp add: table_op_def)

lemma session_ok_update [simp]:
  "session_ok (s\<lparr>seLastActivity := now\<rparr>) = session_ok s" "session_ok (s\<lparr>seClosed := b\<rparr>) = session_ok s"
  by (simp_all add: session_ok_def)

lemma list_update_ok:
  assumes "list_all P xs" and "\<And>s. P s \<Longrightarrow> P (f s)"
  shows "list_all P (xs[i := f (xs ! i)])"
proof (cases "i < length xs")
  case True
  with assms show ?thesis by (auto simp: list_all_length nth_list_update)
qed (use assms(1) in \<open>simp add: list_update_beyond\<close>)

lemma heap_ok_ops [simp]:
  "heap_ok r \<Longrightarrow> heap_ok (touch sid now r)" "heap_ok r \<Longrightarrow> heap_ok (mark_closed sid r)" "heap_ok (record_metric f r) = heap_ok r"
  "heap_ok (remove_session sid r) = heap_ok r" "heap_ok (snd (remove_where P r)) = heap_ok r" "heap_ok (r\<lparr>tbSessions := x\<rparr>) = heap_ok r"
  by (simp_all add: heap_ok_def touch_def mark_closed_def list_update_ok)

lemma table_op_trans:
  assumes "table_op r r'" and "table_op r' r''"
  shows "table_op r r''"
proof -
  have cfg: "rtCfg r' = rtCfg r" using assms(1) by (simp add: table_op_def frame_def)
  let ?steps = "tsteps VoiceChatSessionCreated VoiceChatSessionClosed voicechatSessions (vrMaxSessions (rtCfg r))"
  have "?steps r r'" "?steps r' r''" using assms cfg by (simp_all add: table_op_def)
  then have "?steps r r''" by (rule rtranclp_trans)
  moreover have "same_registrations (tbMetrics r) (tbMetrics r'')"
    using assms by (blast intro: same_registrations_trans [of _ "tbMetrics r'"] dest: table_op_def [THEN iffD1])
  ultimately show ?thesis using assms unfolding table_op_def by (simp only: simp_thms) (blast intro: le_trans)
qed

lemma table_op_ok: "sessions_ok r \<Longrightarrow> table_op r r' \<Longrightarrow> sessions_ok r'"
  by (auto simp: sessions_ok_def table_op_def dest!: frame_eq intro: voice.steps_keep_table)

lemma op_metric:
  "(\<And>m. recEnabled (f m) = recEnabled m \<and> gauge voicechatSessions (f m) = gauge voicechatSessions m \<and>
       gauge voicechatRegistrations (f m) = gauge voicechatRegistrations m) \<Longrightarrow> table_op r (record_metric f r)"
  unfolding table_op_def
  by (simp add: same_registrations_map voice.settled_record_metric r_into_rtranclp record_metric_step)

lemma op_packet [intro]: "table_op r (voice_packet d res n r)"
  unfolding voice_packet_def by (rule op_metric) simp

lemma op_event [intro]: "table_op r (registrationEvent res r)"
  unfolding registrationEvent_def by (rule op_metric) simp

lemma op_switch [intro]: "table_op r (record_metric VoiceChatBackendSwitch r)"
  by (rule op_metric) simp

lemma op_touch [intro]: "table_op r (touch sid now r)"
proof -
  have "tstep VoiceChatSessionCreated VoiceChatSessionClosed voicechatSessions (vrMaxSessions (rtCfg r)) r (touch sid now r)"
    by (rule step_touch)
  then show ?thesis unfolding table_op_def by (simp add: voice.settled_touch r_into_rtranclp)
qed

lemma op_insert:
  assumes "sessions_ok r" and "\<not> seClosed s" and "session_ok s"
  shows "table_op r (snd (insert_session VoiceChatSessionCreated (vrMaxSessions (rtCfg r)) s r))"
proof -
  have step: "tstep VoiceChatSessionCreated VoiceChatSessionClosed voicechatSessions (vrMaxSessions (rtCfg r)) r
      (snd (insert_session VoiceChatSessionCreated (vrMaxSessions (rtCfg r)) s r))"
    using assms(2) by (rule step_insert)
  have settled: "settled voicechatSessions r \<Longrightarrow>
      settled voicechatSessions (snd (insert_session VoiceChatSessionCreated (vrMaxSessions (rtCfg r)) s r))"
    using assms by (intro voice.settled_insert) (simp_all add: sessions_ok_def)
  let ?r = "snd (insert_session VoiceChatSessionCreated (vrMaxSessions (rtCfg r)) s r)"
  have "tbClosed ?r = tbClosed r" "length (tbHeap r) \<le> length (tbHeap ?r)" "heap_ok r \<Longrightarrow> heap_ok ?r"
    "same_registrations (tbMetrics r) (tbMetrics ?r)"
    using assms(3)
    by (cases rule: insert_session_cases [where oncreate = VoiceChatSessionCreated and mx = "vrMaxSessions (rtCfg r)" and s = s and t = r];
        simp add: same_registrations_map heap_ok_def)+
  with step settled show ?thesis unfolding table_op_def by (intro conjI impI r_into_rtranclp) (simp_all only: frame_simps)
qed

lemma close_props [simp]:
  "tbClosed (sess_close onclose sid reason r) = tbClosed r" "tbClosed (sess_closeWithoutMetric sid r) = tbClosed r"
  "tbMetrics (sess_closeWithoutMetric sid r) = tbMetrics r" "length (tbHeap (sess_closeWithoutMetric sid r)) = length (tbHeap r)"
  by (simp_all add: sess_close_def sess_closeWithoutMetric_def)

lemma close_heap_ok [simp]:
  "heap_ok r \<Longrightarrow> heap_ok (sess_close onclose sid reason r)" "heap_ok r \<Longrightarrow> heap_ok (sess_closeWithoutMetric sid r)"
  by (simp_all add: sess_close_def sess_closeWithoutMetric_def)

lemma close_same [simp]: "same_registrations (tbMetrics r) (tbMetrics (sess_close VoiceChatSessionClosed sid reason r))"
  by (simp add: sess_close_def same_registrations_map)

lemma close_all_props:
  "tbClosed (close_all VoiceChatSessionClosed reason sids r) = tbClosed r"
  "length (tbHeap (close_all VoiceChatSessionClosed reason sids r)) = length (tbHeap r)"
  "heap_ok r \<Longrightarrow> heap_ok (close_all VoiceChatSessionClosed reason sids r)"
  "same_registrations (tbMetrics r) (tbMetrics (close_all VoiceChatSessionClosed reason sids r))"
proof -
  show "tbClosed (close_all VoiceChatSessionClosed reason sids r) = tbClosed r"
    "length (tbHeap (close_all VoiceChatSessionClosed reason sids r)) = length (tbHeap r)"
    "heap_ok r \<Longrightarrow> heap_ok (close_all VoiceChatSessionClosed reason sids r)"
    unfolding close_all_def by (induction sids arbitrary: r) simp_all
  show "same_registrations (tbMetrics r) (tbMetrics (close_all VoiceChatSessionClosed reason sids r))"
    unfolding close_all_def
  proof (induction sids arbitrary: r)
    case (Cons sid sids)
    show ?case using same_registrations_trans [OF close_same Cons.IH] by simp
  qed simp
qed

lemma op_close [intro]:
  assumes "sessions_ok r" and "sid < length (tbHeap r)"
  shows "table_op r (voice_closeSession sid reason r)"
proof -
  have inv: "table_inv (vrMaxSessions (rtCfg r)) r" using assms(1) by (simp add: sessions_ok_def)
  have "tbClosed (voice_closeSession sid reason r) = tbClosed r" "heap_ok r \<Longrightarrow> heap_ok (voice_closeSession sid reason r)"
    "same_registrations (tbMetrics r) (tbMetrics (voice_closeSession sid reason r))"
    "length (tbHeap r) \<le> length (tbHeap (voice_closeSession sid reason r))"
    using close_same [of "remove_session sid r" sid reason] by (simp_all add: voice_closeSession_def close_session_def)
  moreover have "settled voicechatSessions r \<Longrightarrow> settled voicechatSessions (voice_closeSession sid reason r)"
    unfolding voice_closeSession_def using inv assms(2) by (intro voice.settled_close_session)
  ultimately show ?thesis unfolding table_op_def
    by (intro conjI impI) (simp_all add: close_session_steps [OF inv assms(2), folded voice_closeSession_def] voice_closeSession_def [symmetric],
      simp add: voice_closeSession_def close_session_steps [OF inv assms(2)])
qed

lemma op_closeSessionsForUUID [intro]:
  assumes "sessions_ok r"
  shows "table_op r (closeSessionsForUUID uuid reason r)"
proof -
  have inv: "table_inv (vrMaxSessions (rtCfg r)) r" using assms(1) by (simp add: sessions_ok_def)
  let ?P = "\<lambda>sid. dsPlayerUUID (tbHeap r ! sid) = uuid"
  have e: "closeSessionsForUUID uuid reason r = close_all VoiceChatSessionClosed reason (fst (remove_where ?P r)) (snd (remove_where ?P r))"
    by (simp add: closeSessionsForUUID_def case_prod_beta)
  have "same_registrations (tbMetrics r) (tbMetrics (closeSessionsForUUID uuid reason r))"
    unfolding e using close_all_props(4) [of "snd (remove_where ?P r)"] by simp
  moreover have "tsteps VoiceChatSessionCreated VoiceChatSessionClosed voicechatSessions (vrMaxSessions (rtCfg r)) r
      (closeSessionsForUUID uuid reason r)" unfolding e by (rule remove_close_steps [OF inv])
  moreover have "settled voicechatSessions r \<Longrightarrow> settled voicechatSessions (closeSessionsForUUID uuid reason r)"
    unfolding e by (rule voice.settled_remove_close [OF inv])
  ultimately show ?thesis unfolding table_op_def by (intro conjI impI) (simp_all add: e close_all_props)
qed

lemma op_reassign:
  assumes "sessions_ok r" and "gm_get (tbSessions r) key = Some sid"
  shows "table_op r (sess_close VoiceChatSessionClosed sid reason (r\<lparr>tbSessions := gm_del (tbSessions r) key\<rparr>))"
proof -
  have "seKey (tbHeap r ! sid) = key" and sid: "sid < length (tbHeap r)"
    using assms by (auto simp: sessions_ok_def table_inv_def dest: open_ids_less)
  then have "sess_close VoiceChatSessionClosed sid reason (r\<lparr>tbSessions := gm_del (tbSessions r) key\<rparr>) = voice_closeSession sid reason r"
    using assms(2) by (simp add: voice_closeSession_def close_session_def remove_session_def is_current_def)
  then show ?thesis using op_close [OF assms(1) sid] by simp
qed

lemma sessionFor_create_op:
  assumes "sessions_ok r" and "length uuid = uuidSize"
  shows "table_op r (snd (sessionFor_create e now uuid c reg r))"
  using assms
  by (auto simp: sessionFor_create_def session_ok_def intro!: op_insert split: option.split dial_result.split)

lemma sessionFor_op:
  assumes "sessions_ok r" and "length uuid = uuidSize"
  shows "table_op r (snd (sessionFor e now uuid c reg r))"
proof -
  have "table_op r (snd (sessionFor_create e now uuid c reg (sess_close VoiceChatSessionClosed sid reason
      (r\<lparr>tbSessions := gm_del (tbSessions r) key\<rparr>))))" if "gm_get (tbSessions r) key = Some sid" for key sid reason
    using op_reassign [OF assms(1) that] table_op_ok [OF assms(1) op_reassign [OF assms(1) that]] assms(2)
    by (intro table_op_trans [OF _ sessionFor_create_op]) auto
  then show ?thesis using sessionFor_create_op [OF assms]
    by (auto simp: sessionFor_def Let_def split: option.split)
qed

lemma sessionFor_create_result:
  "sessionFor_create e now uuid c reg r = (Inr (sid, created), r') \<Longrightarrow> gm_get (tbSessions r) (dynamicSessionKey uuid c) = None \<Longrightarrow>
     gm_get (tbSessions r') (dynamicSessionKey uuid c) = Some sid \<and> sid < length (tbHeap r') \<and> dsPlayerUUID (tbHeap r' ! sid) = uuid \<and>
     session_matches (tbHeap r' ! sid) reg"
  by (auto simp: sessionFor_create_def insert_session_def Let_def session_matches_def nth_append
      split: option.splits dial_result.splits if_splits)

lemma UUID_String_inject:
  assumes "length u = uuidSize" and "length u' = uuidSize" and "UUID_String u = UUID_String u'"
  shows "u = u'"
proof -
  have "Inr u = ParseUUID (UUID_String u)" by (rule ParseUUID_String [OF assms(1), symmetric])
  also have "\<dots> = Inr u'" unfolding assms(3) by (rule ParseUUID_String [OF assms(2)])
  finally show ?thesis by (rule Inr_inject)
qed

lemma length_UUID_String: "length u = uuidSize \<Longrightarrow> length (UUID_String u) = 36"
  by (simp add: UUID_String_def uuidSize_def)

lemma dynamicSessionKey_uuid:
  assumes "length u = uuidSize" and "length u' = uuidSize" and "dynamicSessionKey u a = dynamicSessionKey u' a'"
  shows "u = u'"
proof (rule UUID_String_inject [OF assms(1,2)])
  show "UUID_String u = UUID_String u'"
    using assms(3) length_UUID_String [OF assms(1)] length_UUID_String [OF assms(2)] by (simp add: dynamicSessionKey_def)
qed

lemma sessionFor_result:
  assumes "sessions_ok r" and "heap_ok r" and "length uuid = uuidSize" and "sessionFor e now uuid c reg r = (Inr (sid, created), r')"
  shows "gm_get (tbSessions r') (dynamicSessionKey uuid c) = Some sid \<and> sid < length (tbHeap r') \<and>
    dsPlayerUUID (tbHeap r' ! sid) = uuid \<and> session_matches (tbHeap r' ! sid) reg"
proof (cases "gm_get (tbSessions r) (dynamicSessionKey uuid c)")
  case None
  with assms(4) have "sessionFor_create e now uuid c reg r = (Inr (sid, created), r')" by (simp add: sessionFor_def Let_def split: if_splits)
  then show ?thesis using None by (rule sessionFor_create_result)
next
  case (Some sess)
  have sess: "sess < length (tbHeap r)" "seKey (tbHeap r ! sess) = dynamicSessionKey uuid c"
    using assms(1) Some by (auto simp: sessions_ok_def table_inv_def dest: open_ids_less)
  with assms(2) have "session_ok (tbHeap r ! sess)" by (simp add: heap_ok_def list_all_length)
  with sess(2) assms(3) have uuid: "dsPlayerUUID (tbHeap r ! sess) = uuid" unfolding session_ok_def by (metis dynamicSessionKey_uuid)
  show ?thesis
  proof (cases "session_matches (tbHeap r ! sess) reg")
    case True
    with assms(4) Some have "sid = sess" "r' = r" by (auto simp: sessionFor_def Let_def split: if_splits)
    with True Some sess(1) uuid show ?thesis by simp
  next
    case False
    let ?r = "sess_close VoiceChatSessionClosed sess VoiceChatSessionCloseReasonReassigned
      (r\<lparr>tbSessions := gm_del (tbSessions r) (dynamicSessionKey uuid c)\<rparr>)"
    have "sessionFor_create e now uuid c reg ?r = (Inr (sid, created), r')"
      using assms(4) Some False by (simp add: sessionFor_def Let_def split: if_splits)
    then show ?thesis by (rule sessionFor_create_result) simp
  qed
qed

section \<open>The invariant\<close>

definition regs_fine :: "Runtime \<Rightarrow> (UUID, registration) gomap \<Rightarrow> bool" where
  "regs_fine r regs \<longleftrightarrow>
     gm_wf regs \<and> int (gm_len regs) \<le> vrMaxRegistrations (rtCfg r) \<and> (tbClosed r \<longrightarrow> regs = []) \<and>
     (\<forall>u reg. gm_get regs u = Some reg \<longrightarrow>
        rgPlayerUUID reg = u \<and> length u = uuidSize \<and> gm_get (rtBackends r) (rgBackendID reg) \<noteq> None)"

definition runtime_inv :: "Runtime \<Rightarrow> bool" where
  "runtime_inv r \<longleftrightarrow>
     sessions_ok r \<and> settled voicechatSessions r \<and> heap_ok r \<and> regs_fine r (rtRegistrations r) \<and>
     list_all (\<lambda>t. gm_get (rtBackends r) (btBackendID t) \<noteq> None) (rtTokens r) \<and>
     (\<forall>m. tbMetrics r = Some m \<longrightarrow> recEnabled m \<longrightarrow> gauge voicechatRegistrations m = int (gm_len (rtRegistrations r)))"

lemma inv_sessions_ok: "runtime_inv r \<Longrightarrow> sessions_ok r"
  by (simp add: runtime_inv_def)

lemma regs_fine_frame:
  assumes "frame r' = frame r" and "tbClosed r' = tbClosed r"
  shows "regs_fine r' regs = regs_fine r regs"
  using frame_eq [OF assms(1)] assms(2) by (simp add: regs_fine_def)

lemma inv_table_op:
  assumes "runtime_inv r" and "table_op r r'"
  shows "runtime_inv r'"
proof -
  have f: "frame r' = frame r" and c: "tbClosed r' = tbClosed r" using assms(2) by (simp_all add: table_op_def)
  note fr = frame_eq [OF f]
  have "gauge voicechatRegistrations m' = int (gm_len (rtRegistrations r'))" if "tbMetrics r' = Some m'" "recEnabled m'" for m'
  proof -
    have "same_registrations (tbMetrics r) (Some m')" using assms(2) that(1) by (simp add: table_op_def)
    then obtain m where "tbMetrics r = Some m" "recEnabled m' = recEnabled m" "gauge voicechatRegistrations m' = gauge voicechatRegistrations m"
      by (cases "tbMetrics r") (simp_all add: same_registrations_def)
    with assms(1) that(2) fr show ?thesis by (simp add: runtime_inv_def)
  qed
  moreover have "sessions_ok r'" by (rule table_op_ok [OF inv_sessions_ok [OF assms(1)] assms(2)])
  moreover have "settled voicechatSessions r'" "heap_ok r'" using assms by (simp_all add: runtime_inv_def table_op_def)
  ultimately show ?thesis using assms(1) fr unfolding runtime_inv_def regs_fine_frame [OF f c] by simp
qed

lemma registrations_update [simp]:
  "table_inv mx (r\<lparr>rtRegistrations := x\<rparr>) = table_inv mx r" "settled g (r\<lparr>rtRegistrations := x\<rparr>) = settled g r"
  "heap_ok (r\<lparr>rtRegistrations := x\<rparr>) = heap_ok r" "sessions_ok (r\<lparr>rtRegistrations := x\<rparr>) = sessions_ok r"
  "regs_fine (r\<lparr>rtRegistrations := x\<rparr>) regs = regs_fine r regs"
proof -
  have o: "open_ids (r\<lparr>rtRegistrations := x\<rparr>) = open_ids r" by (simp add: open_ids_def)
  then show "settled g (r\<lparr>rtRegistrations := x\<rparr>) = settled g r"
    by (cases "tbMetrics r") (simp_all add: settled_def gauge_exact_def is_current_def)
  show "table_inv mx (r\<lparr>rtRegistrations := x\<rparr>) = table_inv mx r" "sessions_ok (r\<lparr>rtRegistrations := x\<rparr>) = sessions_ok r"
    by (simp_all add: table_inv_def sessions_ok_def o)
qed (simp_all add: heap_ok_def regs_fine_def)

lemma regs_fine_record_metric [simp]: "regs_fine (record_metric f r) regs = regs_fine r regs"
  by (rule regs_fine_frame) simp_all

lemma sessions_ok_record_metric [simp]: "sessions_ok (record_metric f r) = sessions_ok r"
  using frame_eq [of "record_metric f r" r] by (simp add: sessions_ok_def)

lemma rt_record_metric [simp]:
  "rtCfg (record_metric f r) = rtCfg r" "rtRegistrations (record_metric f r) = rtRegistrations r"
  "rtBackends (record_metric f r) = rtBackends r" "rtTokens (record_metric f r) = rtTokens r"
  for r :: Runtime
  using frame_eq [of "record_metric f r" r] by simp_all

lemma inv_set_regs:
  assumes "runtime_inv r" and "regs_fine r regs"
  shows "runtime_inv (record_metric (\<lambda>m. VoiceChatRegistrationsSet m (gm_len regs)) (r\<lparr>rtRegistrations := regs\<rparr>))"
  using assms unfolding runtime_inv_def
  by (auto simp: voice.settled_record_metric)

lemma inv_replace_reg:
  assumes "runtime_inv r" and "regs_fine r regs" and "gm_len regs = gm_len (rtRegistrations r)"
  shows "runtime_inv (r\<lparr>rtRegistrations := regs\<rparr>)"
  using assms unfolding runtime_inv_def by auto

lemma regs_fine_del: "regs_fine r regs \<Longrightarrow> regs_fine r (gm_del regs u)"
  using gm_len_del [of u regs] by (auto simp: regs_fine_def split: if_splits)

lemma regs_fine_keep: "regs_fine r regs \<Longrightarrow> regs_fine r (gm_keep P regs)"
  using gm_len_keep [of P regs] unfolding regs_fine_def
  by (auto simp: gm_get_keep gm_keep_def [of P "[]"] split: option.splits if_splits)

lemma regs_fine_set:
  assumes "regs_fine r regs" and "length u = uuidSize" and "rgPlayerUUID reg = u" and "gm_get (rtBackends r) (rgBackendID reg) \<noteq> None"
    and "gm_get regs u = None \<Longrightarrow> int (gm_len regs) < vrMaxRegistrations (rtCfg r)" and "\<not> tbClosed r"
  shows "regs_fine r (gm_set regs u reg)"
  using assms by (auto simp: regs_fine_def gm_len_set split: if_splits)

lemma record_metric_comp: "record_metric (\<lambda>m. f (h m)) r = record_metric f (record_metric h r)"
  by (simp add: record_metric_def option.map_comp comp_def)

lemma lookupRegistration_inv:
  assumes "runtime_inv r"
  shows "runtime_inv (snd (lookupRegistration now uuid r))"
proof -
  let ?regs = "gm_del (rtRegistrations r) uuid"
  have "runtime_inv (record_metric (\<lambda>m. VoiceChatRegistrationsSet m (gm_len ?regs)) (r\<lparr>rtRegistrations := ?regs\<rparr>))"
    using assms by (intro inv_set_regs regs_fine_del) (simp_all add: runtime_inv_def)
  then have "runtime_inv (registrationEvent VoiceChatRegistrationResultExpired
      (record_metric (\<lambda>m. VoiceChatRegistrationsSet m (gm_len ?regs)) (r\<lparr>rtRegistrations := ?regs\<rparr>)))"
    by (rule inv_table_op) (rule op_event)
  moreover have "record_metric (\<lambda>m. VoiceChatRegistrationEvent (VoiceChatRegistrationsSet m n) VoiceChatRegistrationResultExpired) r' =
      registrationEvent VoiceChatRegistrationResultExpired (record_metric (\<lambda>m. VoiceChatRegistrationsSet m n) r')" for n r'
    unfolding registrationEvent_def by (rule record_metric_comp)
  ultimately show ?thesis using assms by (auto simp: lookupRegistration_def Let_def split: option.split)
qed

lemma ParseClientPacket_uuid: "ParseClientPacket p = Inr c \<Longrightarrow> length (cpPlayerUUID c) = uuidSize"
  by (auto simp: ParseClientPacket_def Let_def split: if_splits sum.splits prod.splits)

lemma forwardClientPacket_inv:
  assumes "runtime_inv r"
  shows "runtime_inv (fst (snd (forwardClientPacket e write now c p r)))"
proof (cases "ParseClientPacket p")
  case (Inl err)
  then show ?thesis using inv_table_op [OF assms op_packet] by (simp add: forwardClientPacket_def)
next
  case (Inr packet)
  obtain x r1 where l: "lookupRegistration now (cpPlayerUUID packet) r = (x, r1)" by (cases "lookupRegistration now (cpPlayerUUID packet) r")
  have i1: "runtime_inv r1" using lookupRegistration_inv [OF assms, of now "cpPlayerUUID packet"] by (simp add: l)
  note uuid = ParseClientPacket_uuid [OF Inr]
  show ?thesis
  proof (cases x)
    case (Inl err)
    then show ?thesis using inv_table_op [OF i1 op_packet] by (simp add: forwardClientPacket_def Inr l)
  next
    case (Inr reg)
    obtain y r2 where s: "sessionFor e now (cpPlayerUUID packet) c reg r1 = (y, r2)" by (cases "sessionFor e now (cpPlayerUUID packet) c reg r1")
    have o2: "table_op r1 r2" using sessionFor_op [OF inv_sessions_ok [OF i1] uuid, of e now c reg] by (simp add: s)
    have i2: "runtime_inv r2" by (rule inv_table_op [OF i1 o2])
    show ?thesis
    proof (cases y)
      case (Inl err)
      then show ?thesis using inv_table_op [OF i2 op_packet] by (simp add: forwardClientPacket_def \<open>ParseClientPacket p = _\<close> l Inr s)
    next
      case (Inr z)
      obtain sid created where z: "z = (sid, created)" by (cases z)
      let ?r3 = "\<lambda>res. voice_packet VoiceChatPacketDirectionClientToBackend res (length p) (touch sid now r2)"
      have o3: "table_op r2 (?r3 res)" for res by (rule table_op_trans [OF op_touch op_packet])
      have i3: "runtime_inv (?r3 res)" for res by (rule inv_table_op [OF i2 o3])
      have "sid < length (tbHeap r2)"
        using sessionFor_result [OF inv_sessions_ok [OF i1] _ uuid, of e now c reg sid created r2] i1 s Inr z by (simp add: runtime_inv_def)
      then have "sid < length (tbHeap (?r3 res))" for res by (simp add: voice_packet_def)
      then have "runtime_inv (voice_closeSession sid reason (?r3 res))" for res reason
        using i3 by (intro inv_table_op [OF i3 op_close] inv_sessions_ok)
      with i3 show ?thesis
        by (simp add: forwardClientPacket_def \<open>ParseClientPacket p = _\<close> l \<open>x = _\<close> s Inr z Let_def split: option.split)
    qed
  qed
qed

lemma serveUDP_inv: "runtime_inv r \<Longrightarrow> runtime_inv (fst (snd (serveUDP_step e write now ended ev r)))"
  using forwardClientPacket_inv [of r e "write" now] inv_table_op [OF _ op_packet, of r]
  by (auto simp: serveUDP_step_def Let_def case_prod_beta split: udp_read.split)

lemma voice_readBackend_inv:
  assumes "runtime_inv r" and "sid < length (tbHeap r)"
  shows "runtime_inv (fst (snd (voice_readBackend_step write now sid ev r)))"
proof -
  have p: "runtime_inv (voice_packet d res n r)" for d res n by (rule inv_table_op [OF assms(1) op_packet])
  have "runtime_inv (voice_closeSession sid reason (voice_packet d res n r))" for reason d res n
    using assms(2) by (intro inv_table_op [OF p op_close] inv_sessions_ok p) (simp add: voice_packet_def)
  moreover have "runtime_inv (voice_packet d res n (touch sid now r))" for d res n
    by (rule inv_table_op [OF assms(1) table_op_trans [OF op_touch op_packet]])
  ultimately show ?thesis using assms(1) p by (auto simp: voice_readBackend_step_def Let_def split: sum.split option.split)
qed

lemma close_uuids_inv: "runtime_inv r \<Longrightarrow> runtime_inv (foldl (\<lambda>r uuid. closeSessionsForUUID uuid reason r) r uuids)"
proof (induction uuids arbitrary: r)
  case (Cons u us)
  have "runtime_inv (closeSessionsForUUID u reason r)"
    using Cons.prems by (intro inv_table_op [OF Cons.prems op_closeSessionsForUUID] inv_sessions_ok)
  then show ?case using Cons.IH by simp
qed simp

lemma events_metric:
  "recEnabled (foldl (\<lambda>m _. VoiceChatRegistrationEvent m res) m xs) = recEnabled m \<and>
   gauge voicechatSessions (foldl (\<lambda>m _. VoiceChatRegistrationEvent m res) m xs) = gauge voicechatSessions m \<and>
   gauge voicechatRegistrations (foldl (\<lambda>m _. VoiceChatRegistrationEvent m res) m xs) = gauge voicechatRegistrations m"
  by (induction xs arbitrary: m) simp_all

lemma expireRegistrations_inv:
  assumes "runtime_inv r"
  shows "runtime_inv (expireRegistrations now r)"
proof -
  let ?regs = "gm_keep (\<lambda>uuid reg. \<not> now > rgExpiresAt reg) (rtRegistrations r)"
  let ?expired = "map fst (filter (\<lambda>(uuid, reg). now > rgExpiresAt reg) (rtRegistrations r))"
  have fine: "regs_fine r ?regs" using assms by (intro regs_fine_keep) (simp add: runtime_inv_def)
  show ?thesis
  proof (cases "length ?expired = 0")
    case True
    then have "?regs = rtRegistrations r" by (simp add: gm_keep_def filter_id_conv filter_empty_conv case_prod_beta)
    then have "runtime_inv (r\<lparr>rtRegistrations := ?regs\<rparr>)" using fine by (intro inv_replace_reg [OF assms]) simp_all
    with True show ?thesis by (simp add: expireRegistrations_def Let_def)
  next
    case False
    let ?r2 = "record_metric (\<lambda>m. VoiceChatRegistrationsSet m (gm_len ?regs)) (r\<lparr>rtRegistrations := ?regs\<rparr>)"
    let ?r3 = "record_metric (\<lambda>m. foldl (\<lambda>m _. VoiceChatRegistrationEvent m VoiceChatRegistrationResultExpired) m ?expired) ?r2"
    have "runtime_inv ?r2" by (rule inv_set_regs [OF assms fine])
    moreover have "table_op ?r2 ?r3" by (rule op_metric) (rule events_metric)
    ultimately have "runtime_inv ?r3" by (rule inv_table_op)
    from close_uuids_inv [OF this] False show ?thesis by (simp add: expireRegistrations_def Let_def)
  qed
qed

lemma expire_sessions_inv:
  "runtime_inv r \<Longrightarrow> \<forall>sid \<in> set sids. sid < length (tbHeap r) \<Longrightarrow>
     runtime_inv (foldl (\<lambda>r sid. if later - seLastActivity (tbHeap r ! sid) \<ge> vrIdleTimeout (rtCfg r)
                     then voice_closeSession sid reason r else r) r sids)"
proof (induction sids arbitrary: r)
  case (Cons sid sids)
  let ?r = "if later - seLastActivity (tbHeap r ! sid) \<ge> vrIdleTimeout (rtCfg r) then voice_closeSession sid reason r else r"
  have "runtime_inv (voice_closeSession sid reason r)"
    using Cons.prems by (intro inv_table_op [OF Cons.prems(1) op_close] inv_sessions_ok) simp_all
  then have "runtime_inv ?r" using Cons.prems(1) by simp
  moreover have "\<forall>sid \<in> set sids. sid < length (tbHeap ?r)" using Cons.prems by (simp add: voice_closeSession_def)
  ultimately show ?case using Cons.IH by simp
qed simp

lemma expireLoop_inv:
  assumes "runtime_inv r"
  shows "runtime_inv (expireLoop_tick now later r)"
proof -
  let ?r = "expireRegistrations now r"
  have i: "runtime_inv ?r" by (rule expireRegistrations_inv [OF assms])
  then have "table_inv (vrMaxSessions (rtCfg ?r)) ?r" by (simp add: runtime_inv_def sessions_ok_def)
  then have "\<forall>sid \<in> set (map snd (tbSessions ?r)). sid < length (tbHeap ?r)" using table_ids(2) open_ids_less by fastforce
  with i show ?thesis unfolding expireLoop_tick_def Let_def by (rule expire_sessions_inv)
qed

lemma Runtime_Close_inv:
  assumes "runtime_inv r"
  shows "runtime_inv (Runtime_Close r)"
proof (cases "tbClosed r")
  case False
  let ?r = "r\<lparr>tbClosed := True, tbSessions := [], rtRegistrations := []\<rparr>" and ?sids = "map snd (tbSessions r)"
  let ?r' = "close_all VoiceChatSessionClosed VoiceChatSessionCloseReasonShutdown ?sids ?r"
  have so: "sessions_ok r" by (rule inv_sessions_ok [OF assms])
  then have inv: "table_inv (vrMaxSessions (rtCfg r)) r" by (simp add: sessions_ok_def)
  have sids: "set ?sids \<subseteq> open_ids r" using table_ids(2) [OF inv] by simp
  have opn: "open_ids ?r = open_ids r" by (simp add: open_ids_def)
  have "table_inv (vrMaxSessions (rtCfg r)) (r\<lparr>tbClosed := True, tbSessions := []\<rparr>)"
    using so by (intro voice.step_keeps_table [OF step_shutdown inv]) (simp add: sessions_ok_def)
  then have "table_inv (vrMaxSessions (rtCfg r)) ?r"
    using registrations_update(1) [where r = "r\<lparr>tbClosed := True, tbSessions := []\<rparr>"] by simp
  moreover have "tsteps VoiceChatSessionCreated VoiceChatSessionClosed voicechatSessions (vrMaxSessions (rtCfg r)) ?r ?r'"
    using sids by (intro close_all_steps) (auto dest: open_ids_less)
  ultimately have "table_inv (vrMaxSessions (rtCfg r)) ?r'"
    using so voice.steps_keep_table [where t = ?r and t' = "?r'"] by (simp add: sessions_ok_def)
  moreover have fr: "rtCfg ?r' = rtCfg r" "rtRegistrations ?r' = []" "rtBackends ?r' = rtBackends r" "rtTokens ?r' = rtTokens r"
    using frame_eq [OF frame_close_all, of VoiceChatSessionClosed VoiceChatSessionCloseReasonShutdown ?sids ?r] by simp_all
  moreover have "settled voicechatSessions ?r'"
  proof (rule conjunct1 [OF voice.settled_close_all])
    show "distinct ?sids" by (rule card_distinct) (simp only: set_map length_map table_ids(1) [OF inv])
    show "set ?sids \<subseteq> open_ids ?r" using sids by (simp add: opn)
    show "gauge_exact voicechatSessions ?r" using assms by (simp add: runtime_inv_def settled_def gauge_exact_def opn split: option.splits)
    show "\<forall>sid \<in> open_ids ?r - set ?sids. is_current sid ?r"
      using assms is_current_in_table [of _ r] opn by (auto simp: runtime_inv_def settled_def)
  qed
  moreover have "heap_ok ?r'" using assms by (intro close_all_props(3)) (simp add: runtime_inv_def heap_ok_def)
  ultimately have "runtime_inv (record_metric (\<lambda>m. VoiceChatRegistrationsSet m 0) ?r')"
    using so assms by (auto simp: runtime_inv_def sessions_ok_def regs_fine_def voice.settled_record_metric)
  then show ?thesis using False by (simp add: Runtime_Close_def)
qed (simp add: Runtime_Close_def assms)

lemma authenticate_backend:
  assumes "runtime_inv r" and "authenticate (rtTokens r) auth = Some b"
  shows "gm_get (rtBackends r) b \<noteq> None"
  using assms by (auto simp: authenticate_def runtime_inv_def list_all_iff find_Some_iff Let_def split: if_splits dest!: nth_mem)

lemma parseRegistrationPath_uuid: "parseRegistrationPath path = Some (u, action) \<Longrightarrow> length u = uuidSize"
  by (auto simp: parseRegistrationPath_def Let_def dest: ParseUUID_length split: if_splits sum.splits)

lemma inv_event: "runtime_inv r \<Longrightarrow> runtime_inv (registrationEvent res r)"
  by (erule inv_table_op) (rule op_event)

lemma inv_closeSessions: "runtime_inv r \<Longrightarrow> runtime_inv (closeSessionsForUUID uuid reason r)"
  by (rule inv_table_op) (auto intro: op_closeSessionsForUUID inv_sessions_ok)

lemma handlePut_inv:
  assumes "runtime_inv r" and "length uuid = uuidSize" and "gm_get (rtBackends r) b \<noteq> None"
  shows "runtime_inv (snd (handlePutRegistration j rand now body b uuid r))"
proof -
  have r: "regs_fine r (rtRegistrations r)" using assms(1) by (simp add: runtime_inv_def)
  have set: "runtime_inv (record_metric (\<lambda>m. VoiceChatRegistrationsSet m (gm_len (gm_set (rtRegistrations r) uuid reg)))
               (r\<lparr>rtRegistrations := gm_set (rtRegistrations r) uuid reg\<rparr>))"
    if "\<not> tbClosed r" "rgPlayerUUID reg = uuid" "rgBackendID reg = b"
       "gm_get (rtRegistrations r) uuid = None \<Longrightarrow> int (gm_len (rtRegistrations r)) < vrMaxRegistrations (rtCfg r)" for reg
    using that assms(3) by (intro inv_set_regs [OF assms(1)] regs_fine_set [OF r assms(2)]) simp_all
  have switch: "runtime_inv (record_metric VoiceChatBackendSwitch r')" if "runtime_inv r'" for r'
    by (rule inv_table_op [OF that op_switch])
  show ?thesis
    unfolding handlePutRegistration_def Let_def
    by (auto split: sum.split option.split intro!: inv_event switch inv_closeSessions set assms(1) simp del: length_map)
qed

lemma lease_held_some:
  "lease_held r b uuid req = Some reg \<longleftrightarrow>
     gm_get (rtRegistrations r) uuid = Some reg \<and> rgBackendID reg = b \<and> rgOwnerID reg = leOwnerID req \<and> rgLeaseID reg = leLeaseID req"
  by (auto simp: lease_held_def split: option.split)

lemma handleRefresh_inv:
  assumes "runtime_inv r"
  shows "runtime_inv (snd (handleRefreshRegistration j now body b uuid r))"
proof -
  have "runtime_inv (r\<lparr>rtRegistrations := gm_set (rtRegistrations r) uuid (reg\<lparr>rgExpiresAt := t\<rparr>)\<rparr>)"
    if "lease_held r b uuid req = Some reg" for reg req t
  proof (rule inv_replace_reg [OF assms])
    have reg: "gm_get (rtRegistrations r) uuid = Some reg" using that by (simp add: lease_held_some)
    have fine: "regs_fine r (rtRegistrations r)" using assms by (simp add: runtime_inv_def)
    from fine reg have "\<not> tbClosed r" by (auto simp: regs_fine_def)
    moreover have "length uuid = uuidSize" "rgPlayerUUID reg = uuid" "gm_get (rtBackends r) (rgBackendID reg) \<noteq> None"
      using fine reg by (auto simp: regs_fine_def)
    ultimately show "regs_fine r (gm_set (rtRegistrations r) uuid (reg\<lparr>rgExpiresAt := t\<rparr>))"
      using reg by (intro regs_fine_set [OF fine]) simp_all
    show "gm_len (gm_set (rtRegistrations r) uuid (reg\<lparr>rgExpiresAt := t\<rparr>)) = gm_len (rtRegistrations r)"
      using fine reg by (simp add: regs_fine_def gm_len_set)
  qed
  then show ?thesis using assms by (auto simp: handleRefreshRegistration_def Let_def inv_event split: option.split)
qed

lemma handleDelete_inv:
  assumes "runtime_inv r"
  shows "runtime_inv (snd (handleDeleteRegistration j body b uuid r))"
proof -
  have "runtime_inv (record_metric (\<lambda>m. VoiceChatRegistrationsSet m (gm_len (gm_del (rtRegistrations r) uuid)))
          (r\<lparr>rtRegistrations := gm_del (rtRegistrations r) uuid\<rparr>))"
    using assms by (intro inv_set_regs [OF assms] regs_fine_del) (simp add: runtime_inv_def)
  then show ?thesis using assms
    by (auto simp: handleDeleteRegistration_def Let_def inv_event inv_closeSessions split: option.split)
qed

lemma handleRegistration_inv:
  assumes "runtime_inv r"
  shows "runtime_inv (snd (handleRegistration j rand now req r))"
  using assms authenticate_backend [OF assms] parseRegistrationPath_uuid
  by (auto simp: handleRegistration_def inv_event handleRefresh_inv handleDelete_inv intro: handlePut_inv split: option.split)

lemma NewRuntime_backends_ids:
  "NewRuntime_backends e bs backends tokens = Inr (backends', tokens') \<Longrightarrow>
   list_all (\<lambda>t. gm_get backends (btBackendID t) \<noteq> None) tokens \<Longrightarrow>
   list_all (\<lambda>t. gm_get backends' (btBackendID t) \<noteq> None) tokens'"
proof (induction e bs backends tokens rule: NewRuntime_backends.induct)
  case (2 e i cfg bs backends tokens)
  then show ?case by (fastforce simp: list_all_iff split: sum.splits option.splits)
qed simp

section \<open>What a handler does to the sessions of a player\<close>

abbreviation session_player :: "Runtime \<Rightarrow> nat \<Rightarrow> UUID" where
  "session_player r sid \<equiv> dsPlayerUUID (tbHeap r ! sid)"

lemma player_simps [simp]:
  "session_player (mark_closed sid r) i = session_player r i" "session_player (touch sid now r) i = session_player r i"
  by (simp_all add: mark_closed_def touch_def update_same)

lemma close_all_sessions:
  "tbSessions (close_all onclose reason sids r) = tbSessions r"
  "session_player (close_all onclose reason sids r) i = session_player r i"
  "seLastActivity (tbHeap (close_all onclose reason sids r) ! i) = seLastActivity (tbHeap r ! i)"
  unfolding close_all_def by (induction sids arbitrary: r) (simp_all add: sess_close_def)

lemma closeSessions_kept [simp]:
  "session_player (closeSessionsForUUID u reason r) i = session_player r i"
  "seLastActivity (tbHeap (closeSessionsForUUID u reason r) ! i) = seLastActivity (tbHeap r ! i)"
  by (simp_all add: closeSessionsForUUID_def case_prod_beta close_all_sessions)

lemma closeSessions_get:
  assumes "sessions_ok r"
  shows "gm_get (tbSessions (closeSessionsForUUID u reason r)) k = Some i \<longleftrightarrow> gm_get (tbSessions r) k = Some i \<and> session_player r i \<noteq> u"
proof -
  have "gm_wf (tbSessions r)" using assms by (simp add: sessions_ok_def table_inv_def)
  then show ?thesis
    by (auto simp: closeSessionsForUUID_def remove_where_def close_all_sessions gm_get_keep split: option.splits)
qed

lemma close_uuids_get:
  "sessions_ok r \<Longrightarrow>
   gm_get (tbSessions (foldl (\<lambda>r uuid. closeSessionsForUUID uuid reason r) r us)) k = Some i \<longleftrightarrow>
     gm_get (tbSessions r) k = Some i \<and> session_player r i \<notin> set us"
proof (induction us arbitrary: r)
  case (Cons u us)
  show ?case using Cons.IH [OF table_op_ok [OF Cons.prems op_closeSessionsForUUID [OF Cons.prems]]]
    by (auto simp: closeSessions_get [OF Cons.prems])
qed simp

lemma close_uuids_kept:
  fixes r :: Runtime and reason :: string
  defines "f \<equiv> foldl (\<lambda>r uuid. closeSessionsForUUID uuid reason r)"
  shows "session_player (f r us) i = session_player r i" and "seLastActivity (tbHeap (f r us) ! i) = seLastActivity (tbHeap r ! i)"
    and "frame (f r us) = frame r"
  unfolding f_def by (induction us arbitrary: r) (simp_all, simp add: closeSessionsForUUID_def case_prod_beta)

lemma expireRegistrations_get:
  fixes now :: int
  assumes "runtime_inv r"
  defines "expired \<equiv> {u. \<exists>reg. gm_get (rtRegistrations r) u = Some reg \<and> now > rgExpiresAt reg}"
  shows "gm_get (tbSessions (expireRegistrations now r)) k = Some i \<longleftrightarrow> gm_get (tbSessions r) k = Some i \<and> session_player r i \<notin> expired"
    and "gm_get (rtRegistrations (expireRegistrations now r)) u = (if u \<in> expired then None else gm_get (rtRegistrations r) u)"
    and "seLastActivity (tbHeap (expireRegistrations now r) ! i) = seLastActivity (tbHeap r ! i)"
    and "session_player (expireRegistrations now r) i = session_player r i"
    and "rtCfg (expireRegistrations now r) = rtCfg r"
proof -
  let ?l = "map fst (filter (\<lambda>(uuid, reg). now > rgExpiresAt reg) (rtRegistrations r))"
  let ?regs = "gm_keep (\<lambda>uuid reg. \<not> now > rgExpiresAt reg) (rtRegistrations r)"
  let ?r1 = "r\<lparr>rtRegistrations := ?regs\<rparr>"
  let ?r2 = "record_metric (\<lambda>m. foldl (\<lambda>m _. VoiceChatRegistrationEvent m VoiceChatRegistrationResultExpired) m ?l)
    (record_metric (\<lambda>m. VoiceChatRegistrationsSet m (gm_len ?regs)) ?r1)"
  let ?r3 = "foldl (\<lambda>r uuid. closeSessionsForUUID uuid VoiceChatSessionCloseReasonRegistrationExpired r) ?r2 ?l"
  have wf: "gm_wf (rtRegistrations r)" using assms(1) by (simp add: runtime_inv_def regs_fine_def)
  have l: "set ?l = expired"
    using gm_in_get [OF wf] by (force simp: expired_def)
  have e: "expireRegistrations now r = (if length ?l = 0 then ?r1 else ?r3)" by (simp add: expireRegistrations_def Let_def)
  have so: "sessions_ok ?r2" using inv_sessions_ok [OF assms(1)] by simp
  show "gm_get (tbSessions (expireRegistrations now r)) k = Some i \<longleftrightarrow> gm_get (tbSessions r) k = Some i \<and> session_player r i \<notin> expired"
    using close_uuids_get [OF so, of VoiceChatSessionCloseReasonRegistrationExpired ?l k i] l unfolding e by auto
  have "rtRegistrations (expireRegistrations now r) = ?regs" "rtCfg (expireRegistrations now r) = rtCfg r"
    using frame_eq [OF close_uuids_kept(3), of VoiceChatSessionCloseReasonRegistrationExpired ?r2 ?l] unfolding e by auto
  then show "gm_get (rtRegistrations (expireRegistrations now r)) u = (if u \<in> expired then None else gm_get (rtRegistrations r) u)"
    "rtCfg (expireRegistrations now r) = rtCfg r"
    using wf by (auto simp: gm_get_keep expired_def split: option.splits)
  show "seLastActivity (tbHeap (expireRegistrations now r) ! i) = seLastActivity (tbHeap r ! i)"
    "session_player (expireRegistrations now r) i = session_player r i"
    unfolding e by (auto simp: close_uuids_kept)
qed

lemma voice_close_kept [simp]:
  "session_player (voice_closeSession sid reason r) i = session_player r i"
  "seLastActivity (tbHeap (voice_closeSession sid reason r) ! i) = seLastActivity (tbHeap r ! i)"
  "rtCfg (voice_closeSession sid reason r) = rtCfg r"
  "rtRegistrations (voice_closeSession sid reason r) = rtRegistrations r"
  using frame_eq [of "voice_closeSession sid reason r" r]
  by (simp_all add: voice_closeSession_def close_session_def sess_close_def sess_closeWithoutMetric_def)

lemma voice_close_get:
  assumes "sessions_ok r"
  shows "gm_get (tbSessions (voice_closeSession sid reason r)) k = Some i \<longleftrightarrow> gm_get (tbSessions r) k = Some i \<and> i \<noteq> sid"
proof -
  have key: "seKey (tbHeap r ! i) = k" if "gm_get (tbSessions r) k = Some i" for k i
    using that assms by (simp add: sessions_ok_def table_inv_def)
  show ?thesis
    by (auto simp: voice_closeSession_def close_session_def sess_closeWithoutMetric_def remove_session_def is_current_def
        dest: key split: if_splits)
qed

abbreviation expire_sessions :: "int \<Rightarrow> Runtime \<Rightarrow> nat list \<Rightarrow> Runtime" where
  "expire_sessions later \<equiv>
     foldl (\<lambda>r sid. if later - seLastActivity (tbHeap r ! sid) \<ge> vrIdleTimeout (rtCfg r)
                    then voice_closeSession sid VoiceChatSessionCloseReasonIdleTimeout r else r)"

lemma expire_sessions_kept:
  "rtRegistrations (expire_sessions later r sids) = rtRegistrations r"
  "session_player (expire_sessions later r sids) i = session_player r i"
  by (induction sids arbitrary: r) simp_all

lemma expire_sessions_get:
  "sessions_ok r \<Longrightarrow> \<forall>sid \<in> set sids. sid < length (tbHeap r) \<Longrightarrow>
     gm_get (tbSessions (expire_sessions later r sids)) k = Some i \<longleftrightarrow>
       gm_get (tbSessions r) k = Some i \<and> (i \<in> set sids \<longrightarrow> later - seLastActivity (tbHeap r ! i) < vrIdleTimeout (rtCfg r))"
proof (induction sids arbitrary: r)
  case (Cons sid sids)
  let ?r = "if later - seLastActivity (tbHeap r ! sid) \<ge> vrIdleTimeout (rtCfg r)
    then voice_closeSession sid VoiceChatSessionCloseReasonIdleTimeout r else r"
  have "table_op r ?r" using Cons.prems op_close [of r sid] by simp
  then have "sessions_ok ?r" by (rule table_op_ok [OF Cons.prems(1)])
  moreover have "\<forall>sid \<in> set sids. sid < length (tbHeap ?r)" using Cons.prems by (simp add: voice_closeSession_def)
  ultimately show ?case using Cons.prems by (auto simp: Cons.IH voice_close_get)
qed simp

lemma expireLoop_get:
  fixes now later :: int
  assumes "runtime_inv r"
  defines "expired \<equiv> {u. \<exists>reg. gm_get (rtRegistrations r) u = Some reg \<and> now > rgExpiresAt reg}"
  shows "gm_get (tbSessions (expireLoop_tick now later r)) k = Some i \<longleftrightarrow>
      gm_get (tbSessions r) k = Some i \<and> session_player r i \<notin> expired \<and> later - seLastActivity (tbHeap r ! i) < vrIdleTimeout (rtCfg r)"
    and "gm_get (rtRegistrations (expireLoop_tick now later r)) u = (if u \<in> expired then None else gm_get (rtRegistrations r) u)"
    and "session_player (expireLoop_tick now later r) i = session_player r i"
proof -
  let ?r = "expireRegistrations now r"
  have tick: "expireLoop_tick now later r = expire_sessions later ?r (map snd (tbSessions ?r))"
    by (simp add: expireLoop_tick_def Let_def)
  note e = expireRegistrations_get [OF assms(1), of now, folded expired_def]
  have so: "sessions_ok ?r" by (rule inv_sessions_ok [OF expireRegistrations_inv [OF assms(1)]])
  then have "\<forall>sid \<in> set (map snd (tbSessions ?r)). sid < length (tbHeap ?r)"
    using table_ids(2) [of "vrMaxSessions (rtCfg ?r)" ?r] by (auto simp: sessions_ok_def dest: open_ids_less)
  note g = expire_sessions_get [OF so this]
  have "i \<in> set (map snd (tbSessions ?r))" if "gm_get (tbSessions ?r) k = Some i" using gm_get_in [OF that] by force
  then show "gm_get (tbSessions (expireLoop_tick now later r)) k = Some i \<longleftrightarrow>
      gm_get (tbSessions r) k = Some i \<and> session_player r i \<notin> expired \<and> later - seLastActivity (tbHeap r ! i) < vrIdleTimeout (rtCfg r)"
    unfolding tick g using e(1) [of k i] e(3) [of i] e(5) by auto
  show "gm_get (rtRegistrations (expireLoop_tick now later r)) u = (if u \<in> expired then None else gm_get (rtRegistrations r) u)"
    "session_player (expireLoop_tick now later r) i = session_player r i"
    unfolding tick expire_sessions_kept by (simp_all add: e)
qed

section \<open>What a request does\<close>

lemma closeSessions_frame [simp]:
  "rtRegistrations (closeSessionsForUUID u reason r) = rtRegistrations r" "rtCfg (closeSessionsForUUID u reason r) = rtCfg r"
  using frame_eq [of "closeSessionsForUUID u reason r" r] by (simp_all add: closeSessionsForUUID_def case_prod_beta)

lemma event_kept [simp]:
  "rtRegistrations (registrationEvent res r) = rtRegistrations r" "tbSessions (registrationEvent res r) = tbSessions r"
  "tbHeap (registrationEvent res r) = tbHeap r" "sessions_ok (registrationEvent res r) = sessions_ok r"
  by (simp_all add: registrationEvent_def)

definition unchanged :: "Runtime \<Rightarrow> Runtime \<Rightarrow> bool" where
  "unchanged r r' \<longleftrightarrow> rtRegistrations r' = rtRegistrations r \<and> tbSessions r' = tbSessions r"

lemma unchanged_event [simp]: "unchanged r (registrationEvent res r)"
  by (simp add: unchanged_def)

definition sessions_ended :: "UUID \<Rightarrow> Runtime \<Rightarrow> Runtime \<Rightarrow> bool" where
  \<comment> \<open>exactly the sessions of a player have left the table\<close>
  "sessions_ended u r r' \<longleftrightarrow> (\<forall>k i. gm_get (tbSessions r') k = Some i \<longleftrightarrow> gm_get (tbSessions r) k = Some i \<and> session_player r i \<noteq> u)"

definition lease_put :: "int \<Rightarrow> string \<Rightarrow> UUID \<Rightarrow> Runtime \<Rightarrow> Runtime \<Rightarrow> bool" where
  \<comment> \<open>a backend takes over a player, whoever had the player before, whose sessions end\<close>
  "lease_put now b u r r' \<longleftrightarrow>
     (\<exists>reg. rtRegistrations r' = gm_set (rtRegistrations r) u reg \<and> rgPlayerUUID reg = u \<and> rgBackendID reg = b \<and>
        rgExpiresAt reg = now + vrRegistrationTTL (rtCfg r) \<and>
        (case gm_get (rtRegistrations r) u of
           None \<Rightarrow> rgGeneration reg = 1 \<and> tbSessions r' = tbSessions r
         | Some old \<Rightarrow> rgGeneration reg = rgGeneration old + 1 \<and> sessions_ended u r r'))"

definition lease_refresh :: "int \<Rightarrow> registration \<Rightarrow> UUID \<Rightarrow> Runtime \<Rightarrow> Runtime \<Rightarrow> bool" where
  "lease_refresh now reg u r r' \<longleftrightarrow>
     rtRegistrations r' = gm_set (rtRegistrations r) u (reg\<lparr>rgExpiresAt := now + vrRegistrationTTL (rtCfg r)\<rparr>) \<and>
     tbSessions r' = tbSessions r"

definition lease_delete :: "UUID \<Rightarrow> Runtime \<Rightarrow> Runtime \<Rightarrow> bool" where
  "lease_delete u r r' \<longleftrightarrow> rtRegistrations r' = gm_del (rtRegistrations r) u \<and> sessions_ended u r r'"

lemma closeSessions_ended:
  "sessions_ok r1 \<Longrightarrow> tbSessions r1 = tbSessions r \<Longrightarrow> tbHeap r1 = tbHeap r \<Longrightarrow> sessions_ended u r (closeSessionsForUUID u reason r1)"
  by (simp add: sessions_ended_def closeSessions_get)

lemma handlePut_changes:
  assumes "sessions_ok r" and "handlePutRegistration j rand now body b u r = (resp, r')"
  shows "fst resp \<noteq> 200 \<and> unchanged r r' \<or> fst resp = 200 \<and> lease_put now b u r r'"
proof -
  have ended: "sessions_ended u r (closeSessionsForUUID u reason (registrationEvent res (record_metric f (r\<lparr>rtRegistrations := regs\<rparr>))))"
    for reason res f regs using assms(1) by (intro closeSessions_ended) simp_all
  then have "sessions_ended u r (record_metric VoiceChatBackendSwitch
      (closeSessionsForUUID u reason (registrationEvent res (record_metric f (r\<lparr>rtRegistrations := regs\<rparr>)))))" for reason res f regs
    by (simp add: sessions_ended_def)
  with ended assms(2) show ?thesis
    by (auto simp: handlePutRegistration_def lease_put_def writeRegistrationResponse_def Let_def split: sum.splits if_splits option.splits)
qed

lemma handleRefresh_changes:
  assumes "handleRefreshRegistration j now body b u r = (resp, r')"
  shows "unchanged r r' \<or> (\<exists>req reg. lease_request j body = Some req \<and> lease_held r b u req = Some reg \<and> lease_refresh now reg u r r')"
  using assms by (auto simp: handleRefreshRegistration_def lease_refresh_def Let_def split: option.splits)

lemma handleDelete_changes:
  assumes "sessions_ok r" and "handleDeleteRegistration j body b u r = (resp, r')"
  shows "unchanged r r' \<or> (\<exists>req reg. lease_request j body = Some req \<and> lease_held r b u req = Some reg \<and> lease_delete u r r')"
proof -
  have "sessions_ended u r (registrationEvent res' (closeSessionsForUUID u reason (record_metric f (r\<lparr>rtRegistrations := regs\<rparr>))))"
    for reason res' f regs
    using closeSessions_ended [of "record_metric f (r\<lparr>rtRegistrations := regs\<rparr>)" r u reason] assms(1) by (simp add: sessions_ended_def)
  with assms(2) show ?thesis
    by (auto simp: handleDeleteRegistration_def lease_delete_def Let_def split: option.splits)
qed

section \<open>Runs\<close>

datatype voice_event =
    VoClient "nat \<Rightarrow> bytes \<Rightarrow> error option" int bool udp_read
  | VoBackend "bytes \<Rightarrow> error option" int nat "bytes result"
  | VoTick int int
  | VoRequest json_decoder "bytes result" int registration_request
  | VoClose

fun run_voice :: "udp_env \<Rightarrow> voice_event \<Rightarrow> Runtime \<Rightarrow> Runtime" where
  "run_voice e (VoClient write now ended ev) r = fst (snd (serveUDP_step e write now ended ev r))"
| "run_voice e (VoBackend write now sid ev) r = fst (snd (voice_readBackend_step write now sid ev r))"
| "run_voice e (VoTick now later) r = expireLoop_tick now later r"
| "run_voice e (VoRequest j rand now req) r = snd (handleRegistration j rand now req r)"
| "run_voice e VoClose r = Runtime_Close r"

fun voice_event_ok :: "voice_event \<Rightarrow> Runtime \<Rightarrow> bool" where
  "voice_event_ok (VoBackend write now sid ev) r = (sid < length (tbHeap r))"
| "voice_event_ok _ r = True"

inductive voice_reachable :: "udp_env \<Rightarrow> voice_Config \<Rightarrow> Runtime \<Rightarrow> bool" for e cfg where
  voice_started: "NewRuntime e ord cfg metrics = Inr r \<Longrightarrow>
    (case metrics of None \<Rightarrow> True | Some m \<Rightarrow> gauge voicechatSessions m = 0 \<and> gauge voicechatRegistrations m = 0) \<Longrightarrow> voice_reachable e cfg r"
| voice_handled: "voice_reachable e cfg r \<Longrightarrow> voice_event_ok ev r \<Longrightarrow> voice_reachable e cfg (run_voice e ev r)"

lemma NewRuntime_inv:
  assumes "NewRuntime e ord cfg metrics = Inr r"
    and "case metrics of None \<Rightarrow> True | Some m \<Rightarrow> gauge voicechatSessions m = 0 \<and> gauge voicechatRegistrations m = 0"
  shows "runtime_inv r \<and> rtCfg r = cfg"
proof -
  obtain backends tokens where b: "NewRuntime_backends e (ord (vrBackends cfg)) [] [] = Inr (backends, tokens)"
    and r: "r = \<lparr>tbSessions = [], tbHeap = [], tbClosed = False, tbMetrics = metrics, rtCfg = cfg,
      rtRegistrations = [], rtBackends = backends, rtTokens = tokens\<rparr>"
    and pos: "0 < vrMaxSessions cfg" "0 < vrMaxRegistrations cfg"
    using assms(1) by (auto simp: NewRuntime_def split: if_splits sum.splits option.splits)
  have "list_all (\<lambda>t. gm_get backends (btBackendID t) \<noteq> None) tokens" using NewRuntime_backends_ids [OF b] by simp
  then show ?thesis using assms(2) pos
    by (auto simp: r runtime_inv_def sessions_ok_def table_inv_def settled_def gauge_exact_def open_ids_def heap_ok_def regs_fine_def
        split: option.splits)
qed

lemma frame_sessionFor [simp]: "frame (snd (sessionFor e now u c reg r)) = frame r"
  by (auto simp: sessionFor_def sessionFor_create_def Let_def split: option.split dial_result.split)

lemma cfg_simps [simp]:
  "rtCfg (voice_packet d res n r) = rtCfg r" "rtCfg (touch sid now r) = rtCfg r" "rtCfg (registrationEvent res r) = rtCfg r"
  "rtCfg (close_all onclose reason sids r) = rtCfg r" "rtCfg (snd (sessionFor e now u c reg r)) = rtCfg r"
  "rtCfg (snd (lookupRegistration now u r)) = rtCfg r"
  using frame_eq [OF frame_sessionFor] frame_eq [OF frame_close_all] frame_eq [of "touch sid now r" r]
  by (auto simp: voice_packet_def registrationEvent_def lookupRegistration_def Let_def split: option.split)

lemma forwardClientPacket_cfg [simp]: "rtCfg (fst (snd (forwardClientPacket e write now c p r))) = rtCfg r"
proof (cases "ParseClientPacket p")
  case (Inr packet)
  show ?thesis
    using cfg_simps(5) [of e now "cpPlayerUUID packet" c] cfg_simps(6) [of now "cpPlayerUUID packet" r]
    by (auto simp: forwardClientPacket_def Inr Let_def split: sum.splits option.splits prod.splits dest!: arg_cong [of _ _ "\<lambda>x. rtCfg (snd x)"])
qed (simp add: forwardClientPacket_def)

lemma expire_cfg [simp]: "rtCfg (expireLoop_tick now later r) = rtCfg r"
proof -
  have "rtCfg (expire_sessions later r sids) = rtCfg r" for r sids by (induction sids arbitrary: r) simp_all
  moreover have "rtCfg (foldl (\<lambda>r uuid. closeSessionsForUUID uuid reason r) r us) = rtCfg r" for reason r us
    using frame_eq [OF close_uuids_kept(3)] by blast
  ultimately show ?thesis by (simp add: expireLoop_tick_def expireRegistrations_def Let_def)
qed

lemma run_voice_cfg: "rtCfg (run_voice e ev r) = rtCfg r"
proof (cases ev)
  case (VoRequest j rand now req)
  then show ?thesis
    by (auto simp: handleRegistration_def handlePutRegistration_def handleRefreshRegistration_def handleDeleteRegistration_def Let_def
        split: sum.split option.split)
qed (auto simp: serveUDP_step_def voice_readBackend_step_def Runtime_Close_def Let_def case_prod_beta split: udp_read.split sum.split option.split)

lemma run_voice_inv: "runtime_inv r \<Longrightarrow> voice_event_ok ev r \<Longrightarrow> runtime_inv (run_voice e ev r)"
  by (cases ev) (simp_all add: serveUDP_inv voice_readBackend_inv expireLoop_inv handleRegistration_inv Runtime_Close_inv)

lemma voice_reachable_inv: "voice_reachable e cfg r \<Longrightarrow> runtime_inv r \<and> rtCfg r = cfg"
  by (induction rule: voice_reachable.induct) (use NewRuntime_inv run_voice_inv run_voice_cfg in auto)

section \<open>A sample run\<close>

definition sample_uuid :: UUID where
  "sample_uuid = [0x0a, 0, 0, 0, 0, 0, 0, 0, 0, 0, 0, 0, 0, 0, 0, 1]"

definition sample_voice_cfg :: voice_Config where
  "sample_voice_cfg = \<lparr>vrListen = '':24454'', vrRegistrationListen = '':8081'', vrRegistrationTTL = 100, vrRequestTimeout = 1, vrMaxRegistrations = 2, vrIdleTimeout = 1000,
     vrBackendDialTimeout = 1, vrMaxSessions = 2, vrMaxPacketSize = 100,
     vrBackends = [(''lobby'', \<lparr>bcUDP = ''lobby:24454'', bcToken = ''t''\<rparr>)]\<rparr>"

definition sample_runtime :: Runtime where
  "sample_runtime = \<lparr>tbSessions = [], tbHeap = [], tbClosed = False, tbMetrics = Some (NewRecorder True), rtCfg = sample_voice_cfg,
     rtRegistrations = [], rtBackends = [(''lobby'', \<lparr>vbId = ''lobby'', vbAddr = sample_addr 1\<rparr>)],
     rtTokens = [\<lparr>btBackendID = ''lobby'', btToken = ''t''\<rparr>]\<rparr>"

definition sample_decoder :: json_decoder where
  "sample_decoder = \<lparr>jdPut = (\<lambda>_. Inr (\<lparr>puOwnerID = ''server''\<rparr>, [])),
     jdLease = (\<lambda>_. Inr (\<lparr>leOwnerID = ''server'', leLeaseID = ''01''\<rparr>, []))\<rparr>"

definition sample_request :: "string \<Rightarrow> registration_request" where
  "sample_request verb = \<lparr>rqtMethod = verb, rqtAuthorization = ''Bearer t'',
     rqtPath = ''/v1/voicechat/registrations/0a000000-0000-0000-0000-000000000001'', rqtBody = []\<rparr>"

definition sample_registration :: registration where
  "sample_registration = \<lparr>rgPlayerUUID = sample_uuid, rgBackendID = ''lobby'', rgOwnerID = ''server'', rgLeaseID = ''01'',
     rgGeneration = 1, rgExpiresAt = 100\<rparr>"

definition sample_registered :: Runtime where
  "sample_registered = run_voice sample_udp_env (VoRequest sample_decoder (Inr [1]) 0 (sample_request ''PUT'')) sample_runtime"

definition sample_talking :: Runtime where
  "sample_talking = run_voice sample_udp_env (VoClient (\<lambda>_ _. None) 50 False
     (ReadPacket_from (sample_addr 7) (MagicByte # sample_uuid @ [1, 42]))) sample_registered"

lemma sample_NewRuntime: "NewRuntime sample_udp_env (\<lambda>bs. bs) sample_voice_cfg (Some (NewRecorder True)) = Inr sample_runtime"
proof -
  have "voice_validateBackendAddr (Some (sample_addr 1)) = None"
    by (simp add: voice_validateBackendAddr_def sample_addr_def IP_IsUnspecified_def IP_IsMulticast_def IP_Equal_def To4_def
        v4InV6Prefix_def IPv4bcast_def)
  then show ?thesis by (simp add: NewRuntime_def sample_voice_cfg_def sample_udp_env_def sample_runtime_def)
qed

lemma sample_voice_reachable:
  "voice_reachable sample_udp_env sample_voice_cfg sample_runtime"
  "voice_reachable sample_udp_env sample_voice_cfg sample_registered"
  "voice_reachable sample_udp_env sample_voice_cfg sample_talking"
proof -
  show 1: "voice_reachable sample_udp_env sample_voice_cfg sample_runtime" by (rule voice_started [OF sample_NewRuntime]) simp
  show 2: "voice_reachable sample_udp_env sample_voice_cfg sample_registered"
    unfolding sample_registered_def by (rule voice_handled [OF 1]) simp
  show "voice_reachable sample_udp_env sample_voice_cfg sample_talking"
    unfolding sample_talking_def by (rule voice_handled [OF 2]) simp
qed

lemma sample_path: "parseRegistrationPath ''/v1/voicechat/registrations/0a000000-0000-0000-0000-000000000001'' = Some (sample_uuid, '''')"
proof -
  have u: "UUID_String sample_uuid = ''0a000000-0000-0000-0000-000000000001''"
    by (simp add: UUID_String_def sample_uuid_def hex_digit_def char_of_def bit_0)
  have "ParseUUID ''0a000000-0000-0000-0000-000000000001'' = Inr sample_uuid"
    using ParseUUID_String [of sample_uuid] u by (simp add: sample_uuid_def uuidSize_def)
  with u show ?thesis
    by (simp add: parseRegistrationPath_def HasPrefix_def TrimPrefix_def registrations_prefix_def Let_def)
qed

lemma sample_trim: "TrimSpace ''t'' = ''t''" "TrimSpace ''server'' = ''server''" "TrimSpace ''01'' = ''01''"
  by (rule TrimSpace_plain; code_simp)+

lemma sample_authenticate: "authenticate (rtTokens sample_runtime) ''Bearer t'' = Some ''lobby''"
  by (simp add: authenticate_def sample_runtime_def HasPrefix_def TrimPrefix_def sample_trim Let_def)

lemma sample_handled:
  "snd (handleRegistration sample_decoder (Inr [1]) 0 (sample_request ''PUT'') sample_runtime) = sample_registered"
  "fst (handleRegistration sample_decoder (Inr [1]) 0 (sample_request ''PUT'') sample_runtime) =
     (200, RegistrationBody \<lparr>rrBackendID = ''lobby'', rrLeaseID = ''01'', rrExpiresAt = 100\<rparr>)"
  "rtRegistrations sample_registered = [(sample_uuid, sample_registration)]" "tbSessions sample_registered = []"
  "rtBackends sample_registered = rtBackends sample_runtime" "tbHeap sample_registered = []" "\<not> tbClosed sample_registered"
proof -
  have h: "hex_digit 0 = CHR ''0''" "hex_digit (Suc 0) = CHR ''1''" by (simp_all add: hex_digit_def char_of_def bit_0)
  note d = sample_registered_def handleRegistration_def sample_request_def sample_authenticate sample_path handlePutRegistration_def
    decodeJSON_def sample_decoder_def sample_trim newLeaseID_def h
  have r: "rtRegistrations sample_runtime = []" "\<not> tbClosed sample_runtime" "rtCfg sample_runtime = sample_voice_cfg"
    "vrMaxRegistrations sample_voice_cfg = 2" "vrRegistrationTTL sample_voice_cfg = 100" "tbSessions sample_runtime = []"
    "tbHeap sample_runtime = []"
    by (simp_all add: sample_runtime_def sample_voice_cfg_def)
  show "snd (handleRegistration sample_decoder (Inr [1]) 0 (sample_request ''PUT'') sample_runtime) = sample_registered"
    by (simp add: sample_registered_def)
  show "fst (handleRegistration sample_decoder (Inr [1]) 0 (sample_request ''PUT'') sample_runtime) =
     (200, RegistrationBody \<lparr>rrBackendID = ''lobby'', rrLeaseID = ''01'', rrExpiresAt = 100\<rparr>)"
    by (simp add: d r writeRegistrationResponse_def)
  show "rtRegistrations sample_registered = [(sample_uuid, sample_registration)]" "tbSessions sample_registered = []"
    "rtBackends sample_registered = rtBackends sample_runtime" "tbHeap sample_registered = []" "\<not> tbClosed sample_registered"
    by (simp_all add: d r sample_registration_def registrationEvent_def Let_def)
qed

lemma sample_packet:
  "ParseClientPacket (MagicByte # sample_uuid @ [1, 42]) = Inr \<lparr>cpPlayerUUID = sample_uuid, cpEncryptedPayload = [42]\<rparr>"
proof -
  have "voice_readVarInt [1, 42] = Inr (1, 1)" by (simp add: voice_readVarInt_agrees avail_readVarInt_def group_def)
  then show ?thesis by (simp add: ParseClientPacket_def sample_uuid_def uuidSize_def MagicByte_def Let_def)
qed

definition sample_dynamicSession :: dynamicSession where
  "sample_dynamicSession = \<lparr>seKey = dynamicSessionKey sample_uuid (sample_addr 7), seClientAddr = sample_addr 7, seLastActivity = 50,
     seClosed = False, dsPlayerUUID = sample_uuid, dsBackendID = ''lobby'', dsLeaseID = ''01'', dsGeneration = 1\<rparr>"

lemma sample_session_of_player:
  "tbSessions sample_talking = [(dynamicSessionKey sample_uuid (sample_addr 7), 0)]"
  "rtRegistrations sample_talking = [(sample_uuid, sample_registration)]"
  "tbHeap sample_talking = [sample_dynamicSession]"
  "\<not> tbClosed sample_talking"
  "\<exists>m. tbMetrics sample_talking = Some m \<and> recEnabled m"
proof -
  have "rtCfg sample_registered = sample_voice_cfg" using voice_reachable_inv [OF sample_voice_reachable(2)] by simp
  moreover have "gm_get (rtBackends sample_runtime) ''lobby'' = Some \<lparr>vbId = ''lobby'', vbAddr = sample_addr 1\<rparr>" by (simp add: sample_runtime_def)
  moreover have "length (MagicByte # sample_uuid @ [1, 42]) = 19" by (simp add: sample_uuid_def)
  moreover have "take 101 (MagicByte # sample_uuid @ [1, 42]) = MagicByte # sample_uuid @ [1, 42]" by (simp add: sample_uuid_def)
  moreover have "\<exists>m. tbMetrics sample_registered = Some m \<and> recEnabled m"
    by (simp add: sample_registered_def handleRegistration_def handlePutRegistration_def sample_request_def sample_authenticate sample_path
        decodeJSON_def sample_decoder_def sample_trim newLeaseID_def Let_def registrationEvent_def)
      (simp add: sample_runtime_def sample_voice_cfg_def record_metric_def registrationEvent_def)
  ultimately show "tbSessions sample_talking = [(dynamicSessionKey sample_uuid (sample_addr 7), 0)]"
    "rtRegistrations sample_talking = [(sample_uuid, sample_registration)]"
    "tbHeap sample_talking = [sample_dynamicSession]" "\<not> tbClosed sample_talking"
    "\<exists>m. tbMetrics sample_talking = Some m \<and> recEnabled m"
    by (auto simp: sample_talking_def serveUDP_step_def voice_buffer_def forwardClientPacket_def sample_packet lookupRegistration_def
        sample_handled sample_registration_def sessionFor_def sessionFor_create_def sample_voice_cfg_def sample_udp_env_def
        insert_session_def voice_packet_def touch_def sample_dynamicSession_def Let_def)
qed

section \<open>Properties\<close>



text \<open>C6: who is forwarded. A client's datagram is either dropped, with an error and nothing sent, or forwarded unchanged, once, over an
  open session of the player it names whose backend, lease and generation are those of the player's registration, which has not
  expired; the registration's backend is a configured one.\<close>

theorem voice_forward_authorised:
  assumes "voice_reachable e cfg r" and "forwardClientPacket e write now c p r = (err, r', sent)"
  shows "sent = [] \<and> err \<noteq> None \<or>
    (\<exists>packet reg sid. sent = [(sid, p)] \<and> err = None \<and> ParseClientPacket p = Inr packet \<and>
       gm_get (rtRegistrations r) (cpPlayerUUID packet) = Some reg \<and> now \<le> rgExpiresAt reg \<and>
       gm_get (rtBackends r) (rgBackendID reg) \<noteq> None \<and>
       gm_get (tbSessions r') (dynamicSessionKey (cpPlayerUUID packet) c) = Some sid \<and> \<not> seClosed (tbHeap r' ! sid) \<and>
       session_player r' sid = cpPlayerUUID packet \<and> session_matches (tbHeap r' ! sid) reg)"
proof (cases "ParseClientPacket p")
  case (Inl e')
  with assms(2) show ?thesis by (auto simp: forwardClientPacket_def)
next
  case (Inr packet)
  let ?u = "cpPlayerUUID packet"
  have i: "runtime_inv r" using voice_reachable_inv [OF assms(1)] by simp
  note p = Inr
  show ?thesis
  proof (cases "gm_get (rtRegistrations r) ?u")
    case None
    with assms(2) p show ?thesis by (auto simp: forwardClientPacket_def lookupRegistration_def)
  next
    case (Some reg)
    show ?thesis
    proof (cases "now > rgExpiresAt reg")
      case True
      with assms(2) p Some show ?thesis by (auto simp: forwardClientPacket_def lookupRegistration_def Let_def)
    next
      case False
      then have l: "lookupRegistration now ?u r = (Inr reg, r)" using Some by (simp add: lookupRegistration_def)
      obtain y r2 where s: "sessionFor e now ?u c reg r = (y, r2)" by (cases "sessionFor e now ?u c reg r")
      show ?thesis
      proof (cases y)
        case (Inl e')
        with assms(2) p l s show ?thesis by (auto simp: forwardClientPacket_def split: if_splits)
      next
        case (Inr z)
        obtain sid created where z: "z = (sid, created)" by (cases z)
        note ok = inv_sessions_ok [OF i] ParseClientPacket_uuid [OF p]
        have h: "heap_ok r" using i by (simp add: runtime_inv_def)
        have res: "gm_get (tbSessions r2) (dynamicSessionKey ?u c) = Some sid \<and> sid < length (tbHeap r2) \<and>
            dsPlayerUUID (tbHeap r2 ! sid) = ?u \<and> session_matches (tbHeap r2 ! sid) reg"
          using sessionFor_result [OF ok(1) h ok(2), of e now c reg sid created r2] s Inr z by simp
        have "sessions_ok r2" using table_op_ok [OF ok(1) sessionFor_op [OF ok, of e now c reg]] s by simp
        with res have "\<not> seClosed (tbHeap r2 ! sid)" by (auto simp: sessions_ok_def table_inv_def open_ids_def)
        moreover have "gm_get (rtBackends r) (rgBackendID reg) \<noteq> None" using i Some by (simp add: runtime_inv_def regs_fine_def)
        ultimately show ?thesis
        proof (cases "write sid p")
          case None
          have "err = None" "sent = [(sid, p)]" "r' = voice_packet VoiceChatPacketDirectionClientToBackend VoiceChatPacketResultForwarded
              (length p) (touch sid now r2)" using assms(2) by (simp_all add: forwardClientPacket_def p l s Inr z None Let_def)
          with res p \<open>gm_get (rtRegistrations r) _ = _\<close> False \<open>\<not> seClosed (tbHeap r2 ! sid)\<close>
            \<open>gm_get (rtBackends r) _ \<noteq> None\<close> show ?thesis
            by (simp add: voice_packet_def update_same touch_def session_matches_def)
        next
          case (Some e')
          have "err = Some e'" "sent = []" using assms(2) by (simp_all add: forwardClientPacket_def p l s Inr z Some Let_def)
          then show ?thesis by simp
        qed
      qed
    qed
  qed
qed

theorem voice_forward_authorised_witness:
  "\<exists>r' sid. forwardClientPacket sample_udp_env (\<lambda>_ _. None) 60 (sample_addr 7) (MagicByte # sample_uuid @ [1, 42]) sample_talking =
     (None, r', [(sid, MagicByte # sample_uuid @ [1, 42])]) \<and> session_player r' sid = sample_uuid \<and>
     session_matches (tbHeap r' ! sid) sample_registration"
proof -
  let ?f = "forwardClientPacket sample_udp_env (\<lambda>_ _. None) 60 (sample_addr 7) (MagicByte # sample_uuid @ [1, 42]) sample_talking"
  obtain err r' sent where f: "?f = (err, r', sent)" by (cases ?f)
  then have "err = None"
    by (auto simp: forwardClientPacket_def sample_packet lookupRegistration_def sample_session_of_player sample_registration_def
        sessionFor_def session_matches_def sample_dynamicSession_def Let_def)
  with voice_forward_authorised [OF sample_voice_reachable(3) f]
  show ?thesis using f by (auto simp: sample_packet sample_session_of_player)
qed

text \<open>C4: leases. A request without the token of a backend is refused and changes nothing. Of an authenticated backend's requests, a
  \<open>PUT\<close> registers the player of the path for that backend, for the time to live and under the next generation, and ends the sessions of
  the registration it replaces; a refresh extends and a \<open>DELETE\<close> removes a registration only when it is that backend's own and the
  request names its owner and its lease. Nothing else changes registrations or sessions, and no request touches another player's.\<close>

theorem registration_leases:
  assumes "voice_reachable e cfg r" and "handleRegistration j rand now req r = (resp, r')"
  shows "case authenticate (rtTokens r) (rqtAuthorization req) of
      None \<Rightarrow> fst resp = 401 \<and> unchanged r r'
    | Some b \<Rightarrow> unchanged r r' \<or>
        (\<exists>u action. parseRegistrationPath (rqtPath req) = Some (u, action) \<and>
          (rqtMethod req = ''PUT'' \<and> lease_put now b u r r' \<or>
           (\<exists>lease reg. lease_request j (rqtBody req) = Some lease \<and> gm_get (rtRegistrations r) u = Some reg \<and>
             rgBackendID reg = b \<and> rgOwnerID reg = leOwnerID lease \<and> rgLeaseID reg = leLeaseID lease \<and>
             (rqtMethod req = ''POST'' \<and> lease_refresh now reg u r r' \<or> rqtMethod req = ''DELETE'' \<and> lease_delete u r r'))))"
proof (cases "authenticate (rtTokens r) (rqtAuthorization req)")
  case None
  with assms(2) show ?thesis by (auto simp: handleRegistration_def)
next
  case (Some b)
  have ok: "sessions_ok r" using voice_reachable_inv [OF assms(1)] inv_sessions_ok by blast
  show ?thesis
  proof (cases "parseRegistrationPath (rqtPath req)")
    case None
    with assms(2) Some show ?thesis by (auto simp: handleRegistration_def)
  next
    case (Some ua)
    obtain u action where ua: "ua = (u, action)" by (cases ua)
    note changes = handlePut_changes [OF ok, of j rand now "rqtBody req" b u resp r'] handleRefresh_changes [of j now "rqtBody req" b u r resp r']
      handleDelete_changes [OF ok, of j "rqtBody req" b u resp r']
    show ?thesis using assms(2) changes \<open>authenticate _ _ = Some b\<close> Some ua
      by (auto simp: handleRegistration_def lease_held_some split: if_splits)
  qed
qed

theorem registration_leases_witness:
  "map (\<lambda>(u, reg). (u, rgBackendID reg)) (rtRegistrations sample_registered) = [(sample_uuid, ''lobby'')] \<and>
   lease_put 0 ''lobby'' sample_uuid sample_runtime sample_registered"
proof -
  have "handleRegistration sample_decoder (Inr [1]) 0 (sample_request ''PUT'') sample_runtime =
      ((200, RegistrationBody \<lparr>rrBackendID = ''lobby'', rrLeaseID = ''01'', rrExpiresAt = 100\<rparr>), sample_registered)"
    using sample_handled(1,2) by (simp add: prod_eq_iff)
  from registration_leases [OF sample_voice_reachable(1) this]
  show ?thesis
    using sample_authenticate
    by (auto simp: sample_request_def sample_path unchanged_def sample_handled sample_registration_def, auto simp: sample_runtime_def)
qed



text \<open>C38: sessions can outlive their registration. When the first to notice that a registration has expired is a datagram of its player, the
  registration is removed without ending the player's sessions, and the expiry loop, which ends the sessions of the registrations
  it removes, never ends these: the backend keeps sending to the client over them until they are idle. Had the loop come first, they
  would have ended.\<close>

theorem expired_sessions_survive:
  assumes "voice_reachable e cfg r" and "ParseClientPacket p = Inr packet"
    and "gm_get (rtRegistrations r) (cpPlayerUUID packet) = Some reg" and "now > rgExpiresAt reg"
    and "gm_get (tbSessions r) k = Some sid" and "session_player r sid = cpPlayerUUID packet"
    and "int (length data) \<le> vrMaxPacketSize cfg"
  shows "gm_get (tbSessions (expireRegistrations now r)) k = None \<and>
    (case forwardClientPacket e write now c p r of (err, r1, sent) \<Rightarrow>
       sent = [] \<and> gm_get (rtRegistrations r1) (cpPlayerUUID packet) = None \<and>
       (\<forall>t. gm_get (tbSessions (expireRegistrations t r1)) k = Some sid \<and>
          snd (snd (voice_readBackend_step (\<lambda>_. None) t sid (Inr data) (expireRegistrations t r1))) =
            [(seClientAddr (tbHeap (expireRegistrations t r1) ! sid), data)]))"
proof -
  have i: "runtime_inv r" and cfg: "rtCfg r = cfg" using voice_reachable_inv [OF assms(1)] by auto
  obtain err r1 sent where f: "forwardClientPacket e write now c p r = (err, r1, sent)" by (cases "forwardClientPacket e write now c p r")
  then have r1: "sent = []" "gm_get (rtRegistrations r1) (cpPlayerUUID packet) = None" "tbSessions r1 = tbSessions r" "tbHeap r1 = tbHeap r"
    using assms(2-4) by (auto simp: forwardClientPacket_def lookupRegistration_def voice_packet_def Let_def)
  have i1: "runtime_inv r1" using forwardClientPacket_inv [OF i, of e "write" now c p] by (simp add: f)
  have s: "gm_get (tbSessions (expireRegistrations t r1)) k = Some sid" for t
    using expireRegistrations_get(1) [OF i1, of t k sid] r1 assms(5,6) by simp
  have "snd (snd (voice_readBackend_step (\<lambda>_. None) t sid (Inr data) (expireRegistrations t r1))) =
      [(seClientAddr (tbHeap (expireRegistrations t r1) ! sid), data)]" for t
  proof -
    let ?r = "expireRegistrations t r1"
    have "table_inv (vrMaxSessions (rtCfg ?r)) ?r"
      using expireRegistrations_inv [OF i1] by (simp add: runtime_inv_def sessions_ok_def)
    then have "\<not> tbClosed ?r" "seKey (tbHeap ?r ! sid) = k" using s [of t] by (auto simp: table_inv_def)
    moreover have "rtCfg ?r = cfg" using expireRegistrations_get(5) [OF i1] forwardClientPacket_cfg [of e "write" now c p r] by (simp add: f cfg)
    ultimately show ?thesis using s [of t] assms(7)
      by (simp add: voice_readBackend_step_def voice_buffer_def voice_sessionIsCurrent_def is_current_def Let_def)
  qed
  moreover have "gm_get (tbSessions (expireRegistrations now r)) k = None"
  proof (cases "gm_get (tbSessions (expireRegistrations now r)) k")
    case (Some a)
    then show ?thesis using expireRegistrations_get(1) [OF i, of now k a] assms(3-6) by auto
  qed
  ultimately show ?thesis using r1(1,2) s by (simp add: f)
qed

theorem expired_sessions_survive_witness:
  "case forwardClientPacket sample_udp_env (\<lambda>_ _. None) 101 (sample_addr 7) (MagicByte # sample_uuid @ [1, 42]) sample_talking of
     (err, r1, sent) \<Rightarrow> gm_get (rtRegistrations r1) sample_uuid = None \<and>
       gm_get (tbSessions (expireRegistrations 500 r1)) (dynamicSessionKey sample_uuid (sample_addr 7)) = Some 0"
  using expired_sessions_survive [OF sample_voice_reachable(3) sample_packet, of sample_registration 101
      "dynamicSessionKey sample_uuid (sample_addr 7)" 0 "[]" "\<lambda>_ _. None" "sample_addr 7"]
  by (auto simp: sample_session_of_player sample_dynamicSession_def sample_registration_def sample_voice_cfg_def)

end
