(* ===== verification/Watch.thy ===== *)
theory Watch
  imports Kubernetes
begin

text \<open>
  Services as the API server has them, \<open>internal/discovery/kubernetes/client.go\<close>, and the controller
  that watches them, \<open>watch_controller.go\<close>. The API client is an argument: what a list answers, how
  setting up a watch turns out, and what the watch then delivers. A run of the controller is a function of
  these; when the deliveries end before the controller stops it is still running, the answer \<open>None\<close>. The
  sink is an arbitrary state with an operation for a result.
\<close>

section \<open>Services\<close>

text \<open>The fields of a Service that the code reads; its type is a string.\<close>

record Service =
  svName :: string
  svNamespace :: string
  svType :: string
  svAnnotations :: "(string, string) gomap"
  svPorts :: "(string \<times> int) list"

definition ServiceTypeExternalName :: string where
  "ServiceTypeExternalName = ''ExternalName''"

definition cloneMap :: "(string, string) gomap \<Rightarrow> (string, string) gomap" where
  "cloneMap m = map (\<lambda>(k, v). (k, v)) m"

definition ToServiceInput :: "Service option \<Rightarrow> ServiceInput option" where
  \<comment> \<open>a nil pointer is \<open>None\<close>\<close>
  "ToServiceInput svc =
     (case svc of
        None \<Rightarrow> None
      | Some s \<Rightarrow>
          if svType s = ServiceTypeExternalName then None
          else Some \<lparr>siName = svName s, siNamespace = svNamespace s, siAnnotations = cloneMap (svAnnotations s),
                     siPorts = map (\<lambda>(name, port). \<lparr>svpName = name, svpPort = port\<rparr>) (svPorts s)\<rparr>)"

fun ListServices_loop :: "Service list \<Rightarrow> ServiceInput list \<Rightarrow> ServiceInput list" where
  "ListServices_loop [] res = res"
| "ListServices_loop (svc # items) res =
     (case ToServiceInput (Some svc) of
        Some input \<Rightarrow> ListServices_loop items (res @ [input])
      | None \<Rightarrow> ListServices_loop items res)"

definition ListServices :: "Service list result \<Rightarrow> ServiceInput list result" where
  \<comment> \<open>the argument is the answer of the API server for the namespace\<close>
  "ListServices answer = (case answer of Inl err \<Rightarrow> Inl err | Inr items \<Rightarrow> Inr (ListServices_loop items []))"

section \<open>The controller\<close>

datatype 's RouteSink = ResultSink "k8s_Result \<Rightarrow> 's \<Rightarrow> 's" | RouteOnlySink "DiscoveredRoute list \<Rightarrow> 's \<Rightarrow> 's"

record 's ServiceWatchController =
  wcNamespace :: string
  wcSink :: "'s RouteSink"
  wcAnnotationPrefix :: string

definition NewServiceWatchController ::
    "bool \<Rightarrow> string \<Rightarrow> 's RouteSink option \<Rightarrow> string \<Rightarrow> 's ServiceWatchController result" where
  \<comment> \<open>the first argument tells whether there is a client\<close>
  "NewServiceWatchController client namespace sink annotationPrefix =
     (if \<not> client then Inl [Msg ''kubernetes client is nil'']
      else (case validateNamespace namespace of
              Some err \<Rightarrow> Inl (Msg ''watch namespace'' # err)
            | None \<Rightarrow>
                (case sink of
                   None \<Rightarrow> Inl [Msg ''route sink is nil'']
                 | Some sk \<Rightarrow> Inr \<lparr>wcNamespace = namespace, wcSink = sk, wcAnnotationPrefix = annotationPrefix\<rparr>)))"

definition serviceKey :: "string \<Rightarrow> string \<Rightarrow> string" where
  "serviceKey namespace name = namespace @ ''/'' @ name"

fun initialServices_loop :: "Service list \<Rightarrow> (string, ServiceInput) gomap \<Rightarrow> (string, ServiceInput) gomap" where
  "initialServices_loop [] services = services"
| "initialServices_loop (svc # items) services =
     initialServices_loop items
       (case ToServiceInput (Some svc) of
          Some input \<Rightarrow> gm_set services (serviceKey (svNamespace svc) (svName svc)) input
        | None \<Rightarrow> services)"

definition initialServices :: "Service list result \<Rightarrow> (string, ServiceInput) gomap result" where
  \<comment> \<open>the resource version is only handed on to the watch\<close>
  "initialServices answer =
     (case answer of Inl err \<Rightarrow> Inl (ErrServiceListFailed # err) | Inr items \<Rightarrow> Inr (initialServices_loop items []))"

datatype watch_type = Added | Modified | Deleted | Bookmark | WatchError

record watch_event =
  weType :: watch_type
  weObject :: "Service option" \<comment> \<open>\<open>None\<close> when the object is not a Service\<close>

definition applyWatchEvent :: "(string, ServiceInput) gomap \<Rightarrow> watch_event \<Rightarrow> (string, ServiceInput) gomap result" where
  "applyWatchEvent services event =
     (if weType event = WatchError then Inl [ErrServiceWatchError]
      else (case weObject event of
              None \<Rightarrow> Inr services
            | Some svc \<Rightarrow>
                (let key = serviceKey (svNamespace svc) (svName svc) in
                 case weType event of
                   Deleted \<Rightarrow> Inr (gm_del services key)
                 | Bookmark \<Rightarrow> Inr services
                 | _ \<Rightarrow> (case ToServiceInput (Some svc) of
                          Some input \<Rightarrow> Inr (gm_set services key input)
                        | None \<Rightarrow> Inr (gm_del services key)))))"

text \<open>
  The loop over the map of Services visits its values in an unspecified order, the argument \<open>ord\<close>.
\<close>

type_synonym service_order = "ServiceInput list \<Rightarrow> ServiceInput list"

definition updateSink ::
    "(error \<Rightarrow> string) \<Rightarrow> service_order \<Rightarrow> 's ServiceWatchController \<Rightarrow> (string, ServiceInput) gomap \<Rightarrow> 's \<Rightarrow> 's" where
  "updateSink render ord c services st =
     (let inputs = ord (map snd services);
          result = BuildDiscoveredRoutes render inputs (wcAnnotationPrefix c)
      in case wcSink c of
           ResultSink updateResult \<Rightarrow> updateResult result st
         | RouteOnlySink update \<Rightarrow> update (krRoutes result) st)"

datatype watch_input =
    CtxDone                      \<comment> \<open>the context ends\<close>
  | ChanClosed bool              \<comment> \<open>the channel is closed; whether the context has an error\<close>
  | ChanEvent watch_event

fun Run_loop ::
    "(error \<Rightarrow> string) \<Rightarrow> service_order \<Rightarrow> 's ServiceWatchController \<Rightarrow> watch_input list \<Rightarrow> (string, ServiceInput) gomap \<Rightarrow> 's \<Rightarrow>
     error option option \<times> 's" where
  "Run_loop render ord c [] services st = (None, st)"
| "Run_loop render ord c (CtxDone # ins) services st = (Some None, st)"
| "Run_loop render ord c (ChanClosed ended # ins) services st =
     (if ended then (Some None, st) else (Some (Some [ErrServiceWatchClosed]), st))"
| "Run_loop render ord c (ChanEvent event # ins) services st =
     (case applyWatchEvent services event of
        Inl err \<Rightarrow> (Some (Some err), st)
      | Inr services' \<Rightarrow> Run_loop render ord c ins services' (updateSink render ord c services' st))"

definition controller_Run ::
    "(error \<Rightarrow> string) \<Rightarrow> service_order \<Rightarrow> 's ServiceWatchController \<Rightarrow> Service list result \<Rightarrow> (bool \<times> error) option \<Rightarrow> watch_input list \<Rightarrow> 's \<Rightarrow>
     error option option \<times> 's" where
  \<comment> \<open>\<open>setup\<close> is the error of setting up the watch, if any, and whether the context has one too\<close>
  "controller_Run render ord c answer setup ins st =
     (case initialServices answer of
        Inl err \<Rightarrow> (Some (Some err), st)
      | Inr services \<Rightarrow>
          (case setup of
             Some (ended, err) \<Rightarrow> if ended then (Some None, st) else (Some (Some (ErrServiceWatchSetupFailed # err)), st)
           | None \<Rightarrow> Run_loop render ord c ins services (updateSink render ord c services st)))"

section \<open>The Services of the cluster\<close>

definition skey :: "Service \<Rightarrow> string" where
  "skey s = serviceKey (svNamespace s) (svName s)"

definition cluster_of :: "Service list \<Rightarrow> string \<rightharpoonup> Service" where
  \<comment> \<open>the Services of a list, by their keys\<close>
  "cluster_of items = map_of (map (\<lambda>s. (skey s, s)) items)"

definition cluster_step :: "watch_event \<Rightarrow> (string \<rightharpoonup> Service) \<Rightarrow> (string \<rightharpoonup> Service)" where
  \<comment> \<open>what an event says about the cluster\<close>
  "cluster_step event m =
     (case weObject event of
        None \<Rightarrow> m
      | Some s \<Rightarrow>
          if weType event = Added \<or> weType event = Modified then m(skey s \<mapsto> s)
          else if weType event = Deleted then m(skey s := None) else m)"

definition tracks :: "(string, ServiceInput) gomap \<Rightarrow> (string \<rightharpoonup> Service) \<Rightarrow> bool" where
  "tracks services m \<longleftrightarrow> gm_wf services \<and> (\<forall>k. gm_get services k = (case m k of None \<Rightarrow> None | Some s \<Rightarrow> ToServiceInput (Some s)))"

lemma initialServices_tracks:
  "distinct (map skey items) \<Longrightarrow> gm_wf services \<Longrightarrow> \<forall>s \<in> set items. gm_get services (skey s) = None \<Longrightarrow>
     gm_wf (initialServices_loop items services) \<and>
     (\<forall>k. gm_get (initialServices_loop items services) k =
        (case cluster_of items k of Some s \<Rightarrow> ToServiceInput (Some s) | None \<Rightarrow> gm_get services k))"
proof (induction items arbitrary: services)
  case (Cons s items)
  let ?services = "case ToServiceInput (Some s) of Some input \<Rightarrow> gm_set services (skey s) input | None \<Rightarrow> services"
  have loop: "initialServices_loop (s # items) services = initialServices_loop items ?services" by (simp add: skey_def split: option.split)
  have "cluster_of items (skey s) = None" using Cons.prems(1) by (auto simp: cluster_of_def map_of_eq_None_iff)
  moreover have "cluster_of (s # items) = (cluster_of items)(skey s \<mapsto> s)" by (simp add: cluster_of_def)
  moreover have "gm_wf ?services" "\<forall>t \<in> set items. gm_get ?services (skey t) = None"
    using Cons.prems by (auto simp: rev_image_eqI split: option.split)
  ultimately show ?case using Cons.IH [of ?services] Cons.prems(1,3) unfolding loop by (auto split: option.splits)
qed (simp add: cluster_of_def)

lemma applyWatchEvent_tracks:
  assumes "tracks services m" and "weType event \<noteq> WatchError"
  obtains services' where "applyWatchEvent services event = Inr services'" and "tracks services' (cluster_step event m)"
proof -
  have "\<exists>services'. applyWatchEvent services event = Inr services' \<and> tracks services' (cluster_step event m)"
    using assms
    by (cases "weType event"; cases "weObject event")
      (auto simp: applyWatchEvent_def tracks_def cluster_step_def skey_def Let_def split: option.splits)
  then show thesis using that by blast
qed

lemma ListServices_loop_filter: "ListServices_loop items res = res @ List.map_filter (\<lambda>s. ToServiceInput (Some s)) items"
  by (induction items arbitrary: res) (auto simp: map_filter_simps split: option.split)

lemma mset_same_map:
  assumes "gm_wf m" and "gm_wf m'" and "\<And>k. gm_get m k = gm_get m' k"
  shows "mset (map snd m) = mset (map snd m')"
proof -
  have "distinct m" "distinct m'" using assms(1,2) by (simp_all add: gm_wf_def distinct_map)
  moreover have "set m = set m'"
    using gm_in_get [OF assms(1)] gm_in_get [OF assms(2)] assms(3) by (metis subsetI subset_antisym surj_pair)
  ultimately have "mset m = mset m'" by (simp add: set_eq_iff_mset_eq_distinct)
  then show ?thesis by (simp add: mset_map)
qed

lemma tracked_inputs:
  assumes "tracks services (cluster_of items)" and "distinct (map skey items)"
  shows "mset (map snd services) = mset (ListServices_loop items [])"
proof -
  let ?pairs = "List.map_filter (\<lambda>s. map_option (\<lambda>i. (skey s, i)) (ToServiceInput (Some s))) items"
  have keys: "set (map fst ?pairs) \<subseteq> set (map skey items)" by (auto simp: map_filter_def)
  have "gm_wf ?pairs" using assms(2)
  proof (induction items)
    case (Cons s items)
    have "set (map fst (List.map_filter (\<lambda>s. map_option (\<lambda>i. (skey s, i)) (ToServiceInput (Some s))) items)) \<subseteq> skey ` set items"
      by (auto simp: map_filter_def)
    with Cons show ?case by (auto simp: gm_wf_def map_filter_simps split: option.split)
  qed (simp add: map_filter_simps)
  moreover have "gm_get ?pairs k = (case cluster_of items k of None \<Rightarrow> None | Some s \<Rightarrow> ToServiceInput (Some s))" for k
    using assms(2)
  proof (induction items)
    case (Cons s items)
    have "cluster_of items k = None" if "k = skey s" using Cons.prems that by (auto simp: cluster_of_def map_of_eq_None_iff)
    with Cons show ?case by (auto simp: cluster_of_def map_filter_simps split: option.split)
  qed (simp add: cluster_of_def map_filter_simps)
  ultimately have "mset (map snd services) = mset (map snd ?pairs)"
    using assms(1) by (intro mset_same_map) (simp_all add: tracks_def)
  also have "map snd ?pairs = ListServices_loop items []"
    unfolding ListServices_loop_filter by (induction items) (auto simp: map_filter_simps split: option.split)
  finally show ?thesis .
qed

lemma Run_loop_events:
  assumes "wcSink c = ResultSink f"
  shows "tracks services m \<Longrightarrow> \<forall>ev \<in> set evs. weType ev \<noteq> WatchError \<Longrightarrow>
    \<exists>services' log. Run_loop render ord c (map ChanEvent evs) services st = (None, fold f log st) \<and> length log = length evs \<and>
      tracks services' (fold cluster_step evs m) \<and>
      last (x # log) = (if evs = [] then x else BuildDiscoveredRoutes render (ord (map snd services')) (wcAnnotationPrefix c)) \<and>
      (evs = [] \<longrightarrow> services' = services)"
proof (induction evs arbitrary: services m st x)
  case (Cons ev evs)
  obtain services1 where s1: "applyWatchEvent services ev = Inr services1" "tracks services1 (cluster_step ev m)"
    using applyWatchEvent_tracks [OF Cons.prems(1)] Cons.prems(2) by auto
  let ?r = "BuildDiscoveredRoutes render (ord (map snd services1)) (wcAnnotationPrefix c)"
  obtain services' log where
    "Run_loop render ord c (map ChanEvent evs) services1 (f ?r st) = (None, fold f log (f ?r st))" "length log = length evs"
    "tracks services' (fold cluster_step evs (cluster_step ev m))"
    "last (?r # log) = (if evs = [] then ?r else BuildDiscoveredRoutes render (ord (map snd services')) (wcAnnotationPrefix c))"
    "evs = [] \<longrightarrow> services' = services1"
    using Cons.IH [OF s1(2), of "f ?r st" ?r] Cons.prems(2) by auto
  with s1(1) assms show ?case
    by (intro exI [of _ services'] exI [of _ "?r # log"]) (auto simp: updateSink_def Let_def)
qed auto

text \<open>The results that a run hands to its sink, one after the other.\<close>

lemma controller_Run_results:
  assumes "\<And>xs. mset (ord xs) = mset xs" and "wcSink c = ResultSink f"
    and "distinct (map skey items)" and "\<forall>ev \<in> set evs. weType ev \<noteq> WatchError"
    and "distinct (map skey current)" and "cluster_of current = fold cluster_step evs (cluster_of items)"
  obtains log where "controller_Run render ord c (Inr items) None (map ChanEvent evs) st = (None, fold f log st)" and "length log = Suc (length evs)"
    and "krRoutes (last log) = krRoutes (BuildDiscoveredRoutes render (ListServices_loop current []) (wcAnnotationPrefix c))"
    and "krDuplicateHosts (last log) = krDuplicateHosts (BuildDiscoveredRoutes render (ListServices_loop current []) (wcAnnotationPrefix c))"
proof -
  let ?services = "initialServices_loop items []" and ?p = "wcAnnotationPrefix c"
  have t: "tracks ?services (cluster_of items)"
    using initialServices_tracks [OF assms(3), of "[]"] by (auto simp: tracks_def split: option.split)
  let ?r = "BuildDiscoveredRoutes render (ord (map snd ?services)) ?p"
  obtain services' log where
    l: "Run_loop render ord c (map ChanEvent evs) ?services (f ?r st) = (None, fold f log (f ?r st))" "length log = length evs"
      "tracks services' (cluster_of current)"
      "last (?r # log) = (if evs = [] then ?r else BuildDiscoveredRoutes render (ord (map snd services')) ?p)"
      "evs = [] \<longrightarrow> services' = ?services"
    using Run_loop_events [OF assms(2) t assms(4), of render ord "f ?r st" ?r] assms(6) by auto
  have last: "last (?r # log) = BuildDiscoveredRoutes render (ord (map snd services')) ?p" using l(4,5) by auto
  have run: "controller_Run render ord c (Inr items) None (map ChanEvent evs) st = (None, fold f (?r # log) st)"
    using l(1) assms(2) by (simp add: controller_Run_def initialServices_def updateSink_def Let_def)
  have "mset (ord (map snd services')) = mset (ListServices_loop current [])"
    using tracked_inputs [OF l(3) assms(5)] assms(1) by simp
  from discovered_routes_order [OF this, of render ?p] that [OF run] l(2) last show thesis by simp
qed

section \<open>Properties\<close>

text \<open>C7: the watch follows the cluster. The controller lists the Services once and then applies events, and after every event it hands the
  complete set of routes to its sink. Whatever events have come, in whatever order the map of Services is visited, the routes and
  duplicate hosts it hands over last are those that the startup path finds by listing the Services that exist by then.\<close>

theorem watch_tracks_cluster:
  assumes "\<And>xs. mset (ord xs) = mset xs" and "wcSink c = ResultSink (\<lambda>r log. log @ [r])"
    and "distinct (map skey items)" and "\<forall>ev \<in> set evs. weType ev \<noteq> WatchError"
    and "distinct (map skey current)" and "cluster_of current = fold cluster_step evs (cluster_of items)"
  shows "\<exists>log. controller_Run render ord c (Inr items) None (map ChanEvent evs) [] = (None, log) \<and> length log = Suc (length evs) \<and>
    (\<forall>inputs. ListServices (Inr current) = Inr inputs \<longrightarrow>
       krRoutes (last log) = krRoutes (BuildDiscoveredRoutes render inputs (wcAnnotationPrefix c)) \<and>
       krDuplicateHosts (last log) = krDuplicateHosts (BuildDiscoveredRoutes render inputs (wcAnnotationPrefix c)))"
proof -
  obtain log where log: "controller_Run render ord c (Inr items) None (map ChanEvent evs) [] = (None, fold (\<lambda>r log. log @ [r]) log [])"
    "length log = Suc (length evs)" "krRoutes (last log) = krRoutes (BuildDiscoveredRoutes render (ListServices_loop current []) (wcAnnotationPrefix c))"
    "krDuplicateHosts (last log) = krDuplicateHosts (BuildDiscoveredRoutes render (ListServices_loop current []) (wcAnnotationPrefix c))"
    by (rule controller_Run_results [OF assms])
  have "fold (\<lambda>r log. log @ [r]) xs ys = ys @ xs" for xs ys :: "k8s_Result list" by (induction xs arbitrary: ys) auto
  with log show ?thesis by (intro exI [of _ log]) (simp add: ListServices_def)
qed

definition sample_service :: "string \<Rightarrow> Service" where
  "sample_service name = \<lparr>svName = name, svNamespace = ''mc'', svType = ''ClusterIP'', svAnnotations = [], svPorts = [(''mc'', 25565)]\<rparr>"

theorem watch_tracks_cluster_witness:
  "\<exists>log. controller_Run (\<lambda>_. '''') rev \<lparr>wcNamespace = ''mc'', wcSink = ResultSink (\<lambda>r log. log @ [r]), wcAnnotationPrefix = ''''\<rparr>
      (Inr [sample_service ''lobby'']) None
      [ChanEvent \<lparr>weType = Added, weObject = Some (sample_service ''hub'')\<rparr>, ChanEvent \<lparr>weType = Deleted, weObject = Some (sample_service ''lobby'')\<rparr>]
      [] = (None, log) \<and> length log = 3"
proof -
  have "cluster_of [sample_service ''hub''] = fold cluster_step [\<lparr>weType = Added, weObject = Some (sample_service ''hub'')\<rparr>,
      \<lparr>weType = Deleted, weObject = Some (sample_service ''lobby'')\<rparr>] (cluster_of [sample_service ''lobby''])"
    by (auto simp: cluster_of_def cluster_step_def skey_def serviceKey_def sample_service_def)
  from watch_tracks_cluster [OF _ _ _ _ _ this, where ord = rev and render = "\<lambda>_. ''''" and
      c = "\<lparr>wcNamespace = ''mc'', wcSink = ResultSink (\<lambda>r log. log @ [r]), wcAnnotationPrefix = ''''\<rparr>"]
  show ?thesis by auto
qed

end
