(* ===== verification/Supervisor.thy ===== *)
theory Supervisor
  imports Watch Complex_Main
begin

text \<open>
  The supervisor that restarts the watch, \<open>internal/discovery/kubernetes/watch_supervisor.go\<close>. Delays are
  integers of nanoseconds; the factor and the jitter of the backoff, floating-point numbers in the code, are
  rationals, and a power too large for a float is above every maximum in both. Random numbers, the
  scheduling of the goroutines and the end of the context are arguments. A loop whose inputs are used up
  is still running, the answer \<open>None\<close>.
\<close>

section \<open>Backoff\<close>

record BackoffPolicy =
  bpInitialDelay :: int
  bpMaxDelay :: int
  bpFactor :: rat
  bpJitter :: rat

definition defaultWatchInitialRetryDelay :: int where "defaultWatchInitialRetryDelay = 1000000000"
definition defaultWatchMaxRetryDelay :: int where "defaultWatchMaxRetryDelay = 30 * 1000000000"
definition defaultWatchRetryFactor :: rat where "defaultWatchRetryFactor = 2"

definition withDefaults :: "BackoffPolicy \<Rightarrow> BackoffPolicy" where
  "withDefaults p0 =
     (let p1 = (if bpInitialDelay p0 \<le> 0 then p0\<lparr>bpInitialDelay := defaultWatchInitialRetryDelay\<rparr> else p0);
          p2 = (if bpMaxDelay p1 \<le> 0 then p1\<lparr>bpMaxDelay := defaultWatchMaxRetryDelay\<rparr> else p1);
          p3 = (if bpFactor p2 \<le> 1 then p2\<lparr>bpFactor := defaultWatchRetryFactor\<rparr> else p2);
          p4 = (if bpMaxDelay p3 < bpInitialDelay p3 then p3\<lparr>bpMaxDelay := bpInitialDelay p3\<rparr> else p3);
          p5 = (if bpJitter p4 < 0 then p4\<lparr>bpJitter := 0\<rparr> else p4)
      in if bpJitter p5 > 1 then p5\<lparr>bpJitter := 1\<rparr> else p5)"

definition Delay :: "BackoffPolicy \<Rightarrow> rat \<Rightarrow> int \<Rightarrow> int" where
  \<comment> \<open>\<open>rnd\<close> is the answer of \<open>rand.Float64\<close>; converting to a duration drops the fraction\<close>
  "Delay p0 rnd attempt0 =
     (let p = withDefaults p0;
          attempt = (if attempt0 < 1 then 1 else attempt0);
          delayFloat0 = rat_of_int (bpInitialDelay p) * bpFactor p ^ nat (attempt - 1);
          delayFloat = (if delayFloat0 > rat_of_int (bpMaxDelay p) then rat_of_int (bpMaxDelay p) else delayFloat0);
          delay = \<lfloor>delayFloat\<rfloor>
      in if bpJitter p = 0 \<or> delay \<le> 0 then delay
         else
           (let spread = rat_of_int delay * bpJitter p;
                minDelay = rat_of_int delay - spread;
                maxDelay = rat_of_int delay + spread;
                jittered0 = minDelay + rnd * (maxDelay - minDelay);
                jittered1 = (if jittered0 < 0 then 0 else jittered0);
                jittered = (if jittered1 > rat_of_int (bpMaxDelay p) then rat_of_int (bpMaxDelay p) else jittered1)
            in \<lfloor>jittered\<rfloor>))"

section \<open>The supervisor\<close>

datatype sleep_end = SleepTimer | SleepCtx error

definition timerSleeper_Sleep :: "int \<Rightarrow> error option \<Rightarrow> sleep_end \<Rightarrow> error option" where
  \<comment> \<open>\<open>ctx\<close> is the error of the context at the call; \<open>first\<close> is which comes first, timer or context\<close>
  "timerSleeper_Sleep delay ctx first =
     (if delay \<le> 0 then ctx
      else (case first of SleepTimer \<Rightarrow> None | SleepCtx err \<Rightarrow> Some err))"

definition isWatchNormalStop :: "bool \<Rightarrow> error option \<Rightarrow> bool" where
  \<comment> \<open>whether the context has an error, and the error of the run\<close>
  "isWatchNormalStop ctxErr err \<longleftrightarrow>
     ctxErr \<or> (case err of None \<Rightarrow> False | Some e \<Rightarrow> errors_Is e ContextCanceled \<or> errors_Is e ContextDeadlineExceeded)"

definition channelClosed :: "bool option \<Rightarrow> bool" where
  \<comment> \<open>a channel nobody sends on: nil, or whether it is closed\<close>
  "channelClosed ch = (case ch of None \<Rightarrow> True | Some closed_now \<Rightarrow> closed_now)"

definition drainSynced :: "nat \<Rightarrow> bool" where
  \<comment> \<open>the argument is the number of signals in the channel, which is empty afterwards\<close>
  "drainSynced pending \<longleftrightarrow> pending > 0"

definition onSync :: "nat \<Rightarrow> nat" where
  "onSync attempt = (if attempt > 0 then 0 else attempt)"

datatype run_input =
    RunCtxDone "error option"   \<comment> \<open>the context ends, and then the runner with this error\<close>
  | RunSynced                   \<comment> \<open>a signal that routes were updated\<close>
  | RunDone "error option" nat  \<comment> \<open>the runner ends, with so many signals not yet received\<close>

fun runOnce :: "bool \<Rightarrow> nat \<Rightarrow> run_input list \<Rightarrow> (bool \<times> error option \<times> nat) option" where
  "runOnce synced attempt [] = None"
| "runOnce synced attempt (RunCtxDone err # ins) = Some (synced, err, attempt)"
| "runOnce synced attempt (RunSynced # ins) =
     (if \<not> synced then runOnce True (onSync attempt) ins else runOnce synced attempt ins)"
| "runOnce synced attempt (RunDone err pending # ins) =
     (if \<not> synced \<and> drainSynced pending then Some (True, err, onSync attempt) else Some (synced, err, attempt))"

text \<open>
  One round of the loop of \<open>Run\<close>: what the runner does, whether the context has an error after it, the
  state of the channel \<open>ready\<close>, the random number, and how the sleep turns out, after which the context may
  have an error as well.
\<close>

record round =
  rdInputs :: "run_input list"
  rdCtxErr :: bool
  rdReady :: "bool option"
  rdRand :: rat
  rdSleep :: "error option"
  rdCtxErrSleep :: bool

record retry =
  rtErr :: error
  rtAttempt :: nat
  rtDelay :: int

fun supervisor_loop :: "BackoffPolicy \<Rightarrow> round list \<Rightarrow> bool \<Rightarrow> nat \<Rightarrow> retry list \<Rightarrow> error option option \<times> retry list" where
  \<comment> \<open>every retry is one call of \<open>onRetry\<close>, recorded with its attempt and delay\<close>
  "supervisor_loop p [] initialSyncSeen attempt retries = (None, retries)"
| "supervisor_loop p (rd # rounds) initialSyncSeen attempt retries =
     (case runOnce False attempt (rdInputs rd) of
        None \<Rightarrow> (None, retries)
      | Some (syncedThisRun, err, attempt1) \<Rightarrow>
          if isWatchNormalStop (rdCtxErr rd) err then (Some None, retries)
          else
            (case err of
               None \<Rightarrow> (Some None, retries)
             | Some e \<Rightarrow>
                 if \<not> syncedThisRun \<and> \<not> initialSyncSeen \<and> \<not> channelClosed (rdReady rd) then (Some (Some e), retries)
                 else
                   (let attempt2 = Suc attempt1;
                        delay = Delay p (rdRand rd) (int attempt2);
                        retries' = retries @ [\<lparr>rtErr = e, rtAttempt = attempt2, rtDelay = delay\<rparr>]
                    in case rdSleep rd of
                         Some sleepErr \<Rightarrow>
                           if isWatchNormalStop (rdCtxErrSleep rd) (Some sleepErr) then (Some None, retries')
                           else (Some (Some (Msg ''sleep before Kubernetes watch retry'' # sleepErr)), retries')
                       | None \<Rightarrow> supervisor_loop p rounds (initialSyncSeen \<or> syncedThisRun) attempt2 retries')))"

definition NewWatchSupervisor :: "bool \<Rightarrow> BackoffPolicy \<Rightarrow> BackoffPolicy result" where
  \<comment> \<open>whether there is a runner; what is built is determined by the backoff\<close>
  "NewWatchSupervisor runner backoff =
     (if \<not> runner then Inl [Msg ''watch runner is nil''] else Inr (withDefaults backoff))"

definition supervisor_Run :: "BackoffPolicy \<Rightarrow> bool option \<Rightarrow> round list \<Rightarrow> error option option \<times> retry list" where
  "supervisor_Run p ready rounds = supervisor_loop p rounds (channelClosed ready) 0 []"

section \<open>Lemmas on the backoff\<close>

lemma withDefaults_ranges:
  "0 < bpInitialDelay (withDefaults p)" "bpInitialDelay (withDefaults p) \<le> bpMaxDelay (withDefaults p)"
  "1 < bpFactor (withDefaults p)" "0 \<le> bpJitter (withDefaults p)" "bpJitter (withDefaults p) \<le> 1"
  by (auto simp: withDefaults_def Let_def defaultWatchInitialRetryDelay_def defaultWatchMaxRetryDelay_def defaultWatchRetryFactor_def)

lemma withDefaults_idem [simp]: "withDefaults (withDefaults p) = withDefaults p"
  using withDefaults_ranges [of p] by (simp add: withDefaults_def [of "withDefaults p"] Let_def)

definition backoff_base :: "BackoffPolicy \<Rightarrow> int \<Rightarrow> int" where
  \<comment> \<open>the delay before jitter\<close>
  "backoff_base p attempt =
     \<lfloor>min (rat_of_int (bpMaxDelay (withDefaults p)))
        (rat_of_int (bpInitialDelay (withDefaults p)) * bpFactor (withDefaults p) ^ nat (max 1 attempt - 1))\<rfloor>"

lemma backoff_base_range: "0 < backoff_base p attempt \<and> backoff_base p attempt \<le> bpMaxDelay (withDefaults p)"
proof -
  let ?p = "withDefaults p"
  note w = withDefaults_ranges [of p]
  let ?x = "rat_of_int (bpInitialDelay ?p) * bpFactor ?p ^ nat (max 1 attempt - 1)"
  have "1 \<le> bpFactor ?p ^ nat (max 1 attempt - 1)" using w(3) by (intro one_le_power) simp
  then have "rat_of_int (bpInitialDelay ?p) * 1 \<le> ?x" using w(1) by (intro mult_left_mono) simp_all
  then have "1 \<le> min (rat_of_int (bpMaxDelay ?p)) ?x" using w(1,2) by linarith
  then show ?thesis unfolding backoff_base_def by (simp add: floor_le_iff less_floor_iff)
qed

lemma backoff_base_mono: "attempt \<le> attempt' \<Longrightarrow> backoff_base p attempt \<le> backoff_base p attempt'"
proof -
  assume "attempt \<le> attempt'"
  then have "bpFactor (withDefaults p) ^ nat (max 1 attempt - 1) \<le> bpFactor (withDefaults p) ^ nat (max 1 attempt' - 1)"
    using withDefaults_ranges(3) [of p] by (intro power_increasing) auto
  then have "rat_of_int (bpInitialDelay (withDefaults p)) * bpFactor (withDefaults p) ^ nat (max 1 attempt - 1)
      \<le> rat_of_int (bpInitialDelay (withDefaults p)) * bpFactor (withDefaults p) ^ nat (max 1 attempt' - 1)"
    using withDefaults_ranges(1) [of p] by (intro mult_left_mono) simp_all
  then show ?thesis unfolding backoff_base_def by (intro floor_mono) simp
qed

lemma power_above:
  fixes f :: rat
  assumes "1 < f"
  shows "\<exists>k. y < f ^ k"
proof -
  have bernoulli: "1 + of_nat k * (f - 1) \<le> f ^ k" for k
  proof (induction k)
    case (Suc k)
    have "0 \<le> of_nat k * ((f - 1) * (f - 1))" using assms by simp
    then have "1 + of_nat (Suc k) * (f - 1) \<le> f * (1 + of_nat k * (f - 1))" by (simp add: algebra_simps)
    also have "\<dots> \<le> f * f ^ k" using Suc assms by (intro mult_left_mono) simp_all
    finally show ?case by simp
  qed simp
  obtain k where "y / (f - 1) < of_nat k" using reals_Archimedean2 by blast
  then have "y < of_nat k * (f - 1)" using assms by (simp add: divide_less_eq)
  with bernoulli [of k] show ?thesis by (intro exI [of _ k]) linarith
qed

lemma backoff_base_limit: "\<exists>n. \<forall>attempt \<ge> n. backoff_base p attempt = bpMaxDelay (withDefaults p)"
proof -
  let ?p = "withDefaults p"
  note w = withDefaults_ranges [of p]
  obtain k where k: "rat_of_int (bpMaxDelay ?p) / rat_of_int (bpInitialDelay ?p) < bpFactor ?p ^ k"
    using power_above [OF w(3)] by blast
  have "bpMaxDelay ?p \<le> backoff_base p (int k + 1)"
  proof -
    have "rat_of_int (bpMaxDelay ?p) \<le> rat_of_int (bpInitialDelay ?p) * bpFactor ?p ^ k"
      using k w(1) by (simp add: divide_less_eq mult.commute)
    then show ?thesis by (simp add: backoff_base_def)
  qed
  then have "backoff_base p attempt = bpMaxDelay ?p" if "int k + 1 \<le> attempt" for attempt
    using backoff_base_mono [OF that, of p] backoff_base_range [of p attempt] by linarith
  then show ?thesis by blast
qed

lemma Delay_base:
  "Delay p rnd attempt =
     (if bpJitter (withDefaults p) = 0 then backoff_base p attempt
      else \<lfloor>min (rat_of_int (bpMaxDelay (withDefaults p)))
        (max 0 (rat_of_int (backoff_base p attempt) * (1 + bpJitter (withDefaults p) * (2 * rnd - 1))))\<rfloor>)"
proof -
  let ?p = "withDefaults p"
  let ?x = "rat_of_int (bpInitialDelay ?p) * bpFactor ?p ^ nat ((if attempt < 1 then 1 else attempt) - 1)"
  have m: "(if attempt < 1 then 1 else attempt) = max 1 attempt" by auto
  have d: "\<lfloor>if ?x > rat_of_int (bpMaxDelay ?p) then rat_of_int (bpMaxDelay ?p) else ?x\<rfloor> = backoff_base p attempt"
  proof -
    have "(if ?x > rat_of_int (bpMaxDelay ?p) then rat_of_int (bpMaxDelay ?p) else ?x) = min (rat_of_int (bpMaxDelay ?p)) ?x" by auto
    then show ?thesis by (simp only: m backoff_base_def)
  qed
  have pos: "\<not> backoff_base p attempt \<le> 0" using backoff_base_range [of p attempt] by simp
  define b where "b = rat_of_int (backoff_base p attempt)"
  have "b - b * bpJitter ?p + rnd * (b + b * bpJitter ?p - (b - b * bpJitter ?p)) = b * (1 + bpJitter ?p * (2 * rnd - 1))"
    by (simp add: algebra_simps)
  moreover have clamp: "(if (if j < 0 then 0 else j) > M then M else (if j < 0 then 0 else j)) = min M (max 0 j)" for j M :: rat by auto
  ultimately show ?thesis unfolding Delay_def Let_def d b_def [symmetric] clamp using pos by simp
qed

section \<open>Lemmas on the supervisor\<close>

definition counts_up :: "nat \<Rightarrow> bool \<Rightarrow> nat" where
  \<comment> \<open>the attempt after a failed run: the first after a run that was synced, the next one otherwise\<close>
  "counts_up attempt synced = (if synced then 1 else Suc attempt)"

fun attempts_from :: "nat \<Rightarrow> bool list \<Rightarrow> nat list" where
  "attempts_from attempt [] = []"
| "attempts_from attempt (synced # ss) = counts_up attempt synced # attempts_from (counts_up attempt synced) ss"

lemma runOnce_attempt: "runOnce synced attempt ins = Some (synced', err, attempt') \<Longrightarrow> (synced \<longrightarrow> synced') \<and>
    attempt' = (if synced' \<and> \<not> synced then 0 else attempt)"
  by (induction synced attempt ins rule: runOnce.induct) (auto simp: onSync_def split: if_splits)

definition failed_round :: "round \<Rightarrow> (bool \<times> error) option" where
  \<comment> \<open>the run of a round ended with an error that is not a normal stop, and the sleep after it succeeded\<close>
  "failed_round rd =
     (case runOnce False 0 (rdInputs rd) of
        Some (synced, Some e, _) \<Rightarrow>
          if \<not> isWatchNormalStop (rdCtxErr rd) (Some e) \<and> rdSleep rd = None then Some (synced, e) else None
      | _ \<Rightarrow> None)"

lemma runOnce_attempt_irrelevant:
  "map_option (\<lambda>(s, e, _). (s, e)) (runOnce synced attempt ins) = map_option (\<lambda>(s, e, _). (s, e)) (runOnce synced attempt' ins)"
proof (induction ins arbitrary: synced attempt attempt')
  case (Cons i ins)
  then show ?case by (cases i) (auto simp del: option.map_disc_iff)
qed simp

lemma failed_round_run:
  assumes "failed_round rd = Some (synced, e)"
  shows "\<exists>attempt'. runOnce False attempt (rdInputs rd) = Some (synced, Some e, attempt') \<and> Suc attempt' = counts_up attempt synced"
    and "\<not> isWatchNormalStop (rdCtxErr rd) (Some e)" and "rdSleep rd = None"
proof -
  obtain a where a: "runOnce False 0 (rdInputs rd) = Some (synced, Some e, a)" "\<not> isWatchNormalStop (rdCtxErr rd) (Some e)" "rdSleep rd = None"
    using assms by (auto simp: failed_round_def split: option.splits if_splits)
  then obtain attempt' where "runOnce False attempt (rdInputs rd) = Some (synced, Some e, attempt')"
    using runOnce_attempt_irrelevant [of False attempt "rdInputs rd" 0] by auto
  with runOnce_attempt [OF this] show "\<exists>attempt'. runOnce False attempt (rdInputs rd) = Some (synced, Some e, attempt') \<and>
      Suc attempt' = counts_up attempt synced" by (auto simp: counts_up_def)
  show "\<not> isWatchNormalStop (rdCtxErr rd) (Some e)" "rdSleep rd = None" using a by simp_all
qed

lemma supervisor_loop_failed:
  assumes "failed_round rd = Some (synced, e)" and "initial \<or> synced"
  shows "supervisor_loop p (rd # rds) initial attempt retries =
    supervisor_loop p rds True (counts_up attempt synced)
      (retries @ [\<lparr>rtErr = e, rtAttempt = counts_up attempt synced, rtDelay = Delay p (rdRand rd) (int (counts_up attempt synced))\<rparr>])"
proof -
  obtain attempt' where "runOnce False attempt (rdInputs rd) = Some (synced, Some e, attempt')" "Suc attempt' = counts_up attempt synced"
    using failed_round_run(1) [OF assms(1)] by blast
  with failed_round_run(2,3) [OF assms(1)] assms(2) show ?thesis by (auto simp: Let_def)
qed

lemma supervisor_loop_retries:
  "list_all (\<lambda>rd. failed_round rd \<noteq> None) rds \<Longrightarrow>
   supervisor_loop p rds True attempt retries =
     (None, retries @ map2 (\<lambda>rd a. \<lparr>rtErr = snd (the (failed_round rd)), rtAttempt = a, rtDelay = Delay p (rdRand rd) (int a)\<rparr>)
        rds (attempts_from attempt (map (\<lambda>rd. fst (the (failed_round rd))) rds)))"
proof (induction rds arbitrary: attempt retries)
  case (Cons rd rds)
  then obtain synced e where "failed_round rd = Some (synced, e)" by auto
  with Cons show ?case using supervisor_loop_failed [of rd synced e True p rds attempt retries] by simp
qed simp

lemma supervisor_loop_no_error:
  "list_all (\<lambda>rd. rdSleep rd = None \<or> rdCtxErrSleep rd) rds \<Longrightarrow> initial \<or> list_all (\<lambda>rd. channelClosed (rdReady rd)) rds \<Longrightarrow>
     fst (supervisor_loop p rds initial attempt retries) \<noteq> Some (Some err)"
proof (induction rds arbitrary: initial attempt retries)
  case (Cons rd rds)
  then show ?case
    by (cases "rdSleep rd") (auto simp: Let_def isWatchNormalStop_def split: option.split)
qed simp

section \<open>Properties\<close>


definition sample_backoff :: BackoffPolicy where
  "sample_backoff = \<lparr>bpInitialDelay = 0, bpMaxDelay = 0, bpFactor = 0, bpJitter = 0\<rparr>"


text \<open>C20: the supervisor does not give up. Once routes have been synced, or the watch was ready to begin with, it is still running after
  any number of failed runs, having retried after each of them; the attempts count up from one, from one again after a run
  that synced, and no retry waits longer than the maximum.\<close>

theorem supervisor_persists:
  assumes "list_all (\<lambda>rd. failed_round rd \<noteq> None) rounds"
    and "channelClosed ready \<or> (\<exists>rd rds e. rounds = rd # rds \<and> failed_round rd = Some (True, e))"
  shows "\<exists>retries. supervisor_Run p ready rounds = (None, retries) \<and>
    map rtErr retries = map (\<lambda>rd. snd (the (failed_round rd))) rounds \<and>
    map rtAttempt retries = attempts_from 0 (map (\<lambda>rd. fst (the (failed_round rd))) rounds) \<and>
    (\<forall>r \<in> set retries. rtDelay r \<le> bpMaxDelay (withDefaults p))"
proof -
  let ?as = "attempts_from 0 (map (\<lambda>rd. fst (the (failed_round rd))) rounds)"
  let ?rs = "map2 (\<lambda>rd a. \<lparr>rtErr = snd (the (failed_round rd)), rtAttempt = a, rtDelay = Delay p (rdRand rd) (int a)\<rparr>) rounds ?as"
  have "length (attempts_from a ss) = length ss" for a ss by (induction ss arbitrary: a) simp_all
  then have l: "length ?as = length rounds" by simp
  have "supervisor_Run p ready rounds = (None, ?rs)"
  proof (cases "channelClosed ready")
    case True
    then show ?thesis using supervisor_loop_retries [OF assms(1)] by (simp add: supervisor_Run_def)
  next
    case False
    then obtain rd rds e where r: "rounds = rd # rds" "failed_round rd = Some (True, e)" using assms(2) by blast
    then show ?thesis
      using supervisor_loop_failed [of rd True e False p rds 0 "[]"] supervisor_loop_retries [of rds p 1] assms(1) False
      by (simp add: supervisor_Run_def counts_up_def)
  qed
  moreover have "map rtErr ?rs = map (\<lambda>rd. snd (the (failed_round rd))) rounds" "map rtAttempt ?rs = ?as"
    using l by (auto intro: nth_equalityI)
  moreover have "rtDelay r \<le> bpMaxDelay (withDefaults p)" if "r \<in> set ?rs" for r
  proof -
    have "Delay p x i \<le> bpMaxDelay (withDefaults p)" for x i
      using backoff_base_range [of p i] floor_mono [of "min (rat_of_int (bpMaxDelay (withDefaults p))) (max 0 y)" "rat_of_int (bpMaxDelay (withDefaults p))" for y]
      by (simp add: Delay_base)
    with that show ?thesis by (auto simp: in_set_zip)
  qed
  ultimately show ?thesis by blast
qed

definition sample_round :: "bool \<Rightarrow> round" where
  "sample_round synced = \<lparr>rdInputs = (if synced then [RunSynced] else []) @ [RunDone (Some [ErrServiceWatchClosed]) 0], rdCtxErr = False,
     rdReady = Some synced, rdRand = 0, rdSleep = None, rdCtxErrSleep = False\<rparr>"

lemma sample_round_failed: "failed_round (sample_round synced) = Some (synced, [ErrServiceWatchClosed])"
  by (simp add: failed_round_def sample_round_def isWatchNormalStop_def errors_Is_def drainSynced_def)

theorem supervisor_persists_witness:
  "\<exists>retries. supervisor_Run sample_backoff (Some False) [sample_round True, sample_round False, sample_round False, sample_round True] =
     (None, retries) \<and> map rtAttempt retries = [1, 2, 3, 1]"
proof -
  let ?rounds = "[sample_round True, sample_round False, sample_round False, sample_round True]"
  have "list_all (\<lambda>rd. failed_round rd \<noteq> None) ?rounds" by (auto simp: sample_round_failed)
  moreover have "\<exists>rd rds e. ?rounds = rd # rds \<and> failed_round rd = Some (True, e)" by (simp add: sample_round_failed)
  ultimately obtain retries where "supervisor_Run sample_backoff (Some False) ?rounds = (None, retries)"
    "map rtAttempt retries = attempts_from 0 (map (\<lambda>rd. fst (the (failed_round rd))) ?rounds)"
    using supervisor_persists [of ?rounds "Some False" sample_backoff] by blast
  then show ?thesis by (intro exI [of _ retries]) (simp add: sample_round_failed counts_up_def)
qed

text \<open>C29: when the supervisor fails. With a sleeper that only fails when the context has ended, the supervisor answers an error only for its very
  first run, before anything was synced and without any retry; the error is that of the run. Every other end is a normal stop.\<close>

theorem supervisor_fails_fast:
  assumes "supervisor_Run p ready rounds = (Some (Some err), retries)"
    and "list_all (\<lambda>rd. rdSleep rd = None \<or> rdCtxErrSleep rd) rounds"
    and "\<forall>rd rds. rounds = rd # rds \<and> channelClosed (rdReady rd) \<longrightarrow> list_all (\<lambda>rd. channelClosed (rdReady rd)) rds"
  shows "retries = [] \<and> \<not> channelClosed ready \<and>
    (\<exists>rd rds. rounds = rd # rds \<and> runOnce False 0 (rdInputs rd) = Some (False, Some err, 0) \<and> \<not> channelClosed (rdReady rd))"
proof -
  have c: "\<not> channelClosed ready"
    using supervisor_loop_no_error [OF assms(2), of "channelClosed ready" p 0 "[]" err] assms(1) by (auto simp: supervisor_Run_def)
  then have run: "supervisor_loop p rounds False 0 [] = (Some (Some err), retries)" using assms(1) by (simp add: supervisor_Run_def)
  then obtain rd rds where r: "rounds = rd # rds" by (cases rounds) auto
  have "runOnce False 0 (rdInputs rd) \<noteq> None" using run by (cases "runOnce False 0 (rdInputs rd)") (simp_all add: r)
  then obtain synced e a where o: "runOnce False 0 (rdInputs rd) = Some (synced, e, a)" by auto
  have sleep: "rdSleep rd = None \<or> rdCtxErrSleep rd" "list_all (\<lambda>rd. rdSleep rd = None \<or> rdCtxErrSleep rd) rds" using assms(2) r by auto
  show ?thesis
  proof (cases "synced \<or> channelClosed (rdReady rd)")
    case True
    then have "synced \<or> list_all (\<lambda>rd. channelClosed (rdReady rd)) rds" using assms(3) r by blast
    then have n: "supervisor_loop p rds synced i l \<noteq> (Some (Some err), x)" for i l x
      using supervisor_loop_no_error [OF sleep(2), of synced p i l err] by auto
    have False using run True sleep(1) unfolding r
      by (cases "rdSleep rd") (auto simp: o n Let_def isWatchNormalStop_def split: option.splits if_splits)
    then show ?thesis ..
  next
    case False
    with run show ?thesis using runOnce_attempt [OF o] c unfolding r by (auto simp: o split: if_splits option.splits)
  qed
qed

theorem supervisor_fails_fast_witness:
  "supervisor_Run sample_backoff (Some False) [sample_round False, sample_round False] = (Some (Some [ErrServiceWatchClosed]), [])"
proof -
  let ?run = "supervisor_Run sample_backoff (Some False) [sample_round False, sample_round False]"
  obtain retries where r: "?run = (Some (Some [ErrServiceWatchClosed]), retries)"
    by (simp add: supervisor_Run_def sample_round_def channelClosed_def isWatchNormalStop_def errors_Is_def drainSynced_def)
  from supervisor_fails_fast [OF r] have "retries = []" by (auto simp: sample_round_def channelClosed_def)
  with r show ?thesis by simp
qed

end
