(* ===== verification/Monitor.thy ===== *)
theory Monitor
  imports Config Http
begin

text \<open>
  The availability monitor, \<open>internal/availability/monitor.go\<close>: a status request to a backend, the
  notification of the control companion, and the rounds of the monitor. The network, the JSON validator and
  the HTTP client are arguments. The varint decoder of the package is in the theory of varints.
\<close>

section \<open>The probe\<close>

definition statusProtocolVersion :: int32 where "statusProtocolVersion = 767"

text \<open>
  The network as a probe sees it: dialling an address answers the stream of what the backend sends, ended by
  the deadline if need be, or an error; writing succeeds or fails.
\<close>

record probe_env =
  peDial :: "string \<Rightarrow> reader result"
  peWrite :: "bytes \<Rightarrow> error option"
  peValidJSON :: "bytes \<Rightarrow> bool"

definition probe_request :: "string \<Rightarrow> nat \<Rightarrow> bytes" where
  \<comment> \<open>the handshake, built with its packet id and then without it, followed by the status request\<close>
  "probe_request serverAddress port =
     (let payload = WriteVarInt HandshakePacketID @ WriteVarInt statusProtocolVersion @ EncodeString serverAddress @
            PutUint16 (of_nat port) @ WriteVarInt NextStateStatus;
          handshake = BuildPacket 0 [drop 1 payload]
      in handshake @ BuildPacket StatusRequestPacketID [])"

definition check_status :: "(bytes \<Rightarrow> bool) \<Rightarrow> (int32 \<times> bytes) result \<Rightarrow> error option" where
  "check_status valid packet =
     (case packet of
        Inl err \<Rightarrow> Some err
      | Inr (packetID, payload) \<Rightarrow>
          if packetID \<noteq> StatusResponsePacketID then Some [Msg ''unexpected status packet'']
          else
            (case avail_readVarInt payload of
               Inl err \<Rightarrow> Some [Msg ''invalid status response'']
             | Inr (len, offset) \<Rightarrow>
                 if sint len < 1 \<or> sint len \<noteq> int (length payload) - int offset then Some [Msg ''invalid status response'']
                 else if \<not> valid (drop offset payload) then Some [Msg ''status response is not JSON'']
                 else None))"

definition Probe :: "probe_env \<Rightarrow> string \<Rightarrow> string \<Rightarrow> error option \<times> bytes" where
  \<comment> \<open>the error, and what was written to the backend\<close>
  "Probe pe address serverAddress =
     (case SplitHostPort address of
        Inl err \<Rightarrow> (Some err, [])
      | Inr (host, portRaw) \<Rightarrow>
          (case ParseUint16 portRaw of
             None \<Rightarrow> (Some [Msg ''invalid port''], [])
           | Some port \<Rightarrow>
               (case peDial pe address of
                  Inl err \<Rightarrow> (Some err, [])
                | Inr conn \<Rightarrow>
                    (case peWrite pe (probe_request serverAddress port) of
                       Some err \<Rightarrow> (Some err, probe_request serverAddress port)
                     | None \<Rightarrow>
                         (check_status (peValidJSON pe) (fst (ReadPacket conn (MaxPacketLength DefaultLimits))),
                          probe_request serverAddress port)))))"

section \<open>The monitor\<close>

record monitor =
  moCfg :: Availability
  moToken :: string
  moSent :: "(string, bool) gomap"

definition monitor_Start :: "(string \<Rightarrow> string) \<Rightarrow> Availability \<Rightarrow> monitor option result" where
  \<comment> \<open>the environment variables are a function; nothing is started when the monitor is off\<close>
  "monitor_Start getenv cfg =
     (if \<not> avEnabled cfg then Inr None
      else let token = TrimSpace (getenv (avTokenEnv cfg)) in
        if token = '''' then Inl [Msg ''availability token environment variable is empty'']
        else Inr (Some \<lparr>moCfg = cfg, moToken = token, moSent = []\<rparr>))"

definition availability_request :: "monitor \<Rightarrow> string \<Rightarrow> bool \<Rightarrow> http_request" where
  "availability_request m i online =
     (let state = (if online then ''online'' else ''offline'');
          body = bytes_of ''{'' @ json_key ''availability'' @ json_string state @ bytes_of ''}'';
          url = TrimRight1 (avControlURL (moCfg m)) (CHR ''/'') @ ''/v1/backends/'' @ i @ ''/availability''
      in \<lparr>rqMethod = ''PUT'', rqURL = url,
          rqHeader = Header_Set (Header_Set [] ''Authorization'' (''Bearer '' @ moToken m)) ''Content-Type'' ''application/json'',
          rqBody = body\<rparr>)"

definition notify :: "http_client \<Rightarrow> monitor \<Rightarrow> string \<Rightarrow> bool \<Rightarrow> error option" where
  "notify http m i online =
     (let request = availability_request m i online in
      case hcCheckURL http (rqURL request) of
        Some err \<Rightarrow> Some err
      | None \<Rightarrow>
          (case hcDo http request of
             Inl err \<Rightarrow> Some err
           | Inr code \<Rightarrow> if code \<noteq> 204 then Some [Msg ''control companion returned''] else None))"

text \<open>
  A round: what each backend answers to its probe and what the HTTP client does. The second part of the
  answer are the notifications made, with whether they succeeded.
\<close>

fun checkAll_loop ::
    "(AvailabilityBackend \<Rightarrow> error option) \<Rightarrow> http_client \<Rightarrow> AvailabilityBackend list \<Rightarrow> monitor \<Rightarrow> (string \<times> bool \<times> bool) list \<Rightarrow>
     monitor \<times> (string \<times> bool \<times> bool) list" where
  "checkAll_loop probe http [] m done_ones = (m, done_ones)"
| "checkAll_loop probe http (backend # backends) m done_ones =
     (let online = (probe backend = None) in
      if gm_get (moSent m) (abID backend) = Some online then checkAll_loop probe http backends m done_ones
      else
        (case notify http m (abID backend) online of
           Some err \<Rightarrow> checkAll_loop probe http backends m (done_ones @ [(abID backend, online, False)])
         | None \<Rightarrow> checkAll_loop probe http backends (m\<lparr>moSent := gm_set (moSent m) (abID backend) online\<rparr>)
             (done_ones @ [(abID backend, online, True)])))"

definition checkAll :: "(AvailabilityBackend \<Rightarrow> error option) \<Rightarrow> http_client \<Rightarrow> monitor \<Rightarrow> monitor \<times> (string \<times> bool \<times> bool) list" where
  "checkAll probe http m = checkAll_loop probe http (avBackends (moCfg m)) m []"

fun monitor_run :: "((AvailabilityBackend \<Rightarrow> error option) \<times> http_client) list \<Rightarrow> monitor \<Rightarrow> monitor \<times> (string \<times> bool \<times> bool) list" where
  \<comment> \<open>the loop of \<open>run\<close>, one round after the other\<close>
  "monitor_run [] m = (m, [])"
| "monitor_run ((probe, http) # rounds) m =
     (case checkAll probe http m of (m1, ns) \<Rightarrow> (case monitor_run rounds m1 of (m2, ns') \<Rightarrow> (m2, ns @ ns')))"

section \<open>Lemmas\<close>

abbreviation probe_handshake :: "string \<Rightarrow> nat \<Rightarrow> Handshake" where
  "probe_handshake serverAddress port \<equiv>
     \<lparr>ProtocolVersion = statusProtocolVersion, ServerAddress = serverAddress, ServerPort = of_nat port, NextState = NextStateStatus\<rparr>"

lemma WriteVarInt_0: "WriteVarInt 0 = [0]"
  by code_simp

lemma probe_request_packets:
  "probe_request a port = BuildPacket HandshakePacketID [handshake_fields (probe_handshake a port)] @ BuildPacket StatusRequestPacketID []"
  by (simp add: probe_request_def handshake_fields_def HandshakePacketID_def WriteVarInt_0 Let_def)

lemma check_status_Encode:
  assumes "length json < 2 ^ 31" and "json \<noteq> []"
  shows "check_status valid (Inr (StatusResponsePacketID, EncodeString json)) = None \<longleftrightarrow> valid (bytes_of json)"
  using assms sint_of_nat_int32 [of "length json"]
  by (simp add: check_status_def EncodeString_def Let_def Suc_le_eq)

lemma ReadPacket_Build_large:
  assumes "sint m < int (length (WriteVarInt pid @ concat fs))" and "0 < sint m" and "length (WriteVarInt pid @ concat fs) < 2 ^ 31"
  shows "fst (ReadPacket (r\<lparr>rdata := BuildPacket pid fs @ s\<rparr>) m) = Inl [ErrPacketTooLarge]"
proof -
  let ?p = "WriteVarInt pid @ concat fs"
  let ?n = "of_nat (length ?p) :: int32"
  have n: "sint ?n = int (length ?p)" by (rule sint_of_nat_int32 [OF assms(3)])
  have B: "BuildPacket pid fs @ s = WriteVarInt ?n @ ?p @ s"
    by (subst BuildPacket_concat) (simp add: BuildPacket_single)
  have V: "ReadVarInt (r\<lparr>rdata := BuildPacket pid fs @ s\<rparr>) = (Inr ?n, WriteVarInt ?n, r\<lparr>rdata := ?p @ s\<rparr>)"
    unfolding B by (rule ReadVarInt_Write)
  have "ReadPacket (r\<lparr>rdata := BuildPacket pid fs @ s\<rparr>) m = (Inl [ErrPacketTooLarge], r\<lparr>rdata := ?p @ s\<rparr>)"
    by (rule ReadPacket_too_large [OF V _ assms(2)]) (unfold n, rule assms(1))
  then show ?thesis by simp
qed

definition acknowledged :: "(string \<times> bool \<times> bool) list \<Rightarrow> string \<Rightarrow> bool list" where
  \<comment> \<open>the states of a backend that the companion has accepted, in order\<close>
  "acknowledged ns i = map (\<lambda>(_, online, _). online) (filter (\<lambda>(j, _, accepted). j = i \<and> accepted) ns)"

definition told :: "(string \<times> bool \<times> bool) list \<Rightarrow> string \<Rightarrow> bool option" where
  "told ns i = (if acknowledged ns i = [] then None else Some (last (acknowledged ns i)))"

definition reports_changes :: "(string, bool) gomap \<Rightarrow> (string \<times> bool \<times> bool) list \<Rightarrow> bool" where
  "reports_changes sent ns \<longleftrightarrow> (\<forall>i. gm_get sent i = told ns i \<and> distinct_adj (acknowledged ns i))"

lemma acknowledged_snoc:
  "acknowledged (ns @ [(j, online, accepted)]) i = acknowledged ns i @ (if j = i \<and> accepted then [online] else [])"
  by (simp add: acknowledged_def)

lemma reports_changes_snoc:
  assumes "reports_changes sent ns" and "gm_get sent j \<noteq> Some online"
  shows "reports_changes (gm_set sent j online) (ns @ [(j, online, True)])" and "reports_changes sent (ns @ [(j, online, False)])"
proof -
  have "distinct_adj (acknowledged ns j @ [online])"
    using assms by (auto simp: reports_changes_def told_def distinct_adj_append_iff split: if_splits)
  then show "reports_changes (gm_set sent j online) (ns @ [(j, online, True)])"
    using assms(1) by (auto simp: reports_changes_def told_def acknowledged_snoc)
  show "reports_changes sent (ns @ [(j, online, False)])" using assms(1) by (simp add: reports_changes_def told_def acknowledged_snoc)
qed

lemma checkAll_loop_changes:
  "reports_changes (moSent m) ns \<Longrightarrow> checkAll_loop probe http bs m ns = (m', ns') \<Longrightarrow> reports_changes (moSent m') ns' \<and> moCfg m' = moCfg m"
proof (induction bs arbitrary: m ns)
  case (Cons b bs)
  let ?online = "probe b = None"
  show ?case
  proof (cases "gm_get (moSent m) (abID b) = Some ?online")
    case True
    with Cons show ?thesis by (simp add: Let_def)
  next
    case False
    note c = reports_changes_snoc [OF Cons.prems(1) False]
    show ?thesis
    proof (cases "notify http m (abID b) ?online")
      case None
      with False Cons.prems(2) have "checkAll_loop probe http bs (m\<lparr>moSent := gm_set (moSent m) (abID b) ?online\<rparr>) (ns @ [(abID b, ?online, True)]) = (m', ns')"
        by (simp add: Let_def)
      from Cons.IH [OF _ this] c(1) show ?thesis by simp
    next
      case (Some err)
      with False Cons.prems(2) have "checkAll_loop probe http bs m (ns @ [(abID b, ?online, False)]) = (m', ns')" by (simp add: Let_def)
      from Cons.IH [OF c(2) this] show ?thesis .
    qed
  qed
qed simp

lemma checkAll_loop_append:
  "checkAll_loop probe http bs m ns = (case checkAll_loop probe http bs m [] of (m', ns') \<Rightarrow> (m', ns @ ns'))"
proof (induction bs arbitrary: m ns)
  case (Cons b bs)
  show ?case
    using Cons [of m "ns @ _"] Cons [of _ "ns @ [_]"] Cons [of _ "[_]"] Cons [of m ns]
    by (auto simp: Let_def split: option.split prod.splits)
qed simp

lemma monitor_run_changes:
  "reports_changes (moSent m) ns \<Longrightarrow> monitor_run rounds m = (m', ns') \<Longrightarrow> reports_changes (moSent m') (ns @ ns') \<and> moCfg m' = moCfg m"
proof (induction rounds arbitrary: m m' ns ns')
  case (Cons r rounds)
  obtain probe http where r: "r = (probe, http)" by (cases r)
  obtain m1 n1 where c: "checkAll probe http m = (m1, n1)" by (cases "checkAll probe http m")
  then have "checkAll_loop probe http (avBackends (moCfg m)) m ns = (m1, ns @ n1)"
    using checkAll_loop_append [of probe http "avBackends (moCfg m)" m ns] by (simp add: checkAll_def)
  from checkAll_loop_changes [OF Cons.prems(1) this]
  have 1: "reports_changes (moSent m1) (ns @ n1)" "moCfg m1 = moCfg m" by simp_all
  obtain m2 n2 where d: "monitor_run rounds m1 = (m2, n2)" by (cases "monitor_run rounds m1")
  from Cons.IH [OF 1(1) d] 1(2) Cons.prems(2) show ?case by (simp add: r c d)
qed simp

lemma checkAll_loop_other:
  assumes "abID b \<notin> abID ` set bs"
  shows "gm_get (moSent (fst (checkAll_loop probe http bs m ns))) (abID b) = gm_get (moSent m) (abID b)"
    and "acknowledged (snd (checkAll_loop probe http bs m ns)) (abID b) = acknowledged ns (abID b)"
  using assms by (induction bs arbitrary: m ns) (auto simp: Let_def acknowledged_snoc split: option.split)

lemma notify_sent [simp]: "notify http (m\<lparr>moSent := s\<rparr>) i online = notify http m i online"
  by (simp add: notify_def availability_request_def Let_def)

lemma checkAll_loop_result:
  assumes "distinct (map abID bs)" and "b \<in> set bs"
  shows "gm_get (moSent (fst (checkAll_loop probe http bs m ns))) (abID b) =
     (if notify http m (abID b) (probe b = None) = None then Some (probe b = None) else gm_get (moSent m) (abID b))" (is "?sent bs m ns")
    and "acknowledged (snd (checkAll_loop probe http bs m ns)) (abID b) = acknowledged ns (abID b) @
     (if notify http m (abID b) (probe b = None) = None \<and> gm_get (moSent m) (abID b) \<noteq> Some (probe b = None)
      then [probe b = None] else [])" (is "?acks bs m ns")
proof -
  have "?sent bs m ns \<and> ?acks bs m ns"
    using assms
  proof (induction bs arbitrary: m ns)
    case (Cons c bs)
    show ?case
    proof (cases "c = b")
      case True
      have "abID b \<notin> abID ` set bs" using Cons.prems(1) True by auto
      note o = checkAll_loop_other [OF this]
      show ?thesis unfolding True by (auto simp: Let_def o acknowledged_snoc split: option.split)
    next
      case False
      then have b: "b \<in> set bs" "distinct (map abID bs)" using Cons.prems by auto
      then have "abID c \<noteq> abID b" using Cons.prems(1) by (metis distinct.simps(2) image_eqI list.set_map list.simps(9))
      then show ?thesis by (auto simp: Let_def Cons.IH [OF b(2,1)] acknowledged_snoc split: option.split)
    qed
  qed simp
  then show "?sent bs m ns" and "?acks bs m ns" by simp_all
qed

lemma validateAvailability_distinct:
  "validateAvailability_backends bs seen = None \<Longrightarrow> distinct (map abID bs) \<and> abID ` set bs \<inter> set seen = {}"
  by (induction bs seen rule: validateAvailability_backends.induct) (auto split: if_splits option.splits sum.splits)

section \<open>Properties\<close>

text \<open>C30: a probe. To a backend that can be dialled and written to, the probe sends bytes that a server reading with the default limits takes for
  a status handshake with the configured server address and the backend's port, followed by a status request. A backend that
  answers with a status response is online exactly when the response is valid JSON and the packet has at most 2048 bytes, the
  limit for handshakes: a larger response, as with an icon, counts as offline.\<close>

theorem probe_exchange:
  assumes "SplitHostPort address = Inr (host, portRaw)" and "ParseUint16 portRaw = Some port"
    and "peDial pe address = Inr (conn\<lparr>rdata := BuildPacket StatusResponsePacketID [EncodeString json] @ rest\<rparr>)"
    and "\<forall>b. peWrite pe b = None" and "handshake_wf DefaultLimits (probe_handshake serverAddress port)"
    and "json \<noteq> []" and "length json < 2 ^ 30"
  shows "case Probe pe address serverAddress of (err, sent) \<Rightarrow>
    (err = None \<longleftrightarrow> peValidJSON pe (bytes_of json) \<and> length (WriteVarInt StatusResponsePacketID @ EncodeString json) \<le> 2048) \<and>
    (\<exists>raw r1. ReadHandshake (bytes_NewReader sent) DefaultLimits = (Inr (probe_handshake serverAddress port), raw, r1) \<and>
       ReadPacket r1 2048 = (Inr (StatusRequestPacketID, []), bytes_NewReader []))"
proof -
  let ?h = "probe_handshake serverAddress port" and ?sent = "probe_request serverAddress port"
  let ?p = "WriteVarInt StatusResponsePacketID @ EncodeString json"
  let ?read = "ReadPacket (conn\<lparr>rdata := BuildPacket StatusResponsePacketID [EncodeString json] @ rest\<rparr>) 2048"
  have len: "length ?p < 2 ^ 31"
    using assms(7) WriteVarInt_length(2) [of StatusResponsePacketID] WriteVarInt_length(2) [of "of_nat (length json)"]
    by (simp add: EncodeString_def Let_def MaxVarIntBytes_def)
  have probe: "Probe pe address serverAddress = (check_status (peValidJSON pe) (fst ?read), ?sent)"
    using assms(1-4) by (simp add: Probe_def DefaultLimits_def)
  have "check_status (peValidJSON pe) (fst ?read) = None \<longleftrightarrow> peValidJSON pe (bytes_of json) \<and> length ?p \<le> 2048"
  proof (cases "length ?p \<le> 2048")
    case True
    then have "fst ?read = Inr (StatusResponsePacketID, EncodeString json)"
      using ReadPacket_Build [of StatusResponsePacketID "[EncodeString json]" 2048 rest conn] by simp
    with True assms(6,7) check_status_Encode [of json "peValidJSON pe"] show ?thesis by simp
  next
    case False
    then have "fst ?read = Inl [ErrPacketTooLarge]"
      using ReadPacket_Build_large [of 2048 StatusResponsePacketID "[EncodeString json]" rest conn] len by simp
    with False show ?thesis by (simp add: check_status_def)
  qed
  moreover have "\<exists>raw r1. ReadHandshake (bytes_NewReader ?sent) DefaultLimits = (Inr ?h, raw, r1) \<and>
      ReadPacket r1 2048 = (Inr (StatusRequestPacketID, []), bytes_NewReader [])"
  proof -
    have "length serverAddress \<le> 255" using assms(5) by (simp add: handshake_wf_def effective_def DefaultLimits_def)
    then have "int (length (WriteVarInt HandshakePacketID @ handshake_fields ?h)) \<le> sint (MaxPacketLength (effective DefaultLimits))"
      using WriteVarInt_length(2) [of HandshakePacketID] WriteVarInt_length(2) [of statusProtocolVersion] WriteVarInt_length(2) [of NextStateStatus]
        WriteVarInt_length(2) [of "of_nat (length serverAddress)"]
      by (simp add: handshake_fields_def EncodeString_def PutUint16_def effective_def DefaultLimits_def MaxVarIntBytes_def Let_def)
    from ReadHandshake_fields [OF assms(5) this, where r = "bytes_NewReader []" and s = "BuildPacket StatusRequestPacketID []"]
    have "ReadHandshake (bytes_NewReader ?sent) DefaultLimits =
        (Inr ?h, BuildPacket HandshakePacketID [handshake_fields ?h], bytes_NewReader (BuildPacket StatusRequestPacketID []))"
      by (simp add: probe_request_packets bytes_NewReader_def)
    moreover have "ReadPacket (bytes_NewReader (BuildPacket StatusRequestPacketID [])) 2048 = (Inr (StatusRequestPacketID, []), bytes_NewReader [])"
      using ReadPacket_Build [of StatusRequestPacketID "[]" 2048 "[]" "bytes_NewReader []"] WriteVarInt_length(2) [of StatusRequestPacketID]
      by (simp add: bytes_NewReader_def MaxVarIntBytes_def)
    ultimately show ?thesis by blast
  qed
  ultimately show ?thesis by (simp add: probe)
qed

definition sample_probe_env :: probe_env where
  "sample_probe_env =
     \<lparr>peDial = (\<lambda>_. Inr (bytes_NewReader (BuildPacket StatusResponsePacketID [EncodeString ''{}'']))), peWrite = (\<lambda>_. None), peValidJSON = (\<lambda>_. True)\<rparr>"

theorem probe_exchange_witness:
  "fst (Probe sample_probe_env ''lobby:25565'' ''lobby'') = None"
proof -
  have d: "dns_name ''lobby''" by code_simp
  have "utf8_Valid (bytes_of ''lobby'')" by code_simp
  moreover have "TrimSpace ''lobby'' = ''lobby''" by (rule TrimSpace_plain) code_simp+
  ultimately have wf: "handshake_wf DefaultLimits (probe_handshake ''lobby'' 25565)"
    using dns_name_canonical(1) [OF d] by (simp add: handshake_wf_def effective_def DefaultLimits_def is_ok_def NextStateStatus_def)
  have "all_digits ''25565''" by code_simp
  then have "ParseUint16 ''25565'' = Some 25565" by (simp add: ParseUint16_def decimal_def digit_val_def)
  moreover have "SplitHostPort ''lobby:25565'' = Inr (''lobby'', ''25565'')" by code_simp
  ultimately have split: "SplitHostPort ''lobby:25565'' = Inr (''lobby'', ''25565'')" "ParseUint16 ''25565'' = Some 25565" by simp_all
  have "length (WriteVarInt StatusResponsePacketID @ EncodeString ''{}'') \<le> 2048"
    using WriteVarInt_length(2) [of StatusResponsePacketID] WriteVarInt_length(2) [of 2]
    by (simp add: EncodeString_def Let_def MaxVarIntBytes_def)
  moreover have "peDial sample_probe_env ''lobby:25565'' =
      Inr ((bytes_NewReader [])\<lparr>rdata := BuildPacket StatusResponsePacketID [EncodeString ''{}''] @ []\<rparr>)"
    unfolding sample_probe_env_def bytes_NewReader_def by simp
  moreover have "\<forall>b. peWrite sample_probe_env b = None" "peValidJSON sample_probe_env (bytes_of ''{}'')"
    unfolding sample_probe_env_def by simp_all
  ultimately show ?thesis
    using probe_exchange [OF split _ _ wf, where pe = sample_probe_env and conn = "bytes_NewReader []" and json = "''{}''" and rest = "[]"] by (simp add: case_prod_beta)
qed

text \<open>C25: availability reports. Over any number of rounds, whatever the probes and notifications answer, the monitor's record of a backend is
  the last state the companion accepted for it, and the companion is never told the same state twice in a row. In the next round
  the companion has the probed state of every backend whose notification it would accept, and is only notified of changes; a failed
  notification is made again.\<close>

theorem availability_reports:
  assumes "monitor_Start getenv cfg = Inr (Some m0)" and "validateAvailability v cfg = None"
    and "monitor_run rounds m0 = (m, ns)" and "b \<in> set (avBackends cfg)"
  shows "gm_get (moSent m) i = told ns i \<and> distinct_adj (acknowledged ns i) \<and>
    gm_get (moSent (fst (checkAll probe http m))) (abID b) =
      (if notify http m (abID b) (probe b = None) = None then Some (probe b = None) else told ns (abID b)) \<and>
    acknowledged (snd (checkAll probe http m)) (abID b) =
      (if notify http m (abID b) (probe b = None) = None \<and> told ns (abID b) \<noteq> Some (probe b = None) then [probe b = None] else [])"
proof -
  have m0: "avEnabled cfg" "moCfg m0 = cfg" "moSent m0 = []"
    using assms(1) by (auto simp: monitor_Start_def Let_def split: if_splits)
  have "distinct (map abID (avBackends cfg))"
    using assms(2) m0(1) validateAvailability_distinct by (auto simp: validateAvailability_def split: if_splits)
  moreover have "reports_changes (moSent m0) []" by (simp add: reports_changes_def m0 told_def acknowledged_def)
  from monitor_run_changes [OF this assms(3)] have "reports_changes (moSent m) ns" and cfg: "moCfg m = cfg" by (simp_all add: m0)
  then have r: "gm_get (moSent m) j = told ns j \<and> distinct_adj (acknowledged ns j)" for j by (simp add: reports_changes_def)
  ultimately show ?thesis
    using checkAll_loop_result [of "avBackends cfg" b probe http m "[]"] assms(4) by (simp add: checkAll_def cfg r acknowledged_def)
qed

definition sample_availability :: Availability where
  "sample_availability = \<lparr>avEnabled = True, avInterval = Second, avTimeout = Second, avControlURL = ''http://c'', avTokenEnv = ''T'',
     avBackends = [\<lparr>abID = ''lobby'', abAddress = ''lobby:24454'', abServerAddress = ''lobby''\<rparr>]\<rparr>"

definition sample_http :: http_client where
  "sample_http = \<lparr>hcCheckURL = (\<lambda>_. None), hcDo = (\<lambda>_. Inr 204)\<rparr>"

theorem availability_reports_witness:
  "let m = \<lparr>moCfg = sample_availability, moToken = ''t'', moSent = []\<rparr>;
       round = (\<lambda>_. None, sample_http) in
   acknowledged (snd (checkAll (\<lambda>_. Some [Msg ''down'']) sample_http (fst (monitor_run [round, round] m)))) ''lobby'' = [False] \<and>
   acknowledged (snd (checkAll (\<lambda>_. None) sample_http (fst (monitor_run [round, round] m)))) ''lobby'' = []"
proof -
  let ?m = "\<lparr>moCfg = sample_availability, moToken = ''t'', moSent = []\<rparr>"
  let ?v = "\<lparr>Getenv = (\<lambda>_. ''t''), ResolveUDPAddr = (\<lambda>_. None), ResolveTCPAddr = (\<lambda>_. None), ParseRequestURI = (\<lambda>_. Inr (''http'', ''c''))\<rparr>"
  let ?round = "(\<lambda>_. None, sample_http) :: (AvailabilityBackend \<Rightarrow> error option) \<times> http_client"
  have plain: "TrimSpace ''t'' = ''t''" "TrimSpace ''T'' = ''T''" by (rule TrimSpace_plain, simp add: plain_char_def)+
  then have start: "monitor_Start (\<lambda>_. ''t'') sample_availability = Inr (Some ?m)"
    by (simp add: monitor_Start_def sample_availability_def)
  have d: "dns_name ''lobby''" "isDNSLabel ''lobby''" by code_simp+
  have "all_digits ''24454''" by code_simp
  moreover have "decimal ''24454'' = 24454" by (simp add: decimal_def digit_val_def)
  moreover have "JoinHostPort ''lobby'' ''24454'' = ''lobby:24454''" by (simp add: JoinHostPort_def)
  ultimately have "validateBackend ''lobby:24454'' = None"
    using validateBackend_host_port [OF d(1), of "''24454''"] by simp
  then have valid: "validateAvailability ?v sample_availability = None"
    by (simp add: validateAvailability_def sample_availability_def durations plain valid_http_url_def d(2) dns_name_canonical(1) [OF d(1)])
  have notify: "notify sample_http m i online = None" for m i online by (simp add: notify_def sample_http_def Let_def)
  have run: "monitor_run [?round, ?round] ?m =
      (?m\<lparr>moSent := [(''lobby'', True)]\<rparr>, [(''lobby'', True, True)])"
    by (simp add: checkAll_def sample_availability_def notify Let_def)
  have b: "\<lparr>abID = ''lobby'', abAddress = ''lobby:24454'', abServerAddress = ''lobby''\<rparr> \<in> set (avBackends sample_availability)"
    by (simp add: sample_availability_def)
  have told: "told [(''lobby'', True, True)] ''lobby'' = Some True" by (simp add: told_def acknowledged_def)
  show ?thesis
    using availability_reports [OF start valid run b, of "''lobby''" "\<lambda>_. Some [Msg ''down'']" sample_http]
      availability_reports [OF start valid run b, of "''lobby''" "\<lambda>_. None" sample_http]
    unfolding Let_def run by (simp add: notify told)
qed

end
