(* ===== verification/Configwatch.thy ===== *)
theory Configwatch
  imports Prelude
begin

text \<open>
  The watcher of the configuration file, \<open>internal/configwatch/watcher.go\<close>: its paths, its loop with the
  debounce timer, and when it reloads. The file system's notifications, the content of the file over time,
  the hash and what the reload answers are arguments.
\<close>

section \<open>Paths\<close>

text \<open>The lexical functions of \<open>path/filepath\<close> on Unix.\<close>

definition clean_step :: "bool \<Rightarrow> string list \<Rightarrow> string \<Rightarrow> string list" where
  "clean_step rooted out p =
     (if p = '''' \<or> p = ''.'' then out
      else if p = ''..'' then (if out \<noteq> [] \<and> last out \<noteq> ''..'' then butlast out else if rooted then out else out @ [p])
      else out @ [p])"

definition slashes :: "string list \<Rightarrow> string" where
  "slashes out = concat (map (\<lambda>p. CHR ''/'' # p) out)"

definition IsAbs :: "string \<Rightarrow> bool" where
  "IsAbs path \<longleftrightarrow> path \<noteq> '''' \<and> hd path = CHR ''/''"

definition Clean :: "string \<Rightarrow> string" where
  "Clean path =
     (let out = foldl (clean_step (IsAbs path)) [] (Split path (CHR ''/'')) in
      if IsAbs path then (if out = [] then ''/'' else slashes out)
      else if out = [] then ''.'' else tl (slashes out))"

definition Dir :: "string \<Rightarrow> string" where
  "Dir path = Clean (case LastIndexByte path (CHR ''/'') of None \<Rightarrow> '''' | Some i \<Rightarrow> take (Suc i) path)"

definition Base :: "string \<Rightarrow> string" where
  "Base path =
     (if path = '''' then ''.''
      else let stripped = TrimRight1 path (CHR ''/'');
               name = (case LastIndexByte stripped (CHR ''/'') of None \<Rightarrow> stripped | Some i \<Rightarrow> drop (Suc i) stripped)
        in if name = '''' then ''/'' else name)"

definition Abs :: "string result \<Rightarrow> string \<Rightarrow> string result" where
  \<comment> \<open>the first argument is what \<open>os.Getwd\<close> answers\<close>
  "Abs wd path =
     (if IsAbs path then Inr (Clean path)
      else (case wd of Inl e \<Rightarrow> Inl e | Inr d \<Rightarrow> Inr (Clean (if d = '''' then path else d @ ''/'' @ path))))"

section \<open>The watcher\<close>

record resolvedPath =
  rpPath :: string
  rpDir :: string
  rpFileName :: string

definition absolutePath :: "string result \<Rightarrow> string \<Rightarrow> resolvedPath result" where
  "absolutePath wd path =
     (case Abs wd path of
        Inl err \<Rightarrow> Inl (Msg ''resolve config watch path'' # err)
      | Inr absPath \<Rightarrow> Inr \<lparr>rpPath = absPath, rpDir = Dir absPath, rpFileName = Base absPath\<rparr>)"

record Watcher =
  wPath :: string
  wFileName :: string
  wDir :: string
  wDebounce :: int

text \<open>
  The world of a watcher: what \<open>os.ReadFile\<close> answers at a time, the hash, what the reload answers at a time, and
  whether a file system watcher can be made and a directory added to it.
\<close>

record watch_env =
  wvRead :: "int \<Rightarrow> string \<Rightarrow> bytes result"
  wvSum256 :: "bytes \<Rightarrow> bytes"
  wvReload :: "int \<Rightarrow> string \<Rightarrow> error option"
  wvNewWatcher :: "error option"
  wvAdd :: "string \<Rightarrow> error option"
  wvGetwd :: "string result"

definition fileDigest :: "watch_env \<Rightarrow> int \<Rightarrow> string \<Rightarrow> bytes result" where
  "fileDigest v now path =
     (case wvRead v now path of Inl err \<Rightarrow> Inl err | Inr data \<Rightarrow> Inr (wvSum256 v data))"

definition watch_Start :: "watch_env \<Rightarrow> int \<Rightarrow> string \<Rightarrow> int \<Rightarrow> bool \<Rightarrow> (Watcher \<times> bytes) result" where
  \<comment> \<open>whether there is a reload function; the answer is the watcher and the digest its loop starts with\<close>
  "watch_Start v now path debounce reload =
     (if path = '''' then Inl [Msg ''config watch path is empty'']
      else if debounce \<le> 0 then Inl [Msg ''config watch debounce must be positive'']
      else if \<not> reload then Inl [Msg ''config watch reload function is nil'']
      else (case wvNewWatcher v of
              Some err \<Rightarrow> Inl (Msg ''create config watcher'' # err)
            | None \<Rightarrow>
                (case absolutePath (wvGetwd v) path of
                   Inl err \<Rightarrow> Inl err
                 | Inr configPath \<Rightarrow>
                     (case fileDigest v now (rpPath configPath) of
                        Inl err \<Rightarrow> Inl (Msg ''read initial config watch file'' # err)
                      | Inr digest \<Rightarrow>
                          (case wvAdd v (rpDir configPath) of
                             Some err \<Rightarrow> Inl (Msg ''watch config directory'' # err)
                           | None \<Rightarrow>
                               Inr (\<lparr>wPath = rpPath configPath, wFileName = rpFileName configPath, wDir = rpDir configPath,
                                     wDebounce = debounce\<rparr>, digest))))))"

definition isConfigEvent :: "Watcher \<Rightarrow> string \<Rightarrow> bool" where
  "isConfigEvent w event =
     (if Dir event \<noteq> wDir w then False
      else let name = Base event in name = wFileName w \<or> name = ''..data'' \<or> name = ''..data_tmp'')"

text \<open>A timer is the time at which it fires; \<open>Reset\<close> after a \<open>Stop\<close> that drains the channel replaces it.\<close>

type_synonym timer = int

definition NewTimer :: "int \<Rightarrow> int \<Rightarrow> timer" where
  "NewTimer now duration = now + duration"

definition resetTimer :: "int \<Rightarrow> timer \<Rightarrow> int \<Rightarrow> timer" where
  "resetTimer now timer duration = now + duration"

text \<open>
  The cases of the loop's \<open>select\<close>: the context, an event or its closed channel, an error or its closed channel,
  and the timer, whose channel is nil without a timer and has a value once the timer has fired.
\<close>

datatype watch_case = CtxDone | Events "string option" | Errors "error option" | TimerC

record watch_state =
  wsTimer :: "timer option"
  wsDigest :: bytes
  wsReloads :: "(int \<times> string \<times> error option) list"

definition case_ready :: "int \<Rightarrow> watch_case \<Rightarrow> watch_state \<Rightarrow> bool" where
  "case_ready now c st = (case c of TimerC \<Rightarrow> (case wsTimer st of None \<Rightarrow> False | Some t \<Rightarrow> t \<le> now) | _ \<Rightarrow> True)"

definition timer_case :: "watch_env \<Rightarrow> Watcher \<Rightarrow> int \<Rightarrow> watch_state \<Rightarrow> watch_state" where
  "timer_case v w now st0 =
     (let st = st0\<lparr>wsTimer := None\<rparr> in
      case fileDigest v now (wPath w) of
        Inl err \<Rightarrow> st
      | Inr updated \<Rightarrow>
          if updated = wsDigest st then st
          else st\<lparr>wsDigest := updated, wsReloads := wsReloads st @ [(now, wPath w, wvReload v now (wPath w))]\<rparr>)"

definition watch_select :: "watch_env \<Rightarrow> Watcher \<Rightarrow> int \<Rightarrow> watch_case \<Rightarrow> watch_state \<Rightarrow> watch_state option" where
  \<comment> \<open>one iteration of the loop; nothing when it returns\<close>
  "watch_select v w now c st =
     (case c of
        CtxDone \<Rightarrow> None
      | Events None \<Rightarrow> None
      | Events (Some event) \<Rightarrow>
          if \<not> isConfigEvent w event then Some st
          else (case wsTimer st of
                  None \<Rightarrow> Some (st\<lparr>wsTimer := Some (NewTimer now (wDebounce w))\<rparr>)
                | Some timer \<Rightarrow> Some (st\<lparr>wsTimer := Some (resetTimer now timer (wDebounce w))\<rparr>))
      | Errors None \<Rightarrow> None
      | Errors (Some err) \<Rightarrow> Some st
      | TimerC \<Rightarrow> Some (timer_case v w now st))"

definition config_event :: "Watcher \<Rightarrow> watch_case \<Rightarrow> bool" where
  "config_event w c = (case c of Events (Some event) \<Rightarrow> isConfigEvent w event | _ \<Rightarrow> False)"

text \<open>
  The states of a running watcher, with the time and the times of the configuration events so far: the
  cases come in any order in which they are ready.
\<close>

inductive watching :: "watch_env \<Rightarrow> Watcher \<Rightarrow> bytes \<Rightarrow> int \<Rightarrow> int list \<Rightarrow> watch_state \<Rightarrow> bool"
  for v :: watch_env and w :: Watcher and digest :: bytes where
  begin_run: "watching v w digest now [] \<lparr>wsTimer = None, wsDigest = digest, wsReloads = []\<rparr>"
| iterate: "watching v w digest now' (if config_event w c then events @ [now'] else events) st'"
    if "watching v w digest now events st" and "now \<le> now'" and "case_ready now' c st" and "watch_select v w now' c st = Some st'"

section \<open>Lemmas on paths\<close>

definition path_name :: "string \<Rightarrow> bool" where
  "path_name p \<longleftrightarrow> p \<noteq> '''' \<and> p \<noteq> ''.'' \<and> p \<noteq> ''..'' \<and> CHR ''/'' \<notin> set p"

lemma clean_step_names:
  "list_all path_name out \<Longrightarrow> CHR ''/'' \<notin> set p \<Longrightarrow> list_all path_name (clean_step True out p)"
  by (auto simp: clean_step_def path_name_def list_all_iff dest: in_set_butlastD)

lemma clean_fold_names:
  "list_all path_name out \<Longrightarrow> \<forall>p \<in> set ps. CHR ''/'' \<notin> set p \<Longrightarrow> list_all path_name (foldl (clean_step True) out ps)"
  by (induction ps arbitrary: out) (simp_all add: clean_step_names)

lemma clean_fold_same: "list_all path_name ps \<Longrightarrow> foldl (clean_step True) out ps = out @ ps"
  by (induction ps arbitrary: out) (simp_all add: clean_step_def path_name_def)

lemma Split_slashes: "list_all path_name out \<Longrightarrow> CHR ''/'' \<notin> set q \<Longrightarrow> Split (q @ slashes out) (CHR ''/'') = q # out"
  by (induction out arbitrary: q) (simp_all add: slashes_def Split_append path_name_def)

lemma Clean_rooted:
  assumes "IsAbs path"
  obtains "Clean path = ''/''" | out where "list_all path_name out" "out \<noteq> []" "Clean path = slashes out"
proof -
  have "list_all path_name (foldl (clean_step True) [] (Split path (CHR ''/'')))"
    by (rule clean_fold_names) (auto dest: Split_parts_no_sep)
  then show thesis
    using assms that(1) that(2) [of "foldl (clean_step True) [] (Split path (CHR ''/''))"]
    by (cases "foldl (clean_step True) [] (Split path (CHR ''/'')) = []") (simp_all add: Clean_def)
qed

lemma IsAbs_Clean: "IsAbs path \<Longrightarrow> IsAbs (Clean path)"
proof (erule Clean_rooted)
  fix out assume "out \<noteq> []" "Clean path = slashes out"
  then show "IsAbs (Clean path)" by (cases out) (simp_all add: IsAbs_def slashes_def)
qed (simp add: IsAbs_def)

lemma Clean_slash: "IsAbs path \<Longrightarrow> Clean (Clean path @ ''/'') = Clean path"
proof (erule Clean_rooted)
  fix out assume out: "list_all path_name out" "out \<noteq> []" "Clean path = slashes out"
  then have "Split (Clean path @ ''/'') (CHR ''/'') = '''' # out @ ['''']"
    using Split_append_sep [of "Clean path" "CHR ''/''" "''''"] Split_slashes [OF out(1), of "''''"] by simp
  moreover have "IsAbs (Clean path @ ''/'')" using out by (cases out) (simp_all add: IsAbs_def slashes_def)
  ultimately show "Clean (Clean path @ ''/'') = Clean path"
    using out clean_fold_same [OF out(1), of "[]"] by (simp add: Clean_def [of "slashes out @ ''/''"] clean_step_def)
next
  assume "Clean path = ''/''"
  moreover have "Clean ''//'' = ''/''" by (simp add: Clean_def IsAbs_def clean_step_def)
  ultimately show "Clean (Clean path @ ''/'') = Clean path" by simp
qed

lemma Dir_child: "IsAbs d \<Longrightarrow> CHR ''/'' \<notin> set n \<Longrightarrow> Dir (Clean d @ ''/'' @ n) = Clean d"
  using LastIndexByte_append [of "CHR ''/''" n "Clean d"] Clean_slash [of d] by (simp add: Dir_def)

lemma Base_child:
  assumes "CHR ''/'' \<notin> set n" and "n \<noteq> ''''"
  shows "Base (d @ ''/'' @ n) = n"
proof -
  have "last n \<noteq> CHR ''/''" using assms last_in_set by metis
  then show ?thesis
    using assms LastIndexByte_append [of "CHR ''/''" n d] TrimRight1.simps [of "d @ ''/'' @ n" "CHR ''/''"] by (simp add: Base_def)
qed

lemma Dir_Clean:
  assumes "IsAbs path"
  shows "\<exists>d. IsAbs d \<and> Dir (Clean path) = Clean d"
proof -
  obtain i where i: "LastIndexByte (Clean path) (CHR ''/'') = Some i"
    using IsAbs_Clean [OF assms] LastIndexByte_None [of "Clean path" "CHR ''/''"] by (cases "Clean path") (auto simp: IsAbs_def)
  have "IsAbs (take (Suc i) (Clean path))" using IsAbs_Clean [OF assms] by (cases "Clean path") (simp_all add: IsAbs_def)
  then show ?thesis by (auto simp: Dir_def i)
qed

text \<open>
  Of what the directory holds, the events on three names count: the file itself and the two links that
  Kubernetes swaps when it updates a mounted ConfigMap.
\<close>

lemma isConfigEvent_child:
  assumes "watch_Start v now path debounce True = Inr (w, digest)" and "\<And>d. wvGetwd v = Inr d \<Longrightarrow> IsAbs d"
    and "CHR ''/'' \<notin> set n" and "n \<noteq> ''''"
  shows "isConfigEvent w (wDir w @ ''/'' @ n) \<longleftrightarrow> n = wFileName w \<or> n = ''..data'' \<or> n = ''..data_tmp''"
proof -
  obtain a where a: "Abs (wvGetwd v) path = Inr a" and w: "wDir w = Dir a"
    using assms(1) by (auto simp: watch_Start_def absolutePath_def split: if_splits option.splits sum.splits)
  have "\<exists>q. IsAbs q \<and> a = Clean q"
  proof (cases "IsAbs path")
    case False
    with a obtain d where d: "wvGetwd v = Inr d" "a = Clean (if d = '''' then path else d @ ''/'' @ path)"
      by (auto simp: Abs_def split: sum.splits)
    then have "d \<noteq> ''''" "IsAbs (d @ ''/'' @ path)" using assms(2) [OF d(1)] by (auto simp: IsAbs_def)
    with d(2) show ?thesis by auto
  qed (use a in \<open>auto simp: Abs_def\<close>)
  then obtain d where "IsAbs d" "Dir a = Clean d" using Dir_Clean by blast
  then show ?thesis using Dir_child [of d n] Base_child [OF assms(3,4)] assms(3) by (simp add: isConfigEvent_def w Let_def)
qed

section \<open>Lemmas on runs\<close>

definition reload_digests :: "watch_env \<Rightarrow> watch_state \<Rightarrow> bytes list" where
  "reload_digests v st = map (\<lambda>(t, path, _). projr (fileDigest v t path)) (wsReloads st)"

definition settled :: "watch_env \<Rightarrow> Watcher \<Rightarrow> int \<Rightarrow> int list \<Rightarrow> watch_state \<Rightarrow> bool" where
  \<comment> \<open>a pending timer is that of the last event; without one, the file has been read since\<close>
  "settled v w now events st \<longleftrightarrow>
     (case wsTimer st of
        Some t \<Rightarrow> events \<noteq> [] \<and> t = last events + wDebounce w
      | None \<Rightarrow> events = [] \<or>
          (\<exists>f. last events + wDebounce w \<le> f \<and> f \<le> now \<and>
             (case fileDigest v f (wPath w) of Inl _ \<Rightarrow> True | Inr d \<Rightarrow> wsDigest st = d)))"

definition debounced :: "watch_env \<Rightarrow> Watcher \<Rightarrow> int list \<Rightarrow> int \<times> string \<times> error option \<Rightarrow> bool" where
  "debounced v w events = (\<lambda>(t, path, err).
     path = wPath w \<and> err = wvReload v t path \<and> is_ok (fileDigest v t path) \<and>
     (\<exists>e \<in> set events. e + wDebounce w \<le> t \<and> (\<forall>e' \<in> set events. e' \<le> e \<or> t \<le> e')))"

lemma watching_times:
  "watching v w digest now events st \<Longrightarrow> (\<forall>e \<in> set events. e \<le> now) \<and> sorted events \<and> (\<forall>(t, _) \<in> set (wsReloads st). t \<le> now)"
  by (induction rule: watching.induct)
    (fastforce simp: watch_select_def timer_case_def Let_def sorted_append config_event_def split: watch_case.splits option.splits if_splits sum.splits)+

lemma watching_settled: "watching v w digest now events st \<Longrightarrow> settled v w now events st"
proof (induction rule: watching.induct)
  case (iterate now events st now' c st')
  show ?case
  proof (cases c)
    case TimerC
    with iterate show ?thesis
      by (auto simp: settled_def watch_select_def timer_case_def Let_def config_event_def case_ready_def split: option.splits sum.splits if_splits)
  qed (use iterate in \<open>fastforce simp: settled_def watch_select_def config_event_def NewTimer_def resetTimer_def split: option.splits if_splits\<close>)+
qed (simp add: settled_def)

lemma watching_chain:
  "watching v w digest now events st \<Longrightarrow>
     distinct_adj (digest # reload_digests v st) \<and> last (digest # reload_digests v st) = wsDigest st"
proof (induction rule: watching.induct)
  case (iterate now events st now' c st')
  then show ?case
    by (cases c) (auto simp: watch_select_def timer_case_def reload_digests_def Let_def distinct_adj_Cons distinct_adj_append_iff split: option.splits if_splits sum.splits list.splits)
qed (simp add: reload_digests_def)

lemma debounced_more:
  assumes "debounced v w events r" and "fst r \<le> now"
  shows "debounced v w (events @ [now]) r"
  using assms by (auto simp: debounced_def)

lemma watching_debounced:
  assumes "watching v w digest now events st"
  shows "\<forall>r \<in> set (wsReloads st). debounced v w events r"
  using assms
proof (induction rule: watching.induct)
  case (iterate now events st now' c st')
  note times = watching_times [OF iterate.hyps(1)] and settled = watching_settled [OF iterate.hyps(1)]
  show ?case
  proof (cases c)
    case TimerC
    with iterate.hyps(3) obtain t where t: "wsTimer st = Some t" "t \<le> now'" by (auto simp: case_ready_def split: option.splits)
    with settled have e: "events \<noteq> []" "last events + wDebounce w \<le> now'" by (auto simp: settled_def)
    have "\<forall>e' \<in> set events. e' \<le> last events"
      using times sorted_append [of "butlast events" "[last events]"] e(1) by (metis Un_iff append_butlast_last_id empty_iff empty_set insert_iff list.simps(15) order_refl set_append)
    then have "\<exists>e \<in> set events. e + wDebounce w \<le> now' \<and> (\<forall>e' \<in> set events. e' \<le> e \<or> now' \<le> e')" using e by (auto intro!: bexI [of _ "last events"])
    then show ?thesis
      using iterate TimerC by (auto simp: watch_select_def timer_case_def Let_def debounced_def config_event_def split: if_splits sum.splits)
  next
    case (Events ev)
    have "\<forall>r \<in> set (wsReloads st). fst r \<le> now'" using times iterate.hyps(2) by fastforce
    with iterate.IH have "\<forall>r \<in> set (wsReloads st). debounced v w events r \<and> debounced v w (events @ [now']) r"
      using debounced_more by blast
    with Events iterate.hyps show ?thesis by (auto simp: watch_select_def config_event_def split: option.splits if_splits)
  qed (use iterate in \<open>auto simp: watch_select_def config_event_def split: option.splits\<close>)
qed simp

section \<open>Properties\<close>

text \<open>C22: when the watcher reloads. Whatever the notifications, their order and their timing, every reload is of the configured path and
  comes at least the debounce time after an event on the file with no event in between, and only when the content has
  another digest than the one before; the first digest is that of the content at the start. This holds for failed reloads as well: a reload
  that failed is not repeated for the same content.\<close>

theorem config_watch_reloads:
  assumes "watch_Start v t0 path debounce True = Inr (w, digest)" and "watching v w digest now events st"
  shows "fileDigest v t0 (wPath w) = Inr digest \<and> 0 < wDebounce w \<and> distinct_adj (digest # reload_digests v st) \<and>
    (\<forall>(t, p, err) \<in> set (wsReloads st). p = wPath w \<and> err = wvReload v t p \<and> is_ok (fileDigest v t p) \<and>
       (\<exists>e \<in> set events. e + wDebounce w \<le> t \<and> (\<forall>e' \<in> set events. e' \<le> e \<or> t \<le> e')))"
proof -
  have "fileDigest v t0 (wPath w) = Inr digest" "0 < wDebounce w"
    using assms(1) by (auto simp: watch_Start_def split: if_splits option.splits sum.splits)
  with watching_chain [OF assms(2)] watching_debounced [OF assms(2)] show ?thesis by (auto simp: debounced_def)
qed

definition sample_watch_env :: watch_env where
  \<comment> \<open>the file changes at time 5; reloads fail\<close>
  "sample_watch_env = \<lparr>wvRead = (\<lambda>t _. Inr [if t < 5 then 1 else 2]), wvSum256 = (\<lambda>d. d),
     wvReload = (\<lambda>_ _. Some [Msg ''invalid configuration'']), wvNewWatcher = None, wvAdd = (\<lambda>_. None), wvGetwd = Inr ''/''\<rparr>"

definition sample_watcher :: Watcher where
  "sample_watcher = \<lparr>wPath = ''/etc/gw.yaml'', wFileName = ''gw.yaml'', wDir = ''/etc'', wDebounce = 10\<rparr>"

lemma sample_watch_start: "watch_Start sample_watch_env 0 ''/etc/../etc/gw.yaml'' 10 True = Inr (sample_watcher, [1])"
proof -
  have "absolutePath (Inr ''/'') ''/etc/../etc/gw.yaml'' = Inr \<lparr>rpPath = ''/etc/gw.yaml'', rpDir = ''/etc'', rpFileName = ''gw.yaml''\<rparr>"
    by code_simp
  then show ?thesis by (simp add: watch_Start_def sample_watch_env_def sample_watcher_def fileDigest_def)
qed

lemma sample_watching:
  "watching sample_watch_env sample_watcher [1] 6 [6] \<lparr>wsTimer = Some 16, wsDigest = [1], wsReloads = []\<rparr>"
  "watching sample_watch_env sample_watcher [1] 16 [6]
     \<lparr>wsTimer = None, wsDigest = [2], wsReloads = [(16, ''/etc/gw.yaml'', Some [Msg ''invalid configuration''])]\<rparr>"
proof -
  have ev: "isConfigEvent sample_watcher ''/etc/..data''" by code_simp
  show 1: "watching sample_watch_env sample_watcher [1] 6 [6] \<lparr>wsTimer = Some 16, wsDigest = [1], wsReloads = []\<rparr>"
    using watching.iterate [OF watching.begin_run [of sample_watch_env sample_watcher "[1]" 0], of 6 "Events (Some ''/etc/..data'')"] ev
    by (simp add: case_ready_def watch_select_def config_event_def NewTimer_def) (simp add: sample_watcher_def)
  show "watching sample_watch_env sample_watcher [1] 16 [6]
     \<lparr>wsTimer = None, wsDigest = [2], wsReloads = [(16, ''/etc/gw.yaml'', Some [Msg ''invalid configuration''])]\<rparr>"
    using watching.iterate [OF 1, of 16 TimerC]
    by (simp add: case_ready_def watch_select_def config_event_def timer_case_def fileDigest_def sample_watch_env_def sample_watcher_def)
qed

theorem config_watch_reloads_witness:
  "\<exists>now events st. watching sample_watch_env sample_watcher [1] now events st \<and> length (wsReloads st) = 1 \<and>
     distinct_adj ([1] # reload_digests sample_watch_env st)"
  using config_watch_reloads [OF sample_watch_start sample_watching(2)] sample_watching(2) by fastforce

text \<open>C21: changes are noticed. If the content of the file stays the same from the last event on, then either the watcher has read it since, so
  that the last content it reloaded, or started with, has the digest of this one; or the timer is pending, it fires the debounce time
  after that event, and then the content is read and reloaded unless the digest is the same.\<close>

theorem config_watch_settles:
  assumes "watching v w digest now events st" and "events \<noteq> []" and "0 \<le> wDebounce w"
    and "\<And>t. last events \<le> t \<Longrightarrow> wvRead v t (wPath w) = Inr data"
  shows "case wsTimer st of
      None \<Rightarrow> last (digest # reload_digests v st) = wvSum256 v data
    | Some timer \<Rightarrow> timer = last events + wDebounce w \<and>
        (\<forall>fires \<ge> timer. \<exists>st'. watch_select v w fires TimerC st = Some st' \<and> wsTimer st' = None \<and>
           wsReloads st' = wsReloads st @ (if last (digest # reload_digests v st) = wvSum256 v data then []
             else [(fires, wPath w, wvReload v fires (wPath w))]))"
proof (cases "wsTimer st")
  case None
  with watching_settled [OF assms(1)] assms(2) obtain f where "last events + wDebounce w \<le> f"
    "case fileDigest v f (wPath w) of Inl _ \<Rightarrow> True | Inr d \<Rightarrow> wsDigest st = d" by (auto simp: settled_def)
  with assms(3) assms(4) [of f] watching_chain [OF assms(1)] None show ?thesis by (simp add: fileDigest_def)
next
  case (Some timer)
  with watching_settled [OF assms(1)] have timer: "timer = last events + wDebounce w" by (simp add: settled_def)
  have "wsDigest st = last (digest # reload_digests v st)" using watching_chain [OF assms(1)] by simp
  with Some timer assms(3,4) show ?thesis by (auto simp: watch_select_def timer_case_def fileDigest_def Let_def)
qed

theorem config_watch_settles_witness:
  "\<exists>st'. watch_select sample_watch_env sample_watcher 20 TimerC \<lparr>wsTimer = Some 16, wsDigest = [1], wsReloads = []\<rparr> = Some st' \<and>
     map fst (wsReloads st') = [20]"
proof -
  have "\<And>t. last [6] \<le> t \<Longrightarrow> wvRead sample_watch_env t (wPath sample_watcher) = Inr [2]" by (simp add: sample_watch_env_def)
  note settles = config_watch_settles [OF sample_watching(1) _ _ this]
  have "reload_digests sample_watch_env \<lparr>wsTimer = Some 16, wsDigest = [1], wsReloads = []\<rparr> = []" "wvSum256 sample_watch_env [2] = [2]"
    "0 \<le> wDebounce sample_watcher"
    by (simp_all add: reload_digests_def sample_watch_env_def sample_watcher_def)
  with settles have "\<forall>fires \<ge> 16. \<exists>st'. watch_select sample_watch_env sample_watcher fires TimerC
      \<lparr>wsTimer = Some 16, wsDigest = [1], wsReloads = []\<rparr> = Some st' \<and>
      wsReloads st' = [(fires, wPath sample_watcher, wvReload sample_watch_env fires (wPath sample_watcher))]" by force
  from this [rule_format, of 20] show ?thesis by auto
qed

end
