(* ===== verification/Bedrockproxy.thy ===== *)
theory Bedrockproxy
  imports Bedrockroute "HOL-Library.Sublist"
begin

text \<open>
  The Bedrock host proxy, \<open>internal/bedrockproxy/proxy.go\<close>. The connections of the protocol library are
  numbered in the order in which they are accepted and dialled; of a connection the model knows whether it is closed.
  The goroutines of the proxy interleave: the critical sections of \<open>connMu\<close> and the calls on connections
  are the steps of a transition system, and the local state of a handler says which step comes next.
\<close>

section \<open>State\<close>

record proxy_Config =
  pcListen :: string
  pcDefaultBackend :: string
  pcRoutes :: "BRoute list"
  pcBackendDialTimeout :: int

text \<open>
  Where a handler is: it dials the backend for the requested address; it has a connection to the backend which is not registered
  yet; both connections are registered and it spawns or bridges; or it is about to return.
\<close>

datatype handler = Dialing string | Dialed nat | Bridging nat | Returning

record Proxy =
  pxCfg :: proxy_Config
  pxRouter :: BRouter
  pxConns :: "nat list"
  pxClosed :: bool
  pxListenerClosed :: bool
  pxClosing :: "nat list"
  pxHeap :: "bool list"
  pxHandlers :: "(nat, handler) gomap"
  pxDials :: "(string \<times> string) list"

definition Proxy_New :: "(string \<Rightarrow> error option) \<Rightarrow> proxy_Config \<Rightarrow> Proxy result" where
  \<comment> \<open>the first argument is the listener of the protocol library\<close>
  "Proxy_New listen cfg =
     (if pcBackendDialTimeout cfg \<le> 0 then Inl [Msg ''backend dial timeout must be positive'']
      else (case NewRouter (pcDefaultBackend cfg) (pcRoutes cfg) of
              Inl err \<Rightarrow> Inl err
            | Inr router \<Rightarrow>
                (case listen (pcListen cfg) of
                   Some err \<Rightarrow> Inl (Msg ''listen Bedrock host proxy'' # err)
                 | None \<Rightarrow>
                     Inr \<lparr>pxCfg = cfg, pxRouter = router, pxConns = [], pxClosed = False, pxListenerClosed = False,
                          pxClosing = [], pxHeap = [], pxHandlers = [], pxDials = []\<rparr>)))"

section \<open>Connections\<close>

definition new_conn :: "Proxy \<Rightarrow> nat \<times> Proxy" where
  "new_conn p = (length (pxHeap p), p\<lparr>pxHeap := pxHeap p @ [False]\<rparr>)"

definition conn_Close :: "nat \<Rightarrow> Proxy \<Rightarrow> Proxy" where
  "conn_Close c p = p\<lparr>pxHeap := (pxHeap p)[c := True]\<rparr>"

definition listener_Disconnect :: "nat \<Rightarrow> Proxy \<Rightarrow> Proxy" where
  \<comment> \<open>the library sends the client a message and closes its connection\<close>
  "listener_Disconnect c p = conn_Close c p"

definition registerConn :: "nat \<Rightarrow> Proxy \<Rightarrow> bool \<times> Proxy" where
  "registerConn c p = (if pxClosed p then (False, p) else (True, p\<lparr>pxConns := List.insert c (pxConns p)\<rparr>))"

definition unregisterConn :: "nat \<Rightarrow> Proxy \<Rightarrow> Proxy" where
  "unregisterConn c p = p\<lparr>pxConns := removeAll c (pxConns p)\<rparr>"

definition isClosed :: "Proxy \<Rightarrow> bool" where
  "isClosed p = pxClosed p"

section \<open>Closing\<close>

definition Proxy_Close_lock :: "Proxy \<Rightarrow> Proxy" where
  \<comment> \<open>the critical section of \<open>Close\<close>, run once: it takes down the connections to close\<close>
  "Proxy_Close_lock p = (if pxClosed p then p else p\<lparr>pxClosed := True, pxClosing := pxConns p\<rparr>)"

definition Proxy_Close_listener :: "Proxy \<Rightarrow> Proxy" where
  "Proxy_Close_listener p = p\<lparr>pxListenerClosed := True\<rparr>"

definition Proxy_Close_next :: "Proxy \<Rightarrow> Proxy" where
  "Proxy_Close_next p = (case pxClosing p of [] \<Rightarrow> p | c # cs \<Rightarrow> conn_Close c (p\<lparr>pxClosing := cs\<rparr>))"

section \<open>Handlers\<close>

definition set_handler :: "nat \<Rightarrow> handler \<Rightarrow> Proxy \<Rightarrow> Proxy" where
  "set_handler c h p = p\<lparr>pxHandlers := gm_set (pxHandlers p) c h\<rparr>"

definition Serve_accept :: "string \<Rightarrow> Proxy \<Rightarrow> Proxy" where
  \<comment> \<open>\<open>Accept\<close> has answered a connection whose client asks for an address\<close>
  "Serve_accept requestedAddress p0 =
     (case new_conn p0 of (c, p) \<Rightarrow>
        (case registerConn c p of
           (False, p1) \<Rightarrow> conn_Close c p1
         | (True, p1) \<Rightarrow> set_handler c (Dialing requestedAddress) p1))"

definition handleConn_dial :: "nat \<Rightarrow> string \<Rightarrow> bool \<Rightarrow> bool \<Rightarrow> Proxy \<Rightarrow> Proxy" where
  \<comment> \<open>up to the answer of the dialler: whether it has a connection, and whether the context has ended\<close>
  "handleConn_dial c requestedAddress ok ctxErr p0 =
     (let selection = Bedrock_Select (Some (pxRouter p0)) requestedAddress;
          p = p0\<lparr>pxDials := pxDials p0 @ [(requestedAddress, bsBackend selection)]\<rparr>
      in if \<not> ok then
           set_handler c Returning (if ctxErr \<or> isClosed p then conn_Close c p else listener_Disconnect c p)
         else (case new_conn p of (s, p1) \<Rightarrow> set_handler c (Dialed s) p1))"

definition handleConn_register :: "nat \<Rightarrow> nat \<Rightarrow> Proxy \<Rightarrow> Proxy" where
  "handleConn_register c s p =
     (case registerConn s p of
        (False, p1) \<Rightarrow> set_handler c Returning (conn_Close c (conn_Close s p1))
      | (True, p1) \<Rightarrow> set_handler c (Bridging s) p1)"

definition spawn :: "bool \<Rightarrow> error option \<Rightarrow> error option \<Rightarrow> error option" where
  \<comment> \<open>what the client's start and the backend's spawn answer, and whether the client's error was first in the channel\<close>
  "spawn clientFirst startErr spawnErr =
     (let start = map_option (\<lambda>e. Msg ''start client game'' # e) startErr;
          spawned = map_option (\<lambda>e. Msg ''spawn backend connection'' # e) spawnErr
      in case (if clientFirst then start else spawned) of Some e \<Rightarrow> Some e | None \<Rightarrow> (if clientFirst then spawned else start))"

definition closeBoth :: "nat \<Rightarrow> nat \<Rightarrow> Proxy \<Rightarrow> Proxy" where
  "closeBoth c s p = conn_Close s (conn_Close c p)"

definition handleConn_finish :: "nat \<Rightarrow> nat \<Rightarrow> error option \<Rightarrow> Proxy \<Rightarrow> Proxy" where
  \<comment> \<open>the spawn has failed, or both directions of the bridge have ended; then the deferred calls\<close>
  "handleConn_finish c s spawnErr p =
     (let p1 = (case spawnErr of Some _ \<Rightarrow> p | None \<Rightarrow> closeBoth c s p)
      in set_handler c Returning (unregisterConn s (conn_Close s (listener_Disconnect c p1))))"

definition handler_return :: "nat \<Rightarrow> Proxy \<Rightarrow> Proxy" where
  "handler_return c p = (let p1 = unregisterConn c p in p1\<lparr>pxHandlers := gm_del (pxHandlers p1) c\<rparr>)"

section \<open>One direction of the bridge\<close>

fun pump :: "'p list \<Rightarrow> ('p \<Rightarrow> error option) list \<Rightarrow> 'p list \<Rightarrow> 'p list" where
  \<comment> \<open>the packets read until reading fails, what each write answers, and the packets written\<close>
  "pump [] writes sent = sent"
| "pump (pk # pks) [] sent = sent"
| "pump (pk # pks) (w # writes) sent = (case w pk of Some err \<Rightarrow> sent | None \<Rightarrow> pump pks writes (sent @ [pk]))"

section \<open>Steps\<close>

datatype proxy_event =
    Accepted string | DialEnd nat bool bool | ServerRegistered nat | BridgeEnd nat "error option" | Returned nat
  | CloseCalled | ListenerClosed | ConnClosed

fun proxy_step :: "proxy_event \<Rightarrow> Proxy \<Rightarrow> Proxy option" where
  \<comment> \<open>nothing when the step cannot happen in this state\<close>
  "proxy_step (Accepted a) p = Some (Serve_accept a p)"
| "proxy_step (DialEnd c ok ctxErr) p =
     (case gm_get (pxHandlers p) c of Some (Dialing a) \<Rightarrow> Some (handleConn_dial c a ok ctxErr p) | _ \<Rightarrow> None)"
| "proxy_step (ServerRegistered c) p =
     (case gm_get (pxHandlers p) c of Some (Dialed s) \<Rightarrow> Some (handleConn_register c s p) | _ \<Rightarrow> None)"
| "proxy_step (BridgeEnd c spawnErr) p =
     (case gm_get (pxHandlers p) c of Some (Bridging s) \<Rightarrow> Some (handleConn_finish c s spawnErr p) | _ \<Rightarrow> None)"
| "proxy_step (Returned c) p =
     (case gm_get (pxHandlers p) c of Some Returning \<Rightarrow> Some (handler_return c p) | _ \<Rightarrow> None)"
| "proxy_step CloseCalled p = Some (Proxy_Close_lock p)"
| "proxy_step ListenerClosed p = (if pxClosed p then Some (Proxy_Close_listener p) else None)"
| "proxy_step ConnClosed p = (if pxListenerClosed p then Some (Proxy_Close_next p) else None)"

inductive proxy_reachable :: "Proxy \<Rightarrow> Proxy \<Rightarrow> bool" for p0 :: Proxy where
  begin_serve: "proxy_reachable p0 p0"
| one_step: "proxy_reachable p0 p'" if "proxy_reachable p0 p" and "proxy_step ev p = Some p'"

definition Serve_returns :: "bool \<Rightarrow> error \<Rightarrow> Proxy \<Rightarrow> bool option" where
  \<comment> \<open>\<open>Accept\<close> has failed: whether the loop ends, and if so whether it need not wait for handlers any more\<close>
  "Serve_returns ctxErr err p =
     (if ctxErr \<or> errors_Is err ErrClosed \<or> isClosed p then Some (pxHandlers p = []) else None)"

section \<open>Lemmas\<close>

text \<open>
  The invariant is stated over the functions and sets that the fields stand for: the handlers, the number of connections, the
  open ones, the registered ones, whether the proxy is closed, and what \<open>Close\<close> has still to close.
\<close>

definition serves :: "(nat \<rightharpoonup> handler) \<Rightarrow> nat \<Rightarrow> nat \<Rightarrow> bool" where
  \<comment> \<open>the handler of a client has a connection to the backend\<close>
  "serves H c s \<longleftrightarrow> H c = Some (Dialed s) \<or> H c = Some (Bridging s)"

definition held :: "(nat \<rightharpoonup> handler) \<Rightarrow> nat \<Rightarrow> bool" where
  "held H i \<longleftrightarrow> i \<in> dom H \<or> (\<exists>c. serves H c i)"

definition registered :: "(nat \<rightharpoonup> handler) \<Rightarrow> nat \<Rightarrow> bool" where
  "registered H i \<longleftrightarrow> i \<in> dom H \<or> (\<exists>c. H c = Some (Bridging i))"

definition table_ok :: "(nat \<rightharpoonup> handler) \<Rightarrow> nat \<Rightarrow> bool" where
  \<comment> \<open>clients and backends' connections are different ones, and every connection has one handler\<close>
  "table_ok H n \<longleftrightarrow> dom H \<subseteq> {..<n} \<and> (\<forall>c s. serves H c s \<longrightarrow> s < n \<and> H s = None) \<and> (\<forall>c c' s. serves H c s \<and> serves H c' s \<longrightarrow> c = c')"

definition conns_ok :: "(nat \<rightharpoonup> handler) \<Rightarrow> nat set \<Rightarrow> nat set \<Rightarrow> bool \<Rightarrow> nat set \<Rightarrow> bool" where
  "conns_ok H Op C cl K \<longleftrightarrow>
     (\<forall>c. H c = Some Returning \<longrightarrow> c \<notin> Op) \<and> (\<forall>i \<in> Op. held H i) \<and> C = {i. registered H i} \<and> (cl \<longrightarrow> C \<inter> Op \<subseteq> K)"

definition open_conns :: "Proxy \<Rightarrow> nat set" where
  "open_conns p = {i. i < length (pxHeap p) \<and> \<not> pxHeap p ! i}"

definition proxy_inv :: "Proxy \<Rightarrow> bool" where
  "proxy_inv p \<longleftrightarrow> table_ok (gm_get (pxHandlers p)) (length (pxHeap p)) \<and>
     conns_ok (gm_get (pxHandlers p)) (open_conns p) (set (pxConns p)) (pxClosed p) (set (pxClosing p))"

lemma open_conns_close [simp]: "open_conns (p\<lparr>pxHeap := (pxHeap p)[c := True]\<rparr>) = open_conns p - {c}"
proof (rule set_eqI)
  fix i
  show "i \<in> open_conns (p\<lparr>pxHeap := (pxHeap p)[c := True]\<rparr>) \<longleftrightarrow> i \<in> open_conns p - {c}"
    by (cases "i = c") (simp_all add: open_conns_def)
qed

lemma open_conns_simps [simp]:
  "open_conns (p\<lparr>pxHeap := pxHeap p @ [False]\<rparr>) = insert (length (pxHeap p)) (open_conns p)"
  "open_conns (p\<lparr>pxConns := cs\<rparr>) = open_conns p" "open_conns (p\<lparr>pxHandlers := hs\<rparr>) = open_conns p"
  "open_conns (p\<lparr>pxClosing := cs\<rparr>) = open_conns p" "open_conns (p\<lparr>pxDials := ds\<rparr>) = open_conns p"
  "open_conns (p\<lparr>pxListenerClosed := b\<rparr>) = open_conns p" "open_conns (p\<lparr>pxClosed := b\<rparr>) = open_conns p"
  by (auto simp: open_conns_def nth_append less_Suc_eq)

lemma open_conns_less: "i \<in> open_conns p \<Longrightarrow> i < length (pxHeap p)"
  by (simp add: open_conns_def)

text \<open>How the handlers change.\<close>

lemma serves_update: "serves (H(c := x)) c' s \<longleftrightarrow> (if c' = c then x = Some (Dialed s) \<or> x = Some (Bridging s) else serves H c' s)"
  by (simp add: serves_def)

lemma table_okI:
  assumes "\<And>c h. H c = Some h \<Longrightarrow> c < n" and "\<And>c s. serves H c s \<Longrightarrow> s < n" and "\<And>c s. serves H c s \<Longrightarrow> H s = None"
    and "\<And>c c' s. serves H c s \<Longrightarrow> serves H c' s \<Longrightarrow> c = c'"
  shows "table_ok H n"
  using assms unfolding table_ok_def by blast

lemma table_okD:
  assumes "table_ok H n"
  shows "H c = Some h \<Longrightarrow> c < n" and "serves H c s \<Longrightarrow> s < n" and "serves H c s \<Longrightarrow> H s = None"
    and "serves H c s \<Longrightarrow> serves H c' s \<Longrightarrow> c = c'"
  using assms unfolding table_ok_def by (auto, blast)

lemma serves_client: "table_ok H n \<Longrightarrow> H c = Some h \<Longrightarrow> \<not> serves H c' c"
  using table_okD(3) [of H n c' c] by auto

lemma table_ok_new:
  assumes "table_ok H n"
  shows "table_ok (H(n \<mapsto> Dialing a)) (Suc n)"
  using table_okD [OF assms] by (intro table_okI) (auto simp: serves_update less_Suc_eq split: if_splits)

lemma table_ok_more: "table_ok H n \<Longrightarrow> table_ok H (Suc n)"
  by (auto simp: table_ok_def less_Suc_eq)

lemma table_ok_dial:
  assumes "table_ok H n" and "H c = Some h"
  shows "table_ok (H(c \<mapsto> Dialed n)) (Suc n)"
proof -
  have "H n = None" using table_okD(1) [OF assms(1), of n] by (cases "H n") auto
  then show ?thesis
    using table_okD [OF assms(1)] assms(2) serves_client [OF assms] by (intro table_okI) (auto simp: serves_update less_Suc_eq split: if_splits)
qed

lemma table_ok_bridge:
  assumes "table_ok H n" and "H c = Some (Dialed s)"
  shows "table_ok (H(c \<mapsto> Bridging s)) n"
proof -
  have "serves H c s" using assms(2) by (simp add: serves_def)
  with table_okD [OF assms(1)] serves_client [OF assms] assms(2) show ?thesis
    by (intro table_okI) (auto simp: serves_update split: if_splits)
qed

lemma table_ok_return:
  assumes "table_ok H n" and "H c = Some h"
  shows "table_ok (H(c \<mapsto> Returning)) n"
  using table_okD [OF assms(1)] assms(2) serves_client [OF assms] by (intro table_okI) (auto simp: serves_update split: if_splits)

lemma table_ok_remove:
  assumes "table_ok H n"
  shows "table_ok (H(c := None)) n"
  using table_okD [OF assms] by (intro table_okI) (auto simp: serves_update split: if_splits)

text \<open>How the connections change with them. One handler is set apart from the others.\<close>

lemma held_split: "held H i \<longleftrightarrow> i \<in> dom H \<or> serves H c i \<or> (\<exists>d. d \<noteq> c \<and> serves H d i)"
  by (auto simp: held_def)

lemma registered_split: "registered H i \<longleftrightarrow> i \<in> dom H \<or> H c = Some (Bridging i) \<or> (\<exists>d. d \<noteq> c \<and> H d = Some (Bridging i))"
  by (auto simp: registered_def)

lemma held_update: "held (H(c \<mapsto> h)) i \<longleftrightarrow> i = c \<or> i \<in> dom H \<or> h = Dialed i \<or> h = Bridging i \<or> (\<exists>d. d \<noteq> c \<and> serves H d i)"
  by (subst held_split [of _ _ c]) (auto simp: serves_update)

lemma registered_update: "registered (H(c \<mapsto> h)) i \<longleftrightarrow> i = c \<or> i \<in> dom H \<or> h = Bridging i \<or> (\<exists>d. d \<noteq> c \<and> H d = Some (Bridging i))"
  by (subst registered_split [of _ _ c]) auto

lemma held_remove: "held (H(c := None)) i \<longleftrightarrow> i \<noteq> c \<and> i \<in> dom H \<or> (\<exists>d. d \<noteq> c \<and> serves H d i)"
  by (subst held_split [of _ _ c]) (auto simp: serves_update)

lemma registered_remove: "registered (H(c := None)) i \<longleftrightarrow> i \<noteq> c \<and> i \<in> dom H \<or> (\<exists>d. d \<noteq> c \<and> H d = Some (Bridging i))"
  by (subst registered_split [of _ _ c]) auto

lemma conns_okI:
  assumes "\<And>c. H c = Some Returning \<Longrightarrow> c \<notin> Op" and "\<And>i. i \<in> Op \<Longrightarrow> held H i" and "\<And>i. i \<in> C \<longleftrightarrow> registered H i"
    and "\<And>i. cl \<Longrightarrow> i \<in> C \<Longrightarrow> i \<in> Op \<Longrightarrow> i \<in> K"
  shows "conns_ok H Op C cl K"
  using assms unfolding conns_ok_def by blast

lemma conns_okD:
  assumes "conns_ok H Op C cl K"
  shows "H c = Some Returning \<Longrightarrow> c \<notin> Op" and "i \<in> Op \<Longrightarrow> held H i" and "i \<in> C \<longleftrightarrow> registered H i"
    and "cl \<Longrightarrow> i \<in> C \<Longrightarrow> i \<in> Op \<Longrightarrow> i \<in> K"
  using assms unfolding conns_ok_def by blast+

lemma conns_ok_new:
  assumes "conns_ok H Op C False K" and "H n = None"
  shows "conns_ok (H(n \<mapsto> Dialing a)) (insert n Op) (insert n C) False K"
  using conns_okD [OF assms(1)] assms(2)
  by (intro conns_okI) (auto simp: held_update registered_update held_split [of H _ n] registered_split [of H _ n] serves_def split: if_splits)

lemma conns_ok_dial:
  assumes "conns_ok H Op C cl K" and "H c = Some (Dialing a)" and "table_ok H n" and "n \<notin> Op"
  shows "conns_ok (H(c \<mapsto> Dialed n)) (insert n Op) C cl K"
proof (rule conns_okI)
  have n: "n \<notin> C"
    using table_okD(1) [OF assms(3), of n] table_okD(2) [OF assms(3), of _ n] by (auto simp: conns_okD(3) [OF assms(1)] registered_def serves_def)
  fix i
  show "held (H(c \<mapsto> Dialed n)) i" if "i \<in> insert n Op"
    using that conns_okD(2) [OF assms(1), of i] assms(2) by (auto simp: held_update held_split [of H _ c] serves_def)
  show "i \<in> C \<longleftrightarrow> registered (H(c \<mapsto> Dialed n)) i"
    using assms(2) by (auto simp: conns_okD(3) [OF assms(1)] registered_update registered_split [of H _ c])
  show "i \<in> K" if "cl" "i \<in> C" "i \<in> insert n Op" using that conns_okD(4) [OF assms(1), of i] n by auto
next
  fix d assume "(H(c \<mapsto> Dialed n)) d = Some Returning"
  then show "d \<notin> insert n Op"
    using conns_okD(1) [OF assms(1), of d] table_okD(1) [OF assms(3), of d] by (auto split: if_splits)
qed

lemma conns_ok_bridge:
  assumes "conns_ok H Op C False K" and "H c = Some (Dialed s)"
  shows "conns_ok (H(c \<mapsto> Bridging s)) Op (insert s C) False K"
proof (rule conns_okI)
  fix i
  show "held (H(c \<mapsto> Bridging s)) i" if "i \<in> Op"
    using conns_okD(2) [OF assms(1) that] assms(2) by (auto simp: held_update held_split [of H _ c] serves_def)
  show "i \<in> insert s C \<longleftrightarrow> registered (H(c \<mapsto> Bridging s)) i"
    using assms(2) by (auto simp: conns_okD(3) [OF assms(1)] registered_update registered_split [of H _ c])
next
  fix d assume "(H(c \<mapsto> Bridging s)) d = Some Returning"
  then show "d \<notin> Op" using conns_okD(1) [OF assms(1), of d] by (auto split: if_splits)
qed simp

lemma conns_ok_return:
  assumes "conns_ok H Op C cl K" and "H c = Some h" and "table_ok H n" and "\<And>s. serves H c s \<longleftrightarrow> s \<in> R"
  shows "conns_ok (H(c \<mapsto> Returning)) (Op - {c} - R) (C - R) cl K"
proof (rule conns_okI)
  note one = table_okD(3,4) [OF assms(3)]
  fix i
  show "held (H(c \<mapsto> Returning)) i" if "i \<in> Op - {c} - R"
    using that conns_okD(2) [OF assms(1), of i] assms(4) [of i] by (auto simp: held_update held_split [of H _ c])
  show "i \<in> C - R \<longleftrightarrow> registered (H(c \<mapsto> Returning)) i"
  proof (cases "i \<in> R")
    case True
    then have i: "serves H c i" using assms(4) by simp
    then have "H i = None" "i \<noteq> c" "\<And>d. serves H d i \<Longrightarrow> d = c" using one assms(2) by auto
    then have "\<not> registered (H(c \<mapsto> Returning)) i" by (auto simp: registered_update serves_def)
    with True show ?thesis by simp
  next
    case False
    then have "H c \<noteq> Some (Bridging i)" using assms(4) [of i] by (auto simp: serves_def)
    with False assms(2) show ?thesis by (auto simp: conns_okD(3) [OF assms(1)] registered_update registered_split [of H _ c])
  qed
  show "i \<in> K" if "cl" "i \<in> C - R" "i \<in> Op - {c} - R" using that conns_okD(4) [OF assms(1), of i] by simp
next
  fix d assume "(H(c \<mapsto> Returning)) d = Some Returning"
  then show "d \<notin> Op - {c} - R" using conns_okD(1) [OF assms(1), of d] by (auto split: if_splits)
qed

lemma conns_ok_remove:
  assumes "conns_ok H Op C cl K" and "H c = Some Returning" and "table_ok H n"
  shows "conns_ok (H(c := None)) Op (C - {c}) cl K"
proof (rule conns_okI)
  have c: "c \<notin> Op" "\<And>d. \<not> serves H d c" using conns_okD(1) [OF assms(1,2)] serves_client [OF assms(3,2)] by auto
  fix i
  show "held (H(c := None)) i" if "i \<in> Op"
    using that conns_okD(2) [OF assms(1) that] assms(2) c(1) by (auto simp: held_remove held_split [of H _ c] serves_def)
  show "i \<in> C - {c} \<longleftrightarrow> registered (H(c := None)) i"
    using assms(2) c(2) by (auto simp: conns_okD(3) [OF assms(1)] registered_remove registered_split [of H _ c] serves_def)
  show "i \<in> K" if "cl" "i \<in> C - {c}" "i \<in> Op" using that conns_okD(4) [OF assms(1), of i] by simp
next
  fix d assume "(H(c := None)) d = Some Returning"
  then show "d \<notin> Op" using conns_okD(1) [OF assms(1), of d] by (auto split: if_splits)
qed

lemma conns_ok_close: "conns_ok H Op C cl K \<Longrightarrow> conns_ok H (Op - {c}) C cl (K - {c})"
  unfolding conns_ok_def by blast

text \<open>Every step keeps the invariant.\<close>

lemmas proxy_ops = new_conn_def conn_Close_def listener_Disconnect_def registerConn_def unregisterConn_def isClosed_def set_handler_def
  closeBoth_def Let_def

lemma proxy_inv_more:
  assumes "conns_ok H Op C cl K" and "table_ok H n"
  shows "n \<notin> Op"
  using conns_okD(2) [OF assms(1), of n] table_okD(1) [OF assms(2), of n] table_okD(2) [OF assms(2), of _ n]
  by (auto simp: held_def)

lemma Serve_accept_inv [inv_intros]:
  assumes "proxy_inv p"
  shows "proxy_inv (Serve_accept a p)"
proof -
  let ?H = "gm_get (pxHandlers p)" and ?n = "length (pxHeap p)"
  have t: "table_ok ?H ?n" and c: "conns_ok ?H (open_conns p) (set (pxConns p)) (pxClosed p) (set (pxClosing p))"
    using assms by (simp_all add: proxy_inv_def)
  have n: "?H ?n = None" using table_okD(1) [OF t, of ?n] by (cases "?H ?n") auto
  show ?thesis
  proof (cases "pxClosed p")
    case True
    have "open_conns p - {?n} = open_conns p" by (auto dest: open_conns_less)
    then have "open_conns (p\<lparr>pxHeap := (pxHeap p @ [False])[?n := True]\<rparr>) = open_conns p"
      using open_conns_close [of "p\<lparr>pxHeap := pxHeap p @ [False]\<rparr>" ?n] by simp
    with True t c show ?thesis by (simp add: proxy_inv_def Serve_accept_def proxy_ops table_ok_more)
  next
    case False
    with c have "conns_ok ?H (open_conns p) (set (pxConns p)) False (set (pxClosing p))" by simp
    with False t table_ok_new [OF t, of a] conns_ok_new [OF this n, of a] show ?thesis
      by (simp add: proxy_inv_def Serve_accept_def proxy_ops fun_upd_def)
  qed
qed

lemma handleConn_dial_inv [inv_intros]:
  assumes "proxy_inv p" and "gm_get (pxHandlers p) c = Some (Dialing a)"
  shows "proxy_inv (handleConn_dial c a ok ctxErr p)"
proof -
  let ?H = "gm_get (pxHandlers p)" and ?n = "length (pxHeap p)"
  have t: "table_ok ?H ?n" and o: "conns_ok ?H (open_conns p) (set (pxConns p)) (pxClosed p) (set (pxClosing p))"
    using assms(1) by (simp_all add: proxy_inv_def)
  have "conns_ok (?H(c \<mapsto> Returning)) (open_conns p - {c} - {}) (set (pxConns p) - {}) (pxClosed p) (set (pxClosing p))"
    by (rule conns_ok_return [OF o assms(2) t]) (simp add: serves_def assms(2))
  with table_ok_return [OF t assms(2)] table_ok_dial [OF t assms(2)] conns_ok_dial [OF o assms(2) t proxy_inv_more [OF o t]]
  show ?thesis
    using open_conns_close [of "p\<lparr>pxDials := _\<rparr>" c] open_conns_simps(1) [of "p\<lparr>pxDials := _\<rparr>"]
    by (cases "ok"; cases "ctxErr \<or> pxClosed p") (simp_all add: proxy_inv_def handleConn_dial_def proxy_ops fun_upd_def)
qed

lemma handleConn_register_inv [inv_intros]:
  assumes "proxy_inv p" and "gm_get (pxHandlers p) c = Some (Dialed s)"
  shows "proxy_inv (handleConn_register c s p)"
proof -
  let ?H = "gm_get (pxHandlers p)"
  have t: "table_ok ?H (length (pxHeap p))" and o: "conns_ok ?H (open_conns p) (set (pxConns p)) (pxClosed p) (set (pxClosing p))"
    using assms(1) by (simp_all add: proxy_inv_def)
  have "s \<notin> set (pxConns p)"
    using table_okD(3,4) [OF t, of _ s] assms(2) by (fastforce simp: conns_okD(3) [OF o] registered_def serves_def)
  then have s: "set (pxConns p) - {s} = set (pxConns p)" by auto
  have "conns_ok (?H(c \<mapsto> Returning)) (open_conns p - {c} - {s}) (set (pxConns p) - {s}) (pxClosed p) (set (pxClosing p))"
    by (rule conns_ok_return [OF o assms(2) t]) (auto simp: serves_def assms(2))
  moreover have "open_conns p - {s} - {c} = open_conns p - {c} - {s}" by auto
  ultimately show ?thesis
    using table_ok_return [OF t assms(2)] table_ok_bridge [OF t assms(2)] o s
      conns_ok_bridge [where H = ?H and c = c and s = s and Op = "open_conns p" and C = "set (pxConns p)" and K = "set (pxClosing p)"]
      open_conns_close [of "p\<lparr>pxHeap := (pxHeap p)[s := True]\<rparr>" c] assms(2)
    by (cases "pxClosed p") (simp_all add: proxy_inv_def handleConn_register_def proxy_ops fun_upd_def)
qed

lemma handleConn_finish_inv [inv_intros]:
  assumes "proxy_inv p" and "gm_get (pxHandlers p) c = Some (Bridging s)"
  shows "proxy_inv (handleConn_finish c s spawnErr p)"
proof -
  let ?H = "gm_get (pxHandlers p)"
  have t: "table_ok ?H (length (pxHeap p))" and o: "conns_ok ?H (open_conns p) (set (pxConns p)) (pxClosed p) (set (pxClosing p))"
    using assms(1) by (simp_all add: proxy_inv_def)
  have "conns_ok (?H(c \<mapsto> Returning)) (open_conns p - {c} - {s}) (set (pxConns p) - {s}) (pxClosed p) (set (pxClosing p))"
    by (rule conns_ok_return [OF o assms(2) t]) (auto simp: serves_def assms(2))
  moreover have "open_conns (p\<lparr>pxHeap := (pxHeap p)[c := True, s := True]\<rparr>) = open_conns p - {c} - {s}"
    using open_conns_close [of "p\<lparr>pxHeap := (pxHeap p)[c := True]\<rparr>" s] by simp
  moreover have "(pxHeap p)[c := True, s := True, c := True, s := True] = (pxHeap p)[c := True, s := True]"
    by (metis list_update_overwrite list_update_swap)
  ultimately show ?thesis
    using table_ok_return [OF t assms(2)]
    by (cases spawnErr) (simp_all add: proxy_inv_def handleConn_finish_def proxy_ops fun_upd_def)
qed

lemma handler_return_inv [inv_intros]:
  assumes "proxy_inv p" and "gm_get (pxHandlers p) c = Some Returning"
  shows "proxy_inv (handler_return c p)"
proof -
  let ?H = "gm_get (pxHandlers p)"
  have t: "table_ok ?H (length (pxHeap p))" and o: "conns_ok ?H (open_conns p) (set (pxConns p)) (pxClosed p) (set (pxClosing p))"
    using assms(1) by (simp_all add: proxy_inv_def)
  with table_ok_remove [OF t, of c] conns_ok_remove [OF o assms(2) t] show ?thesis
    by (simp add: proxy_inv_def handler_return_def proxy_ops fun_upd_def)
qed

lemma Proxy_Close_inv [inv_intros]:
  assumes "proxy_inv p"
  shows "proxy_inv (Proxy_Close_lock p)" and "proxy_inv (Proxy_Close_listener p)" and "pxClosed p \<Longrightarrow> proxy_inv (Proxy_Close_next p)"
proof -
  have t: "table_ok (gm_get (pxHandlers p)) (length (pxHeap p))"
    and o: "conns_ok (gm_get (pxHandlers p)) (open_conns p) (set (pxConns p)) (pxClosed p) (set (pxClosing p))"
    using assms by (simp_all add: proxy_inv_def)
  from o show "proxy_inv (Proxy_Close_lock p)" using t by (auto simp: proxy_inv_def Proxy_Close_lock_def conns_ok_def)
  show "proxy_inv (Proxy_Close_listener p)" using t o by (simp add: proxy_inv_def Proxy_Close_listener_def)
  show "proxy_inv (Proxy_Close_next p)"
  proof (cases "pxClosing p")
    case (Cons d ds)
    have "conns_ok (gm_get (pxHandlers p)) (open_conns p - {d}) (set (pxConns p)) (pxClosed p) (set ds)"
      using conns_ok_close [OF o, of d] Cons by (auto simp: conns_ok_def)
    moreover have "open_conns (p\<lparr>pxClosing := ds, pxHeap := (pxHeap p)[d := True]\<rparr>) = open_conns p - {d}"
      using open_conns_close [of "p\<lparr>pxClosing := ds\<rparr>" d] by simp
    ultimately show ?thesis using t by (simp add: proxy_inv_def Proxy_Close_next_def conn_Close_def Cons)
  qed (use assms in \<open>simp add: Proxy_Close_next_def\<close>)
qed

lemma listener_after_close: "proxy_reachable p0 p \<Longrightarrow> pxListenerClosed p0 = pxClosed p0 \<Longrightarrow> pxListenerClosed p \<Longrightarrow> pxClosed p"
proof (induction rule: proxy_reachable.induct)
  case (one_step p ev p')
  then show ?case
    by (cases "(ev, p)" rule: proxy_step.cases)
      (auto simp: Serve_accept_def handleConn_dial_def handleConn_register_def handleConn_finish_def handler_return_def
        Proxy_Close_lock_def Proxy_Close_listener_def Proxy_Close_next_def proxy_ops split: option.splits handler.splits if_splits list.splits)
qed simp

lemma proxy_step_inv:
  assumes "proxy_step ev p = Some p'" and "proxy_inv p" and "pxListenerClosed p \<Longrightarrow> pxClosed p"
  shows "proxy_inv p'"
  using assms
  by (cases "(ev, p)" rule: proxy_step.cases) (auto intro: inv_intros split: option.splits handler.splits if_splits)

lemma proxy_step_router: "proxy_step ev p = Some p' \<Longrightarrow> pxRouter p' = pxRouter p"
  by (cases "(ev, p)" rule: proxy_step.cases)
    (auto simp: Serve_accept_def handleConn_dial_def handleConn_register_def handleConn_finish_def handler_return_def
      Proxy_Close_lock_def Proxy_Close_listener_def Proxy_Close_next_def proxy_ops split: option.splits handler.splits if_splits list.splits)

lemma proxy_step_dials:
  "proxy_step ev p = Some p' \<Longrightarrow> \<forall>(a, b) \<in> set (pxDials p') - set (pxDials p). b = bsBackend (Bedrock_Select (Some (pxRouter p)) a)"
  by (cases "(ev, p)" rule: proxy_step.cases)
    (auto simp: Serve_accept_def handleConn_dial_def handleConn_register_def handleConn_finish_def handler_return_def
      Proxy_Close_lock_def Proxy_Close_listener_def Proxy_Close_next_def proxy_ops split: option.splits handler.splits if_splits list.splits)

lemma proxy_inv_New: "Proxy_New listen cfg = Inr p \<Longrightarrow> proxy_inv p \<and> \<not> pxClosed p \<and> \<not> pxListenerClosed p \<and> pxDials p = []"
  by (auto simp: Proxy_New_def proxy_inv_def table_ok_def conns_ok_def serves_def held_def registered_def open_conns_def
      split: if_splits sum.splits option.splits)

lemma proxy_reachable_inv:
  assumes "proxy_reachable p0 p" and "Proxy_New listen cfg = Inr p0"
  shows "proxy_inv p \<and> pxRouter p = pxRouter p0 \<and> (\<forall>(a, b) \<in> set (pxDials p). b = bsBackend (Bedrock_Select (Some (pxRouter p0)) a))"
  using assms(1)
proof (induction rule: proxy_reachable.induct)
  case begin_serve
  then show ?case using proxy_inv_New [OF assms(2)] by simp
next
  case (one_step p ev p')
  then have "pxListenerClosed p \<Longrightarrow> pxClosed p" using listener_after_close proxy_inv_New [OF assms(2)] by blast
  with one_step proxy_step_inv [OF one_step.hyps(2)] proxy_step_router [OF one_step.hyps(2)] proxy_step_dials [OF one_step.hyps(2)]
  show ?case by fastforce
qed

text \<open>How many steps a handler has left.\<close>

fun stage :: "handler \<Rightarrow> nat" where
  "stage (Dialing a) = 3"
| "stage (Dialed s) = 2"
| "stage (Bridging s) = 2"
| "stage Returning = 1"

definition steps_left :: "Proxy \<Rightarrow> nat" where
  "steps_left p = sum_list (map (stage \<circ> snd) (pxHandlers p))"

fun handler_event :: "proxy_event \<Rightarrow> bool" where
  "handler_event (DialEnd c ok ctxErr) = True"
| "handler_event (ServerRegistered c) = True"
| "handler_event (BridgeEnd c spawnErr) = True"
| "handler_event (Returned c) = True"
| "handler_event _ = False"

fun proxy_run :: "proxy_event list \<Rightarrow> Proxy \<Rightarrow> Proxy option" where
  "proxy_run [] p = Some p"
| "proxy_run (ev # evs) p = (case proxy_step ev p of None \<Rightarrow> None | Some p' \<Rightarrow> proxy_run evs p')"

lemma sum_update: "map_of m k = Some v \<Longrightarrow> sum_list (map (f \<circ> snd) (AList.update k v' m)) + f v = sum_list (map (f \<circ> snd) m) + (f v' :: nat)"
  by (induction m) auto

lemma sum_delete: "map_of m k = Some v \<Longrightarrow> sum_list (map (f \<circ> snd) (AList.delete k m)) + f v \<le> sum_list (map (f \<circ> snd) m :: nat list)"
proof (induction m)
  case (Cons a m)
  have "(\<Sum>a\<leftarrow>filter (\<lambda>(k', _). k \<noteq> k') m. f (snd a)) \<le> (\<Sum>a\<leftarrow>m. f (snd a))"
    by (induction m) auto
  with Cons show ?case by (auto simp: AList.delete_eq comp_def)
qed simp

lemma fewer_steps:
  assumes "gm_get (pxHandlers p) c = Some h" and "pxHandlers p' = gm_set (pxHandlers p) c h'" and "stage h' < stage h"
  shows "steps_left p' + 1 \<le> steps_left p"
  using sum_update [OF assms(1), of stage h'] assms(2,3) by (simp add: steps_left_def)

lemma proxy_step_left:
  assumes "proxy_step ev p = Some p'" and "pxClosed p"
  shows "pxClosed p' \<and> steps_left p' + (if handler_event ev then 1 else 0) \<le> steps_left p"
proof (cases ev)
  case (Accepted a)
  with assms show ?thesis by (auto simp: steps_left_def Serve_accept_def proxy_ops)
next
  case (DialEnd c ok ctxErr)
  with assms obtain a where h: "gm_get (pxHandlers p) c = Some (Dialing a)" and p': "p' = handleConn_dial c a ok ctxErr p"
    by (auto split: option.splits handler.splits)
  have "pxClosed p' \<and> (\<exists>h'. pxHandlers p' = gm_set (pxHandlers p) c h' \<and> stage h' < 3)"
    using assms(2) by (cases ok) (auto simp: p' handleConn_dial_def proxy_ops)
  with fewer_steps [OF h] show ?thesis by (auto simp: DialEnd)
next
  case (ServerRegistered c)
  with assms obtain s where h: "gm_get (pxHandlers p) c = Some (Dialed s)" and p': "p' = handleConn_register c s p"
    by (auto split: option.splits handler.splits)
  with fewer_steps [OF h, of p' Returning] assms(2) show ?thesis by (auto simp: ServerRegistered handleConn_register_def proxy_ops)
next
  case (BridgeEnd c spawnErr)
  with assms obtain s where h: "gm_get (pxHandlers p) c = Some (Bridging s)" and p': "p' = handleConn_finish c s spawnErr p"
    by (auto split: option.splits handler.splits)
  with fewer_steps [OF h, of p' Returning] assms(2) show ?thesis
    by (auto simp: BridgeEnd handleConn_finish_def proxy_ops split: option.splits)
next
  case (Returned c)
  with assms obtain h: "gm_get (pxHandlers p) c = Some Returning" and p': "p' = handler_return c p"
    by (auto split: option.splits handler.splits)
  with sum_delete [OF h, of stage] assms(2) show ?thesis by (auto simp: Returned steps_left_def handler_return_def proxy_ops)
qed (use assms in \<open>auto simp: steps_left_def Proxy_Close_lock_def Proxy_Close_listener_def Proxy_Close_next_def proxy_ops
    split: if_splits list.splits\<close>)

lemma proxy_run_left:
  "proxy_run evs p = Some p' \<Longrightarrow> pxClosed p \<Longrightarrow> length (filter handler_event evs) + steps_left p' \<le> steps_left p"
  by (induction evs arbitrary: p) (force dest: proxy_step_left split: option.splits if_splits)+

lemma steps_left_le: "steps_left p \<le> 3 * length (pxHandlers p)"
proof -
  have "stage h \<le> 3" for h by (cases h) auto
  then have "sum_list (map (stage \<circ> snd) hs) \<le> 3 * length hs" for hs :: "(nat, handler) gomap"
    by (induction hs) (simp_all add: add_mono)
  then show ?thesis by (simp add: steps_left_def)
qed

lemma handler_enabled: "pxHandlers p \<noteq> [] \<Longrightarrow> \<exists>ev. handler_event ev \<and> proxy_step ev p \<noteq> None"
proof -
  assume "pxHandlers p \<noteq> []"
  then obtain c h hs where "pxHandlers p = (c, h) # hs" by (cases "pxHandlers p") auto
  then have "gm_get (pxHandlers p) c = Some h" by simp
  then show ?thesis
  proof (cases h)
    case (Dialing a)
    with \<open>gm_get (pxHandlers p) c = Some h\<close> show ?thesis by (intro exI [of _ "DialEnd c False False"]) simp
  next
    case (Dialed s)
    with \<open>gm_get (pxHandlers p) c = Some h\<close> show ?thesis by (intro exI [of _ "ServerRegistered c"]) simp
  next
    case (Bridging s)
    with \<open>gm_get (pxHandlers p) c = Some h\<close> show ?thesis by (intro exI [of _ "BridgeEnd c None"]) simp
  next
    case Returning
    with \<open>gm_get (pxHandlers p) c = Some h\<close> show ?thesis by (intro exI [of _ "Returned c"]) simp
  qed
qed

lemma pump_prefix: "\<exists>ys. pump pks writes sent = sent @ ys \<and> prefix ys pks"
proof (induction pks writes sent rule: pump.induct)
  case (3 pk pks w writes sent)
  show ?case
  proof (cases "w pk")
    case None
    with 3 obtain ys where "pump pks writes (sent @ [pk]) = (sent @ [pk]) @ ys" "prefix ys pks" by auto
    with None show ?thesis by (intro exI [of _ "pk # ys"]) simp
  qed simp
qed simp_all

section \<open>Properties\<close>

text \<open>C18: the connections of the host proxy. However the goroutines interleave, every open connection belongs to a handler that will close it, and
  the registered connections are those of the handlers. When \<open>Close\<close> has returned, the only open connections are ones
  just dialled, which their handlers close as their next step; when the last handler has returned, nothing is open or registered. Every
  backend dialled is the one the router selects for the address the client asked for.\<close>

theorem bedrock_connections:
  assumes "Proxy_New listen cfg = Inr p0" and "proxy_reachable p0 p"
  shows "(\<forall>i \<in> open_conns p. held (gm_get (pxHandlers p)) i) \<and> set (pxConns p) = {i. registered (gm_get (pxHandlers p)) i} \<and>
    (pxClosed p \<and> pxClosing p = [] \<longrightarrow>
       (\<forall>i \<in> open_conns p. \<exists>c. gm_get (pxHandlers p) c = Some (Dialed i) \<and> i \<notin> open_conns (handleConn_register c i p))) \<and>
    (pxHandlers p = [] \<longrightarrow> open_conns p = {} \<and> pxConns p = []) \<and>
    (\<forall>(a, b) \<in> set (pxDials p). b = bsBackend (Bedrock_Select (Some (pxRouter p0)) a))"
proof -
  let ?H = "gm_get (pxHandlers p)"
  have inv: "table_ok ?H (length (pxHeap p))" "conns_ok ?H (open_conns p) (set (pxConns p)) (pxClosed p) (set (pxClosing p))"
    and dials: "\<forall>(a, b) \<in> set (pxDials p). b = bsBackend (Bedrock_Select (Some (pxRouter p0)) a)"
    using proxy_reachable_inv [OF assms(2,1)] by (simp_all add: proxy_inv_def)
  note c = conns_okD [OF inv(2)]
  have "\<exists>c. ?H c = Some (Dialed i) \<and> i \<notin> open_conns (handleConn_register c i p)"
    if "pxClosed p" "pxClosing p = []" "i \<in> open_conns p" for i
  proof -
    have "\<not> registered ?H i" using c(3,4) [of i] that by auto
    with c(2) [OF that(3)] obtain d where "?H d = Some (Dialed i)" by (auto simp: held_def registered_def serves_def)
    moreover have "i \<notin> open_conns (handleConn_register d i p)"
      using that(1) open_conns_close [of "p\<lparr>pxHeap := (pxHeap p)[i := True]\<rparr>" d] by (simp add: handleConn_register_def proxy_ops)
    ultimately show ?thesis by blast
  qed
  moreover have "open_conns p = {} \<and> pxConns p = []" if "pxHandlers p = []"
    using c(2,3) that by (fastforce simp: held_def registered_def serves_def)
  ultimately show ?thesis using c(2,3) dials by blast
qed

definition sample_proxy :: Proxy where
  "sample_proxy = \<lparr>pxCfg = \<lparr>pcListen = ''0.0.0.0:19132'', pcDefaultBackend = ''lobby:19132'', pcRoutes = [], pcBackendDialTimeout = 1\<rparr>,
     pxRouter = \<lparr>brDefaultBackend = ''lobby:19132'', brTable = []\<rparr>, pxConns = [], pxClosed = False, pxListenerClosed = False,
     pxClosing = [], pxHeap = [], pxHandlers = [], pxDials = []\<rparr>"

lemma sample_proxy_New: "Proxy_New (\<lambda>_. None) (pxCfg sample_proxy) = Inr sample_proxy"
  by (simp add: Proxy_New_def NewRouter_def sample_proxy_def)

lemma proxy_run_reachable: "proxy_run evs p = Some p' \<Longrightarrow> proxy_reachable p0 p \<Longrightarrow> proxy_reachable p0 p'"
  by (induction evs arbitrary: p) (auto split: option.splits intro: proxy_reachable.intros)

theorem bedrock_connections_witness:
  "\<exists>p. proxy_run [Accepted ''mc'', DialEnd 0 True False, CloseCalled, ListenerClosed, ConnClosed, ServerRegistered 0, Returned 0] sample_proxy = Some p \<and>
     length (pxHeap p) = 2 \<and> open_conns p = {} \<and> pxConns p = []"
proof -
  let ?evs = "[Accepted ''mc'', DialEnd 0 True False, CloseCalled, ListenerClosed, ConnClosed, ServerRegistered 0, Returned 0]"
  obtain p where p: "proxy_run ?evs sample_proxy = Some p" and "pxHandlers p = []" "length (pxHeap p) = 2"
    by (simp add: sample_proxy_def Serve_accept_def handleConn_dial_def handleConn_register_def handler_return_def
        Proxy_Close_lock_def Proxy_Close_listener_def Proxy_Close_next_def proxy_ops)
  moreover from p have "proxy_reachable sample_proxy p" by (rule proxy_run_reachable) (rule proxy_reachable.begin_serve)
  ultimately show ?thesis using bedrock_connections [OF sample_proxy_New, of p] by blast
qed



end
