(* ===== verification/Gatewaydiscovery.thy ===== *)
theory Gatewaydiscovery
  imports Proxy Supervisor
begin

text \<open>
  Discovery in the gateway command: loading the configuration with the Services of the cluster at startup
  (\<open>cmd/mc-gateway/discovery_startup.go\<close>), reloading it (\<open>discovery_reload.go\<close>), and the watch that keeps the routes of the running server up to
  date (\<open>discovery_runtime.go\<close>). This is where the watch of the Services, the merge of routes and the state of the server meet. The
  API server, the file system and the YAML decoder are arguments; the defaults that the code puts in place of missing dependencies are
  the functions modelled here.
\<close>

section \<open>Startup\<close>

text \<open>
  What a process sees of the outside: the environment that validation asks, the order of the loops over maps, the
  renderer of errors, the YAML decoder and the file system.
\<close>

record gateway_env =
  geEnv :: env
  geOrd :: "nat \<Rightarrow> voice_order"
  geRender :: "error \<Rightarrow> string"
  geDecode :: "bytes \<Rightarrow> Config \<Rightarrow> Config result"
  geReadFile :: "string \<Rightarrow> bytes result"

record discoveryDeps =
  ddNamespaceResolver :: NamespaceResolver
  ddInClusterConfig :: "error option"
  ddNewClient :: "error option"
  ddServices :: "string \<Rightarrow> Service list result"

record startupDiscoveryReport =
  srServices :: "ServiceInput list"
  srResult :: k8s_Result

record startupLoadResult =
  lrSnapshot :: RouteSnapshot
  lrDiscoveryReport :: "startupDiscoveryReport option"

definition buildStartupDiscoveryReport :: "gateway_env \<Rightarrow> Config \<Rightarrow> discoveryDeps \<Rightarrow> startupDiscoveryReport result" where
  "buildStartupDiscoveryReport w cfg deps =
     (let kubernetesConfig = dsKubernetes (cDiscovery cfg) in
      case ResolveNamespace (geReadFile w) (kdNamespace kubernetesConfig) (ddNamespaceResolver deps) of
        Inl err \<Rightarrow> Inl (Msg ''resolve Kubernetes discovery namespace'' # err)
      | Inr namespace \<Rightarrow>
          (case ddInClusterConfig deps of
             Some err \<Rightarrow> Inl (Msg ''create in-cluster Kubernetes config'' # err)
           | None \<Rightarrow>
               (case ddNewClient deps of
                  Some err \<Rightarrow> Inl (Msg ''create Kubernetes Service lister'' # err)
                | None \<Rightarrow>
                    (case ListServices (ddServices deps namespace) of
                       Inl err \<Rightarrow> Inl (Msg ''list Kubernetes Services in resolved namespace'' # err)
                     | Inr services \<Rightarrow>
                         Inr \<lparr>srServices = services,
                              srResult = BuildDiscoveredRoutes (geRender w) services (kdAnnotationPrefix kubernetesConfig)\<rparr>))))"

definition loadStartupWithDiscovery :: "gateway_env \<Rightarrow> discoveryDeps \<Rightarrow> string \<Rightarrow> startupLoadResult result" where
  "loadStartupWithDiscovery w deps configPath =
     (case LoadFile (geEnv w) (geOrd w 0) (geDecode w) (geReadFile w) configPath of
        Inl err \<Rightarrow> Inl err
      | Inr cfg \<Rightarrow>
          if \<not> kdEnabled (dsKubernetes (cDiscovery cfg)) then
            (case RebuildRouteSnapshot (geEnv w) (geOrd w 1) (geOrd w 2) (geOrd w 3) (geRender w) cfg None of
               Inl err \<Rightarrow> Inl err
             | Inr snapshot \<Rightarrow> Inr \<lparr>lrSnapshot = snapshot, lrDiscoveryReport = None\<rparr>)
          else
            (case buildStartupDiscoveryReport w cfg deps of
               Inl err \<Rightarrow> Inl err
             | Inr report \<Rightarrow>
                 (let provider = NewSnapshotProviderFromResult (srResult report) in
                  case RebuildRouteSnapshot (geEnv w) (geOrd w 1) (geOrd w 2) (geOrd w 3) (geRender w) cfg
                         (Some (Inr (SnapshotProvider_Routes provider))) of
                    Inl err \<Rightarrow> Inl err
                  | Inr snapshot \<Rightarrow> Inr \<lparr>lrSnapshot = snapshot, lrDiscoveryReport = Some report\<rparr>)))"

definition recordStartupDiscoveryMetrics :: "Recorder \<Rightarrow> startupDiscoveryReport option \<Rightarrow> Recorder" where
  "recordStartupDiscoveryMetrics recorder report =
     (case report of None \<Rightarrow> recorder | Some r \<Rightarrow> KubernetesSkippedServicesByReason recorder (krSkippedByReason (srResult r)))"

section \<open>Reloads\<close>

definition cloneKubernetesDiscoveryResult :: "k8s_Result \<Rightarrow> k8s_Result" where
  \<comment> \<open>a copy: the values of the model are not shared\<close>
  "cloneKubernetesDiscoveryResult result =
     \<lparr>krRoutes = [] @ krRoutes result, krSkipped = [] @ krSkipped result, krDuplicateHosts = [] @ krDuplicateHosts result,
      krSkippedByReason = cloneStringIntMap (krSkippedByReason result)\<rparr>"

record reloadDiscoveryReport =
  rrResult :: k8s_Result

definition newReloadDiscoveryReport :: "k8s_Result \<Rightarrow> reloadDiscoveryReport" where
  "newReloadDiscoveryReport result = \<lparr>rrResult = cloneKubernetesDiscoveryResult result\<rparr>"

definition routeProvider :: "reloadDiscoveryReport \<Rightarrow> provider" where
  "routeProvider r = Some (Inr (SnapshotProvider_Routes (NewSnapshotProviderFromResult (rrResult r))))"

definition buildReloadDiscoveryReport :: "gateway_env \<Rightarrow> Config \<Rightarrow> discoveryDeps \<Rightarrow> reloadDiscoveryReport result" where
  "buildReloadDiscoveryReport w cfg deps =
     (let kubernetesConfig = dsKubernetes (cDiscovery cfg) in
      case ResolveNamespace (geReadFile w) (kdNamespace kubernetesConfig) (ddNamespaceResolver deps) of
        Inl err \<Rightarrow> Inl (Msg ''resolve Kubernetes discovery namespace'' # err)
      | Inr namespace \<Rightarrow>
          (case ddInClusterConfig deps of
             Some err \<Rightarrow> Inl (Msg ''create in-cluster Kubernetes config'' # err)
           | None \<Rightarrow>
               (case ddNewClient deps of
                  Some err \<Rightarrow> Inl (Msg ''create Kubernetes Service lister'' # err)
                | None \<Rightarrow>
                    (case ListServices (ddServices deps namespace) of
                       Inl err \<Rightarrow> Inl (Msg ''list Kubernetes Services in resolved namespace'' # err)
                     | Inr services \<Rightarrow>
                         Inr (newReloadDiscoveryReport (BuildDiscoveredRoutes (geRender w) services (kdAnnotationPrefix kubernetesConfig)))))))"

definition recordReloadFailed :: "Server \<Rightarrow> Server" where
  "recordReloadFailed s = s\<lparr>srvMetrics := Reload (srvMetrics s) ReloadResultFailed\<rparr>"

text \<open>
  A reload with discovery first loads the file and lists the Services, without any lock on the server, and
  then applies both to the server as it is by then.
\<close>

definition reload_prepare :: "gateway_env \<Rightarrow> discoveryDeps \<Rightarrow> KubernetesDiscovery \<Rightarrow> string \<Rightarrow> (Config \<times> reloadDiscoveryReport) result" where
  "reload_prepare w deps kubernetesConfig path =
     (case LoadFile (geEnv w) (geOrd w 0) (geDecode w) (geReadFile w) path of
        Inl err \<Rightarrow> Inl err
      | Inr cfg \<Rightarrow>
          (case buildReloadDiscoveryReport w (cfg\<lparr>cDiscovery := (cDiscovery cfg)\<lparr>dsKubernetes := kubernetesConfig\<rparr>\<rparr>) deps of
             Inl err \<Rightarrow> Inl err
           | Inr report \<Rightarrow> Inr (cfg, report)))"

definition reload_apply :: "gateway_env \<Rightarrow> Config \<Rightarrow> reloadDiscoveryReport \<Rightarrow> Server \<Rightarrow> (error option \<times> Server) option" where
  "reload_apply w cfg report s =
     (case ReloadConfigWithDiscovery (geEnv w) (geOrd w 1) (geOrd w 2) (geRender w) cfg (routeProvider report) s of
        None \<Rightarrow> None
      | Some (Some err, s') \<Rightarrow> Some (Some err, s')
      | Some (None, s') \<Rightarrow>
          Some (None, s'\<lparr>srvMetrics := KubernetesSkippedServicesByReason (srvMetrics s') (krSkippedByReason (rrResult report))\<rparr>))"

definition reloader_ReloadFile :: "gateway_env \<Rightarrow> discoveryDeps \<Rightarrow> KubernetesDiscovery \<Rightarrow> string \<Rightarrow> Server \<Rightarrow> (error option \<times> Server) option" where
  "reloader_ReloadFile w deps kubernetesConfig path s =
     (if \<not> kdEnabled kubernetesConfig then
        ReloadFile (geEnv w) (geOrd w 1) (geOrd w 2) (geRender w) (LoadFile (geEnv w) (geOrd w 0) (geDecode w) (geReadFile w) path) s
      else (case reload_prepare w deps kubernetesConfig path of
              Inl err \<Rightarrow> Some (Some err, recordReloadFailed s)
            | Inr (cfg, report) \<Rightarrow> reload_apply w cfg report s))"

section \<open>The watch of a running gateway\<close>

definition kubernetesWatchRestartReason :: "error \<Rightarrow> string" where
  "kubernetesWatchRestartReason err =
     (if errors_Is err ErrServiceListFailed then KubernetesWatchRestartReasonListFailed
      else if errors_Is err ErrServiceWatchClosed then KubernetesWatchRestartReasonWatchClosed
      else if errors_Is err ErrServiceWatchError then KubernetesWatchRestartReasonWatchError
      else if errors_Is err ErrServiceWatchSetupFailed then KubernetesWatchRestartReasonWatchSetupFailed
      else KubernetesWatchRestartReasonUnknown)"

definition kubernetesDiscoveryErrorReason :: "error \<Rightarrow> string" where
  "kubernetesDiscoveryErrorReason err =
     (if errors_Is err ErrServiceListFailed then KubernetesDiscoveryErrorReasonInitialListFailed
      else if errors_Is err ErrServiceWatchClosed then KubernetesDiscoveryErrorReasonWatchClosed
      else if errors_Is err ErrServiceWatchError then KubernetesDiscoveryErrorReasonWatchError
      else if errors_Is err ErrServiceWatchSetupFailed then KubernetesDiscoveryErrorReasonWatchSetupFailed
      else KubernetesDiscoveryErrorReasonUnknown)"

text \<open>The sink with its two channels: one that is closed with the first update, one that has room for one value.\<close>

record runtimeDiscoverySink =
  rsReadyClosed :: bool
  rsSyncedFull :: bool

definition newRuntimeDiscoverySink :: runtimeDiscoverySink where
  "newRuntimeDiscoverySink = \<lparr>rsReadyClosed = False, rsSyncedFull = False\<rparr>"

type_synonym gateway = "runtimeDiscoverySink \<times> Server"

definition sink_update ::
    "gateway_env \<Rightarrow> (nat \<Rightarrow> error option) \<Rightarrow> int \<Rightarrow> SnapshotProvider \<Rightarrow> (string, nat) gomap \<Rightarrow> bool \<Rightarrow> gateway \<Rightarrow> gateway option" where
  \<comment> \<open>\<open>ctx\<close> and \<open>unix\<close> as in \<open>UpdateDiscoveredRoutes\<close>; nothing is a panic\<close>
  "sink_update w ctx unix provider skippedByReason recordSkippedServices = (\<lambda>(sink, s).
     (case UpdateDiscoveredRoutes (geEnv w) (geOrd w 1) (geOrd w 2) (geRender w) ctx unix (Some (Inr (SnapshotProvider_Routes provider))) s of
        None \<Rightarrow> None
      | Some (err, s1) \<Rightarrow>
          (let sink1 = sink\<lparr>rsReadyClosed := True, rsSyncedFull := True\<rparr> in
           case err of
             Some _ \<Rightarrow> Some (sink1, s1)
           | None \<Rightarrow>
               if recordSkippedServices
               then Some (sink1, s1\<lparr>srvMetrics := KubernetesSkippedServicesByReason (srvMetrics s1) skippedByReason\<rparr>)
               else Some (sink1, s1))))"

definition sink_Update :: "gateway_env \<Rightarrow> (nat \<Rightarrow> error option) \<Rightarrow> int \<Rightarrow> DiscoveredRoute list \<Rightarrow> gateway \<Rightarrow> gateway option" where
  "sink_Update w ctx unix routes g = sink_update w ctx unix (NewSnapshotProvider routes) [] False g"

definition sink_UpdateResult :: "gateway_env \<Rightarrow> (nat \<Rightarrow> error option) \<Rightarrow> int \<Rightarrow> k8s_Result \<Rightarrow> gateway \<Rightarrow> gateway option" where
  "sink_UpdateResult w ctx unix result g =
     sink_update w ctx unix (NewSnapshotProviderFromResult result) (krSkippedByReason result) True g"

definition gateway_sink :: "gateway_env \<Rightarrow> (nat \<Rightarrow> error option) \<Rightarrow> int \<Rightarrow> gateway option RouteSink" where
  \<comment> \<open>the sink of the watch controller: it acts on the gateway unless that has panicked\<close>
  "gateway_sink w ctx unix = ResultSink (\<lambda>result g. Option.bind g (sink_UpdateResult w ctx unix result))"

definition onRetry :: "error \<Rightarrow> Server \<Rightarrow> Server" where
  "onRetry err s = s\<lparr>srvMetrics := KubernetesDiscoveryError (KubernetesWatchRestart (srvMetrics s) (kubernetesWatchRestartReason err))
     (kubernetesDiscoveryErrorReason err)\<rparr>"

definition runner_begin :: "Server \<Rightarrow> Server" where
  "runner_begin s = s\<lparr>srvMetrics := KubernetesWatchRunning (srvMetrics s) True\<rparr>"

definition runner_end :: "error option \<Rightarrow> bool \<Rightarrow> Server \<Rightarrow> Server" where
  \<comment> \<open>what the supervisor answers, and whether the context has ended\<close>
  "runner_end err ctxErr s =
     (let s1 = s\<lparr>srvMetrics := KubernetesWatchRunning (srvMetrics s) False\<rparr> in
      case err of
        Some e \<Rightarrow> if \<not> ctxErr then s1\<lparr>srvMetrics := KubernetesDiscoveryError (srvMetrics s1) (kubernetesDiscoveryErrorReason e)\<rparr> else s1
      | None \<Rightarrow> s1)"

text \<open>What the wait at the end of the start sees first: the sink is ready, the runner has ended, or the context has.\<close>

datatype start_wait = SinkReady | RunnerDone "error option" bool | StartCtxDone error

definition startKubernetesRuntimeDiscovery ::
    "gateway_env \<Rightarrow> discoveryDeps \<Rightarrow> BackoffPolicy \<Rightarrow> Config \<Rightarrow> start_wait \<Rightarrow> Server \<Rightarrow> bool result \<times> Server" where
  \<comment> \<open>whether a watch is running afterwards; the runner has begun when the wait is reached\<close>
  "startKubernetesRuntimeDiscovery w deps backoff cfg wait s =
     (let kubernetesConfig = dsKubernetes (cDiscovery cfg);
          failed = (\<lambda>reason. s\<lparr>srvMetrics := KubernetesDiscoveryError (srvMetrics s) reason\<rparr>)
      in if \<not> kdEnabled kubernetesConfig then (Inr False, s)
         else
           (case ResolveNamespace (geReadFile w) (kdNamespace kubernetesConfig) (ddNamespaceResolver deps) of
              Inl err \<Rightarrow> (Inl (Msg ''resolve Kubernetes discovery namespace'' # err), failed KubernetesDiscoveryErrorReasonNamespaceResolutionFailed)
            | Inr namespace \<Rightarrow>
                (case ddInClusterConfig deps of
                   Some err \<Rightarrow> (Inl (Msg ''create in-cluster Kubernetes config'' # err), failed KubernetesDiscoveryErrorReasonInClusterConfigFailed)
                 | None \<Rightarrow>
                     (case ddNewClient deps of
                        Some err \<Rightarrow> (Inl (Msg ''create Kubernetes client'' # err), failed KubernetesDiscoveryErrorReasonUnknown)
                      | None \<Rightarrow>
                          (case NewServiceWatchController True namespace (Some (gateway_sink w (\<lambda>_. None) 0)) (kdAnnotationPrefix kubernetesConfig) of
                             Inl err \<Rightarrow> (Inl (Msg ''create Kubernetes Service watch controller'' # err), s)
                           | Inr _ \<Rightarrow>
                               (case NewWatchSupervisor True backoff of
                                  Inl err \<Rightarrow> (Inl (Msg ''create Kubernetes Service watch supervisor'' # err), s)
                                | Inr _ \<Rightarrow>
                                    (case wait of
                                       SinkReady \<Rightarrow> (Inr True, runner_begin s)
                                     | RunnerDone (Some err) ctxErr \<Rightarrow> (Inl err, runner_end (Some err) ctxErr (runner_begin s))
                                     | RunnerDone None ctxErr \<Rightarrow>
                                         (Inl [Msg ''Kubernetes Service watch controller stopped before becoming ready''],
                                          runner_end None ctxErr (runner_begin s))
                                     | StartCtxDone err \<Rightarrow> (Inl err, runner_begin s))))))))"

section \<open>Lemmas\<close>

definition env_wf :: "gateway_env \<Rightarrow> bool" where
  \<comment> \<open>loops visit every entry of a map, and decoded maps have distinct keys\<close>
  "env_wf w \<longleftrightarrow> (\<forall>k. range_order (geOrd w k)) \<and>
     (\<forall>data cfg. geDecode w data Defaults = Inr cfg \<longrightarrow> gm_wf (vcBackends (cVoiceChat cfg)))"

lemma LoadFile_ok:
  assumes "env_wf w" and "LoadFile (geEnv w) (geOrd w k) (geDecode w) (geReadFile w) path = Inr cfg"
  shows "config_ok (geEnv w) cfg"
proof -
  obtain data cfg0 where "geDecode w data Defaults = Inr cfg0" and "Validate (geEnv w) (geOrd w k) cfg0 = (None, cfg)"
    using assms(2) by (auto simp: LoadFile_def Load_def split: sum.splits prod.splits option.splits)
  with assms(1) show ?thesis by (intro Validate_config_ok) (auto simp: env_wf_def)
qed

lemma Rebuild_ok:
  assumes "env_wf w" and "config_ok (geEnv w) cfg" and "p = Some (Inr ds) \<or> p = None \<and> ds = []"
  shows "\<exists>sn. RebuildRouteSnapshot (geEnv w) (geOrd w 1) (geOrd w 2) (geOrd w 3) (geRender w) cfg p = Inr sn \<and>
    snapshot_ok (geEnv w) (geRender w) sn \<and> snStaticConfig sn = cfg \<and> snDiscoveredRoutes sn = ds"
proof -
  have ords: "range_order (geOrd w k)" for k using assms(1) by (simp add: env_wf_def)
  then have valid: "Validate (geEnv w) (geOrd w k) cfg = (None, cfg)" for k using assms(2) by (simp add: config_ok_def)
  have "gm_wf (vcBackends (cVoiceChat cfg))" using assms(2) by (simp add: config_ok_def)
  from BuildRouteSnapshot_valid [OF ords ords this valid, of 2 3 "geRender w" ds] assms(3) show ?thesis
    by (auto simp: RebuildRouteSnapshot_def valid)
qed

lemma loadStartup_enabled:
  assumes "env_wf w" and "LoadFile (geEnv w) (geOrd w 0) (geDecode w) (geReadFile w) path = Inr cfg"
    and "kdEnabled (dsKubernetes (cDiscovery cfg))" and "buildStartupDiscoveryReport w cfg deps = Inr report"
  shows "\<exists>sn. loadStartupWithDiscovery w deps path = Inr \<lparr>lrSnapshot = sn, lrDiscoveryReport = Some report\<rparr> \<and>
    snapshot_ok (geEnv w) (geRender w) sn \<and> snStaticConfig sn = cfg \<and> snDiscoveredRoutes sn = krRoutes (srResult report)"
  using Rebuild_ok [OF assms(1) LoadFile_ok [OF assms(1,2)], of "Some (Inr (krRoutes (srResult report)))" "krRoutes (srResult report)"] assms(2-4)
  by (auto simp: loadStartupWithDiscovery_def NewSnapshotProviderFromResult_def NewSnapshotProvider_def SnapshotProvider_Routes_def)

lemma loadStartup_cases:
  assumes "env_wf w" and "loadStartupWithDiscovery w deps path = Inr res"
  obtains cfg where "LoadFile (geEnv w) (geOrd w 0) (geDecode w) (geReadFile w) path = Inr cfg"
    and "snStaticConfig (lrSnapshot res) = cfg" and "snapshot_ok (geEnv w) (geRender w) (lrSnapshot res)"
    and "kdEnabled (dsKubernetes (cDiscovery cfg)) \<longrightarrow> (\<exists>report. buildStartupDiscoveryReport w cfg deps = Inr report)"
proof -
  obtain cfg where l: "LoadFile (geEnv w) (geOrd w 0) (geDecode w) (geReadFile w) path = Inr cfg"
    using assms(2) by (auto simp: loadStartupWithDiscovery_def split: sum.splits)
  show thesis
  proof (cases "kdEnabled (dsKubernetes (cDiscovery cfg))")
    case True
    then obtain report where r: "buildStartupDiscoveryReport w cfg deps = Inr report"
      using assms(2) l by (auto simp: loadStartupWithDiscovery_def split: sum.splits)
    from loadStartup_enabled [OF assms(1) l True r] assms(2) r l that show thesis by auto
  next
    case False
    from Rebuild_ok [OF assms(1) LoadFile_ok [OF assms(1) l], of None "[]"] False assms(2) l that show thesis
      by (auto simp: loadStartupWithDiscovery_def)
  qed
qed

lemma sink_UpdateResult_ok:
  assumes "env_wf w" and "server_ok (geEnv w) (geRender w) s"
  shows "\<exists>sink' s'. sink_UpdateResult w (\<lambda>_. None) unix result (sink, s) = Some (sink', s') \<and> server_ok (geEnv w) (geRender w) s' \<and>
    rsReadyClosed sink' \<and> rsSyncedFull sink' \<and> ssStaticConfig (srvState s') = ssStaticConfig (srvState s) \<and>
    ssDiscoveredRoutes (srvState s') = krRoutes result"
proof -
  let ?c = "ssStaticConfig (srvState s)" and ?v = "geEnv w" and ?ds = "krRoutes result"
  have ords: "range_order (geOrd w k)" for k using assms(1) by (simp add: env_wf_def)
  have c: "config_ok ?v ?c" using assms(2) by (simp add: server_ok_def state_ok_def snapshot_ok_def stateToSnapshot_def)
  have "Validate ?v (geOrd w 1) ?c = (None, ?c)" "gm_wf (vcBackends (cVoiceChat ?c))" using c ords by (auto simp: config_ok_def)
  from BuildRouteSnapshot_valid [OF ords ords this(2,1), of 2 "geRender w" ?ds] obtain sn where
    sn: "BuildRouteSnapshot ?v (geOrd w 1) (geOrd w 2) (geRender w) ?c ?ds = Inr sn" "snapshot_ok ?v (geRender w) sn" "snStaticConfig sn = ?c"
      "snDiscoveredRoutes sn = ?ds" by blast
  obtain s1 where s1: "updateRouteSnapshotLocked s sn = Some s1" "server_ok ?v (geRender w) s1" "stateToSnapshot (srvState s1) = sn"
    using updateRouteSnapshotLocked_ok [OF assms(2) sn(2)] by blast
  have p: "discoveredRoutesFromProvider (Some (Inr ?ds)) = Inr ?ds" by (simp add: discoveredRoutesFromProvider_def)
  have u: "UpdateDiscoveredRoutes ?v (geOrd w 1) (geOrd w 2) (geRender w) (\<lambda>_. None) unix (Some (Inr ?ds)) s =
      Some (None, s1\<lparr>srvMetrics := KubernetesDiscoverySync (srvMetrics s1) (length ?ds) unix\<rparr>)"
    by (rule UpdateDiscoveredRoutes_cases(5) [OF _ p _ sn(1) _ s1(1)]) simp_all
  have "ssStaticConfig (srvState s1) = snStaticConfig sn" "ssDiscoveredRoutes (srvState s1) = snDiscoveredRoutes sn"
    using s1(3) by (auto simp: stateToSnapshot_def)
  with u s1(2) sn(3,4) show ?thesis
    by (simp add: sink_UpdateResult_def sink_update_def NewSnapshotProviderFromResult_def NewSnapshotProvider_def SnapshotProvider_Routes_def
        Let_def server_ok_def recorder_ok_ops)
qed

lemma sink_fold_ok:
  assumes "env_wf w" and "server_ok (geEnv w) (geRender w) s" and "rs \<noteq> []"
  shows "\<exists>sink' s'. fold (\<lambda>result g. Option.bind g (sink_UpdateResult w (\<lambda>_. None) unix result)) rs (Some (sink, s)) = Some (sink', s') \<and>
    server_ok (geEnv w) (geRender w) s' \<and> rsReadyClosed sink' \<and> rsSyncedFull sink' \<and>
    ssStaticConfig (srvState s') = ssStaticConfig (srvState s) \<and> ssDiscoveredRoutes (srvState s') = krRoutes (last rs)"
  using assms(2,3)
proof (induction rs arbitrary: sink s)
  case (Cons r rs)
  from sink_UpdateResult_ok [OF assms(1) Cons.prems(1), of unix r sink] obtain sink1 s1 where
    u: "sink_UpdateResult w (\<lambda>_. None) unix r (sink, s) = Some (sink1, s1)" "server_ok (geEnv w) (geRender w) s1"
      "rsReadyClosed sink1" "rsSyncedFull sink1" "ssStaticConfig (srvState s1) = ssStaticConfig (srvState s)"
      "ssDiscoveredRoutes (srvState s1) = krRoutes r" by blast
  show ?case
  proof (cases "rs = []")
    case True
    with u show ?thesis by simp
  next
    case False
    with Cons.IH [OF u(2) False, of sink1] u(1,5) show ?thesis by auto
  qed
qed simp

lemma state_select:
  assumes "server_ok v render s" and "snapshot_ok v render sn"
    and "ssStaticConfig (srvState s) = snStaticConfig sn" and "ssDiscoveredRoutes (srvState s) = snDiscoveredRoutes sn"
  shows "ssCfg (srvState s) = snConfig sn \<and> (\<exists>r. snRouter sn = Some r \<and> (\<forall>a. Select (ssRouter (srvState s)) a = Select r a))"
proof -
  let ?sn = "stateToSnapshot (srvState s)"
  have ok: "snapshot_ok v render ?sn" using assms(1) by (simp add: server_ok_def state_ok_def)
  have cfg: "snConfig ?sn = snConfig sn" using ok assms(2-4) by (simp add: snapshot_ok_def stateToSnapshot_def)
  moreover have "\<forall>a. Select (ssRouter (srvState s)) a = select_spec (snConfig ?sn) a"
    using ok by (auto simp: snapshot_ok_def stateToSnapshot_def)
  ultimately show ?thesis using assms(2) by (auto simp: snapshot_ok_def stateToSnapshot_def)
qed

lemma newServer_snapshot:
  assumes "snapshot_ok v render sn" and "newServer sn unix = Some s"
  shows "server_ok v render s" and "stateToSnapshot (srvState s) = sn"
proof -
  from newServer_ok [OF assms(1), of unix] assms(2) show "server_ok v render s" by simp
  obtain r where r: "snRouter sn = Some r" using assms(1) by (auto simp: snapshot_ok_def)
  from newServerState_ok [OF assms(1) _ r, of 1] assms(2) r show "stateToSnapshot (srvState s) = sn"
    by (auto simp: newServer_def Let_def)
qed

lemma buildStartup_services:
  assumes "buildStartupDiscoveryReport w cfg deps = Inr report"
  shows "buildStartupDiscoveryReport w cfg (deps\<lparr>ddServices := (\<lambda>_. Inr current)\<rparr>) =
    Inr \<lparr>srServices = ListServices_loop current [],
         srResult = BuildDiscoveredRoutes (geRender w) (ListServices_loop current []) (kdAnnotationPrefix (dsKubernetes (cDiscovery cfg)))\<rparr>"
  using assms by (auto simp: buildStartupDiscoveryReport_def ListServices_def Let_def split: sum.splits option.splits)

lemma buildReload_Startup:
  "buildReloadDiscoveryReport w cfg deps =
     (case buildStartupDiscoveryReport w cfg deps of Inl e \<Rightarrow> Inl e | Inr report \<Rightarrow> Inr \<lparr>rrResult = srResult report\<rparr>)"
  by (auto simp: buildReloadDiscoveryReport_def buildStartupDiscoveryReport_def newReloadDiscoveryReport_def cloneKubernetesDiscoveryResult_def
      Let_def split: sum.split option.split)

lemma reload_apply_ok:
  assumes "env_wf w" and "server_ok (geEnv w) (geRender w) s" and "config_ok (geEnv w) cfg"
  shows "\<exists>s'. reload_apply w cfg report s = Some (None, s') \<and> server_ok (geEnv w) (geRender w) s' \<and>
    ssStaticConfig (srvState s') = cfg \<and> ssDiscoveredRoutes (srvState s') = krRoutes (rrResult report)"
proof -
  let ?v = "geEnv w" and ?ds = "krRoutes (rrResult report)"
  have ords: "range_order (geOrd w k)" for k using assms(1) by (simp add: env_wf_def)
  have "Validate ?v (geOrd w 1) cfg = (None, cfg)" "gm_wf (vcBackends (cVoiceChat cfg))" using assms(3) ords by (auto simp: config_ok_def)
  from BuildRouteSnapshot_valid [OF ords ords this(2,1), of 2 "geRender w" ?ds] obtain sn where
    sn: "BuildRouteSnapshot ?v (geOrd w 1) (geOrd w 2) (geRender w) cfg ?ds = Inr sn" "snapshot_ok ?v (geRender w) sn" "snStaticConfig sn = cfg"
      "snDiscoveredRoutes sn = ?ds" by blast
  obtain s1 where s1: "updateRouteSnapshotLocked s sn = Some s1" "server_ok ?v (geRender w) s1" "stateToSnapshot (srvState s1) = sn"
    using updateRouteSnapshotLocked_ok [OF assms(2) sn(2)] by blast
  have "ssStaticConfig (srvState s1) = snStaticConfig sn" "ssDiscoveredRoutes (srvState s1) = snDiscoveredRoutes sn"
    using s1(3) by (auto simp: stateToSnapshot_def)
  with sn s1(1,2) show ?thesis
    by (simp add: reload_apply_def ReloadConfigWithDiscovery_def discoveredRoutesFromProvider_def routeProvider_def reloadConfigLocked_def
        NewSnapshotProviderFromResult_def NewSnapshotProvider_def SnapshotProvider_Routes_def server_ok_def recorder_ok_ops)
qed

lemma Run_loop_error:
  "Run_loop render ord c ins services st = (Some (Some err), st') \<Longrightarrow> errors_Is err ErrServiceWatchClosed \<or> errors_Is err ErrServiceWatchError"
  by (induction render ord c ins services st rule: Run_loop.induct)
    (auto simp: applyWatchEvent_def errors_Is_def Let_def split: if_splits sum.splits option.splits watch_type.splits)

lemma watch_error_known:
  "controller_Run render ord c answer setup ins st = (Some (Some err), st') \<Longrightarrow>
     errors_Is err ErrServiceListFailed \<or> errors_Is err ErrServiceWatchClosed \<or> errors_Is err ErrServiceWatchError \<or>
     errors_Is err ErrServiceWatchSetupFailed"
  by (auto simp: controller_Run_def initialServices_def errors_Is_def split: sum.splits option.splits if_splits dest: Run_loop_error)

section \<open>Properties\<close>

text \<open>C12: a watched gateway is up to date. A gateway that was started from a configuration and has since followed the watch of the Services routes every
  address as a gateway that is started now, from the same configuration and the Services that exist now; and it has reported itself
  ready. This holds after any events, whatever the order in which maps are visited.\<close>

theorem watched_gateway_is_current:
  assumes "env_wf w" and "loadStartupWithDiscovery w deps path = Inr res" and "newServer (lrSnapshot res) unix0 = Some s0"
    and "kdEnabled (dsKubernetes (cDiscovery (snStaticConfig (lrSnapshot res))))"
    and "NewServiceWatchController True namespace (Some (gateway_sink w (\<lambda>_. None) unix))
      (kdAnnotationPrefix (dsKubernetes (cDiscovery (snStaticConfig (lrSnapshot res))))) = Inr c"
    and "\<And>xs. mset (ord xs) = mset xs" and "distinct (map skey items)" and "\<forall>ev \<in> set evs. weType ev \<noteq> WatchError"
    and "distinct (map skey current)" and "cluster_of current = fold cluster_step evs (cluster_of items)"
  shows "\<exists>fresh sink s r. loadStartupWithDiscovery w (deps\<lparr>ddServices := (\<lambda>_. Inr current)\<rparr>) path = Inr fresh \<and>
    controller_Run (geRender w) ord c (Inr items) None (map ChanEvent evs) (Some (newRuntimeDiscoverySink, s0)) = (None, Some (sink, s)) \<and>
    rsReadyClosed sink \<and> ssCfg (srvState s) = snConfig (lrSnapshot fresh) \<and> snRouter (lrSnapshot fresh) = Some r \<and>
    (\<forall>a. Select (ssRouter (srvState s)) a = Select r a)"
proof -
  obtain cfg where l: "LoadFile (geEnv w) (geOrd w 0) (geDecode w) (geReadFile w) path = Inr cfg"
    and static: "snStaticConfig (lrSnapshot res) = cfg" and ok: "snapshot_ok (geEnv w) (geRender w) (lrSnapshot res)"
    and rep: "kdEnabled (dsKubernetes (cDiscovery cfg)) \<longrightarrow> (\<exists>report. buildStartupDiscoveryReport w cfg deps = Inr report)"
    by (rule loadStartup_cases [OF assms(1,2)])
  have enabled: "kdEnabled (dsKubernetes (cDiscovery cfg))" using assms(4) static by simp
  with rep obtain report where report: "buildStartupDiscoveryReport w cfg deps = Inr report" by blast
  let ?prefix = "kdAnnotationPrefix (dsKubernetes (cDiscovery cfg))"
  from loadStartup_enabled [OF assms(1) l enabled buildStartup_services [OF report, of current]] obtain sn where
    fresh: "loadStartupWithDiscovery w (deps\<lparr>ddServices := (\<lambda>_. Inr current)\<rparr>) path =
        Inr \<lparr>lrSnapshot = sn, lrDiscoveryReport = Some \<lparr>srServices = ListServices_loop current [],
          srResult = BuildDiscoveredRoutes (geRender w) (ListServices_loop current []) ?prefix\<rparr>\<rparr>"
      "snapshot_ok (geEnv w) (geRender w) sn" "snStaticConfig sn = cfg"
      "snDiscoveredRoutes sn = krRoutes (BuildDiscoveredRoutes (geRender w) (ListServices_loop current []) ?prefix)" by auto
  have c: "wcSink c = ResultSink (\<lambda>result g. Option.bind g (sink_UpdateResult w (\<lambda>_. None) unix result))" "wcAnnotationPrefix c = ?prefix"
    using assms(5) static by (auto simp: NewServiceWatchController_def gateway_sink_def split: option.splits)
  obtain rs where run: "controller_Run (geRender w) ord c (Inr items) None (map ChanEvent evs) (Some (newRuntimeDiscoverySink, s0)) =
      (None, fold (\<lambda>result g. Option.bind g (sink_UpdateResult w (\<lambda>_. None) unix result)) rs (Some (newRuntimeDiscoverySink, s0)))"
    "length rs = Suc (length evs)" "krRoutes (last rs) = krRoutes (BuildDiscoveredRoutes (geRender w) (ListServices_loop current []) ?prefix)"
    using controller_Run_results [OF assms(6) c(1) assms(7-10), of "geRender w" "Some (newRuntimeDiscoverySink, s0)"] c(2) by metis
  note s0 = newServer_snapshot [OF ok assms(3)]
  have "rs \<noteq> []" using run(2) by auto
  from sink_fold_ok [OF assms(1) s0(1) this, of unix newRuntimeDiscoverySink] obtain sink s where
    f: "fold (\<lambda>result g. Option.bind g (sink_UpdateResult w (\<lambda>_. None) unix result)) rs (Some (newRuntimeDiscoverySink, s0)) = Some (sink, s)"
      "server_ok (geEnv w) (geRender w) s" "rsReadyClosed sink" "ssStaticConfig (srvState s) = ssStaticConfig (srvState s0)"
      "ssDiscoveredRoutes (srvState s) = krRoutes (last rs)" by blast
  have "ssStaticConfig (srvState s0) = snStaticConfig (stateToSnapshot (srvState s0))" by (simp add: stateToSnapshot_def)
  then have "ssStaticConfig (srvState s0) = cfg" using s0(2) static by simp
  with state_select [OF f(2) fresh(2)] f(4,5) fresh(3,4) run(3) have
    "ssCfg (srvState s) = snConfig sn \<and> (\<exists>r. snRouter sn = Some r \<and> (\<forall>a. Select (ssRouter (srvState s)) a = Select r a))" by simp
  with fresh(1) run(1) f(1,3) show ?thesis by auto
qed

definition sample_discovering :: Config where
  "sample_discovering = Defaults\<lparr>cDiscovery := \<lparr>dsKubernetes = \<lparr>kdEnabled = True, kdNamespace = ''mc'',
     kdMode = KubernetesDiscoveryModeAnnotations, kdAnnotationPrefix = DefaultKubernetesAnnotationPrefix\<rparr>\<rparr>\<rparr>"

definition sample_gateway_env :: gateway_env where
  "sample_gateway_env = \<lparr>geEnv = sample_env, geOrd = (\<lambda>_ m. m), geRender = (\<lambda>_. ''''),
     geDecode = (\<lambda>_ _. Inr sample_discovering), geReadFile = (\<lambda>_. Inr [])\<rparr>"

definition sample_deps :: discoveryDeps where
  "sample_deps = \<lparr>ddNamespaceResolver = \<lparr>nrPath = '''', nrReadFile = None\<rparr>, ddInClusterConfig = None, ddNewClient = None,
     ddServices = (\<lambda>_. Inr [sample_service ''lobby''])\<rparr>"

lemma sample_namespace: "TrimSpace ''mc'' = ''mc''" "validateNamespace ''mc'' = None"
proof -
  show t: "TrimSpace ''mc'' = ''mc''" by (rule TrimSpace_plain) code_simp+
  have "k8s_isDNSLabel ''mc''" by code_simp
  then show "validateNamespace ''mc'' = None" by (simp add: validateNamespace_def t)
qed

lemma sample_discovering_valid: "Validate v ord sample_discovering = (None, sample_discovering)"
proof -
  have "isDNSLabel ''mc''" by code_simp
  then have "validateKubernetesDiscovery (dsKubernetes (cDiscovery sample_discovering)) = None"
    by (simp add: sample_discovering_def validateKubernetesDiscovery_def Defaults_prefix sample_namespace)
  moreover have "cListen Defaults = '':25565''" "0 < cHandshakeTimeout Defaults" "0 < cBackendDialTimeout Defaults"
    "\<not> mtEnabled (cMetrics Defaults)" "\<not> urEnabled (cUDPRelay Defaults)" "\<not> bdEnabled (cBedrock Defaults)" "cRoutes Defaults = []"
    by (simp_all add: Defaults_def durations)
  moreover have "validate_default_route sample_discovering = validate_default_route Defaults"
    by (simp add: validate_default_route_def sample_discovering_def)
  ultimately show ?thesis
    by (simp add: Validate_def Defaults_parts TrimSpace_sample Let_def sample_discovering_def)
qed

lemma sample_gateway_env_wf: "env_wf sample_gateway_env"
  using Validate_Defaults range_order_id by (simp add: env_wf_def sample_gateway_env_def sample_discovering_def Defaults_def gm_wf_def)

lemma sample_LoadFile:
  "LoadFile (geEnv sample_gateway_env) (geOrd sample_gateway_env k) (geDecode sample_gateway_env) (geReadFile sample_gateway_env) path = Inr sample_discovering"
  by (simp add: LoadFile_def Load_def sample_gateway_env_def sample_discovering_valid)

lemma sample_enabled:
  "kdEnabled (dsKubernetes (cDiscovery sample_discovering))" "kdNamespace (dsKubernetes (cDiscovery sample_discovering)) = ''mc''"
  by (simp_all add: sample_discovering_def)

lemma sample_report: "\<exists>report. buildStartupDiscoveryReport sample_gateway_env sample_discovering sample_deps = Inr report"
  by (simp add: buildStartupDiscoveryReport_def sample_enabled ResolveNamespace_def sample_namespace sample_deps_def ListServices_def Let_def)

lemma sample_started:
  "\<exists>res s0. loadStartupWithDiscovery sample_gateway_env sample_deps ''gw.yaml'' = Inr res \<and> newServer (lrSnapshot res) 0 = Some s0 \<and>
     snStaticConfig (lrSnapshot res) = sample_discovering \<and> server_ok (geEnv sample_gateway_env) (geRender sample_gateway_env) s0"
proof -
  obtain report where "buildStartupDiscoveryReport sample_gateway_env sample_discovering sample_deps = Inr report" using sample_report ..
  from loadStartup_enabled [OF sample_gateway_env_wf sample_LoadFile sample_enabled(1) this] obtain sn where
    "loadStartupWithDiscovery sample_gateway_env sample_deps ''gw.yaml'' = Inr \<lparr>lrSnapshot = sn, lrDiscoveryReport = Some report\<rparr>"
    "snapshot_ok (geEnv sample_gateway_env) (geRender sample_gateway_env) sn" "snStaticConfig sn = sample_discovering" by blast
  with newServer_ok [of "geEnv sample_gateway_env" "geRender sample_gateway_env" sn 0] show ?thesis by fastforce
qed

theorem watched_gateway_is_current_witness:
  "\<exists>c (s0 :: Server) sink s. controller_Run (\<lambda>_. '''') rev c (Inr [sample_service ''lobby'']) None
      [ChanEvent \<lparr>weType = Added, weObject = Some (sample_service ''hub'')\<rparr>, ChanEvent \<lparr>weType = Deleted, weObject = Some (sample_service ''lobby'')\<rparr>]
      (Some (newRuntimeDiscoverySink, s0)) = (None, Some (sink, s)) \<and> rsReadyClosed sink"
proof -
  let ?w = sample_gateway_env
  let ?evs = "[\<lparr>weType = Added, weObject = Some (sample_service ''hub'')\<rparr>, \<lparr>weType = Deleted, weObject = Some (sample_service ''lobby'')\<rparr>]"
  obtain res s0 where s: "loadStartupWithDiscovery ?w sample_deps ''gw.yaml'' = Inr res" "newServer (lrSnapshot res) 0 = Some s0"
    "snStaticConfig (lrSnapshot res) = sample_discovering" using sample_started by blast
  have on: "kdEnabled (dsKubernetes (cDiscovery (snStaticConfig (lrSnapshot res))))" using s(3) sample_enabled by simp
  obtain c where c: "NewServiceWatchController True ''mc'' (Some (gateway_sink ?w (\<lambda>_. None) 0))
      (kdAnnotationPrefix (dsKubernetes (cDiscovery (snStaticConfig (lrSnapshot res))))) = Inr c"
    by (simp add: NewServiceWatchController_def sample_namespace)
  have "cluster_of [sample_service ''hub''] = fold cluster_step ?evs (cluster_of [sample_service ''lobby''])"
    by (auto simp: cluster_of_def cluster_step_def skey_def serviceKey_def sample_service_def)
  from watched_gateway_is_current [OF sample_gateway_env_wf s(1,2) on c _ _ _ _ this, of rev]
  obtain sink s where "controller_Run (geRender ?w) rev c (Inr [sample_service ''lobby'']) None (map ChanEvent ?evs)
      (Some (newRuntimeDiscoverySink, s0)) = (None, Some (sink, s))" "rsReadyClosed sink" by auto
  then show ?thesis by (simp add: sample_gateway_env_def) blast
qed



text \<open>C39: a reload can undo what the watch has learnt. A reload lists the Services before it takes the server's lock. When the watch applies a newer
  result in between, the reload replaces its routes by the older ones, and they stay until the next event.\<close>

theorem reload_overwrites_watch:
  assumes "env_wf w" and "server_ok (geEnv w) (geRender w) s" and "reload_prepare w deps kubernetesConfig path = Inr (cfg, report)"
  shows "\<exists>sink' s1 s2. sink_UpdateResult w (\<lambda>_. None) unix newer (sink, s) = Some (sink', s1) \<and>
    ssDiscoveredRoutes (srvState s1) = krRoutes newer \<and>
    reload_apply w cfg report s1 = Some (None, s2) \<and> ssDiscoveredRoutes (srvState s2) = krRoutes (rrResult report)"
proof -
  have "config_ok (geEnv w) cfg"
    using assms(3) LoadFile_ok [OF assms(1)] by (auto simp: reload_prepare_def split: sum.splits)
  from sink_UpdateResult_ok [OF assms(1,2), of unix newer sink] obtain sink' s1 where
    "sink_UpdateResult w (\<lambda>_. None) unix newer (sink, s) = Some (sink', s1)" "server_ok (geEnv w) (geRender w) s1"
    "ssDiscoveredRoutes (srvState s1) = krRoutes newer" by blast
  with reload_apply_ok [OF assms(1) _ \<open>config_ok _ cfg\<close>, of s1 report] show ?thesis by blast
qed

theorem reload_overwrites_watch_witness:
  "\<exists>cfg report s sink' s1 s2. sink_UpdateResult sample_gateway_env (\<lambda>_. None) 0
      \<lparr>krRoutes = [\<lparr>drtHost = ''hub.example.com'', drtBackend = ''hub.mc.svc.cluster.local:25565''\<rparr>], krSkipped = [], krDuplicateHosts = [], krSkippedByReason = []\<rparr>
      (newRuntimeDiscoverySink, s) = Some (sink', s1) \<and> length (ssDiscoveredRoutes (srvState s1)) = 1 \<and>
    reload_apply sample_gateway_env cfg report s1 = Some (None, s2) \<and> ssDiscoveredRoutes (srvState s2) = krRoutes (rrResult report)"
proof -
  obtain res s0 where s: "server_ok (geEnv sample_gateway_env) (geRender sample_gateway_env) s0" using sample_started by blast
  obtain report where "buildStartupDiscoveryReport sample_gateway_env sample_discovering sample_deps = Inr report" using sample_report ..
  then have "reload_prepare sample_gateway_env sample_deps (dsKubernetes (cDiscovery sample_discovering)) ''gw.yaml'' =
      Inr (sample_discovering, \<lparr>rrResult = srResult report\<rparr>)"
    by (simp add: reload_prepare_def sample_LoadFile buildReload_Startup)
  from reload_overwrites_watch [OF sample_gateway_env_wf s this, of 0
      "\<lparr>krRoutes = [\<lparr>drtHost = ''hub.example.com'', drtBackend = ''hub.mc.svc.cluster.local:25565''\<rparr>], krSkipped = [], krDuplicateHosts = [], krSkippedByReason = []\<rparr>"
      newRuntimeDiscoverySink]
  show ?thesis by fastforce
qed

text \<open>The errors of a watch are classified. Whatever a run of the watch controller fails with, the metrics get a reason for it that is not
  the unknown one, both for the restart and for the discovery error.\<close>

theorem watch_errors_classified:
  assumes "controller_Run render ord c answer setup ins st = (Some (Some err), st')"
  shows "kubernetesWatchRestartReason err \<noteq> KubernetesWatchRestartReasonUnknown \<and>
    kubernetesDiscoveryErrorReason err \<noteq> KubernetesDiscoveryErrorReasonUnknown"
  using watch_error_known [OF assms]
  by (auto simp: kubernetesWatchRestartReason_def kubernetesDiscoveryErrorReason_def KubernetesWatchRestartReasonListFailed_def
      KubernetesWatchRestartReasonWatchClosed_def KubernetesWatchRestartReasonWatchError_def KubernetesWatchRestartReasonWatchSetupFailed_def
      KubernetesWatchRestartReasonUnknown_def KubernetesDiscoveryErrorReasonInitialListFailed_def KubernetesDiscoveryErrorReasonWatchClosed_def
      KubernetesDiscoveryErrorReasonWatchError_def KubernetesDiscoveryErrorReasonWatchSetupFailed_def KubernetesDiscoveryErrorReasonUnknown_def)

theorem watch_errors_classified_witness:
  "kubernetesWatchRestartReason [ErrServiceWatchClosed] \<noteq> KubernetesWatchRestartReasonUnknown"
proof -
  have "controller_Run (\<lambda>_. '''') rev \<lparr>wcNamespace = ''mc'', wcSink = ResultSink (\<lambda>r log. log @ [r]), wcAnnotationPrefix = ''''\<rparr>
      (Inr []) None [ChanClosed False] [] = (Some (Some [ErrServiceWatchClosed]), [BuildDiscoveredRoutes (\<lambda>_. '''') [] ''''])"
    by (simp add: controller_Run_def initialServices_def updateSink_def)
  from watch_errors_classified [OF this] show ?thesis by simp
qed

end
