(* ===== verification/Spec2Isabelle.thy ===== *)
theory Spec2Isabelle
  imports Conn Mcproto Voicechat Supervisor Monitor Configwatch Bedrockproxy Gatewaydiscovery
begin

text \<open>
  A verification library for \<open>mc-router\<close>.
\<close>

end
